(* ===== verification/Prelude.thy ===== *)
theory Prelude
  imports Main "HOL-Library.Word" "HOL-Library.Sublist"
begin

text \<open>
  What every component shares: the names of the machine types, the theorem collections that the
  component proofs extend, and the generic lemmas on lists, options and maps that carry them.

  Rust strings are UTF-8 byte sequences, so a \<open>&str\<close> or \<open>String\<close> is a \<^typ>\<open>string\<close> whose
  characters are its bytes (\<^typ>\<open>char\<close> has exactly 256 values), and \<open>len\<close> counts bytes, as in
  Rust. A \<open>Vec<u8>\<close> that is a message body is a \<^typ>\<open>string\<close> as well; keys, digests and sealed
  blobs, on which the code does bit arithmetic or cryptography, are lists of 8-bit words.
\<close>

type_synonym u8 = "8 word"
type_synonym u16 = "16 word"
type_synonym u32 = "32 word"
type_synonym u64 = "64 word"

type_synonym body = string
type_synonym blob = "u8 list"

text \<open>
  \<open>rust_str\<close> collects the rules that evaluate the string library, \<open>wf_intros\<close> the preservation
  facts of the component invariants.
\<close>

named_theorems rust_str
named_theorems wf_intros

section \<open>A Rust panic\<close>

text \<open>
  The release profile compiles with \<open>panic = "abort"\<close>: a panic ends the process. A function that
  can panic returns a value of this type, so that every \<open>unwrap\<close>, \<open>expect\<close>, failed index and
  explicit \<open>panic!\<close> of the source is a branch of the model.
\<close>

datatype 'a outcome = Panic string | Done 'a

primrec bind_outcome :: "'a outcome \<Rightarrow> ('a \<Rightarrow> 'b outcome) \<Rightarrow> 'b outcome" where
  "bind_outcome (Panic m) f = Panic m"
| "bind_outcome (Done a) f = f a"

primrec is_done :: "'a outcome \<Rightarrow> bool" where
  "is_done (Panic m) = False"
| "is_done (Done a) = True"

fun map_outcome_list :: "('a \<Rightarrow> 'b outcome) \<Rightarrow> 'a list \<Rightarrow> 'b list outcome" where
  "map_outcome_list f [] = Done []"
| "map_outcome_list f (x # xs) =
     bind_outcome (f x) (\<lambda>y. bind_outcome (map_outcome_list f xs) (\<lambda>ys. Done (y # ys)))"

lemma bind_outcome_Done: "bind_outcome m f = Done b \<longleftrightarrow> (\<exists>a. m = Done a \<and> f a = Done b)"
  by (cases m) auto

lemma bind_outcome_assoc:
  "bind_outcome (bind_outcome m f) g = bind_outcome m (\<lambda>x. bind_outcome (f x) g)"
  by (cases m) auto

lemma bind_outcome_ext: "(\<And>x. f x = g x) \<Longrightarrow> bind_outcome m f = bind_outcome m g"
  by (cases m) auto

lemma bind_outcome_Done_right [simp]: "bind_outcome m Done = m"
  by (cases m) auto

lemma map_outcome_list_total:
  "(\<And>x. x \<in> set xs \<Longrightarrow> f x = Done (g x)) \<Longrightarrow> map_outcome_list f xs = Done (map g xs)"
  by (induction xs) auto

lemma map_outcome_list_Done:
  "map_outcome_list f xs = Done ys \<Longrightarrow> list_all2 (\<lambda>x y. f x = Done y) xs ys"
  by (induction xs arbitrary: ys) (auto simp: bind_outcome_Done)

section \<open>Lists and options\<close>

lemma prefix_drop_less: "p \<noteq> [] \<Longrightarrow> prefix p (drop i s) \<Longrightarrow> i < length s"
  by (cases "i < length s") auto

lemma prefix_append_drop: "prefix p s \<Longrightarrow> p @ drop (length p) s = s"
  by (auto simp: prefix_def)

end
