(* ===== verification/Rust_Text.thy ===== *)
theory Rust_Text
  imports Prelude
begin

text \<open>
  The part of Rust's standard string library that the sources call, on byte strings: ASCII and
  Unicode case folding, searching, splitting, trimming, joining and replacing, and decimal and
  hexadecimal text. Every function is executable and follows the documented behaviour of the
  method it is named after.
\<close>

section \<open>Case folding\<close>

definition code :: "char \<Rightarrow> nat" where
  "code c = of_char c"

definition ascii_lower :: "char \<Rightarrow> char" where
  "ascii_lower c = (if 65 \<le> code c \<and> code c \<le> 90 then char_of (code c + 32) else c)"

definition to_ascii_lowercase :: "string \<Rightarrow> string" where
  "to_ascii_lowercase s = map ascii_lower s"

definition eq_ignore_ascii_case :: "string \<Rightarrow> string \<Rightarrow> bool" where
  "eq_ignore_ascii_case a b \<longleftrightarrow> to_ascii_lowercase a = to_ascii_lowercase b"

text \<open>
  \<open>str::to_lowercase\<close> is the Unicode mapping. Of the code points outside ASCII exactly two map to
  text with an ASCII letter in it: U+212A (Kelvin sign) to \<open>k\<close>, and U+0130 to \<open>i\<close> followed by
  U+0307. All others map to text outside ASCII. The callers compare the result with ASCII
  literals only, so those other mappings are left as the identity here.
\<close>

fun to_lowercase :: "string \<Rightarrow> string" where
  "to_lowercase [] = []"
| "to_lowercase (a # s) =
     (if prefix [CHR 0xE2, CHR 0x84, CHR 0xAA] (a # s) then CHR ''k'' # to_lowercase (drop 2 s)
      else if prefix [CHR 0xC4, CHR 0xB0] (a # s)
        then [CHR ''i'', CHR 0xCC, CHR 0x87] @ to_lowercase (drop 1 s)
      else ascii_lower a # to_lowercase s)"

section \<open>Searching\<close>

fun find_sub :: "string \<Rightarrow> string \<Rightarrow> nat option" where
  "find_sub p [] = (if p = [] then Some 0 else None)"
| "find_sub p (c # cs) = (if prefix p (c # cs) then Some 0 else map_option Suc (find_sub p cs))"

fun rfind_sub :: "string \<Rightarrow> string \<Rightarrow> nat option" where
  "rfind_sub p [] = (if p = [] then Some 0 else None)"
| "rfind_sub p (c # cs) =
     (case rfind_sub p cs of
        Some i \<Rightarrow> Some (Suc i)
      | None \<Rightarrow> if prefix p (c # cs) then Some 0 else None)"

definition contains :: "string \<Rightarrow> string \<Rightarrow> bool" where
  "contains p s \<longleftrightarrow> find_sub p s \<noteq> None"

fun find_char :: "(char \<Rightarrow> bool) \<Rightarrow> string \<Rightarrow> nat option" where
  "find_char P [] = None"
| "find_char P (c # cs) = (if P c then Some 0 else map_option Suc (find_char P cs))"

definition starts_with :: "string \<Rightarrow> string \<Rightarrow> bool" where
  "starts_with p s \<longleftrightarrow> prefix p s"

definition ends_with :: "string \<Rightarrow> string \<Rightarrow> bool" where
  "ends_with p s \<longleftrightarrow> prefix (rev p) (rev s)"

definition strip_prefix :: "string \<Rightarrow> string \<Rightarrow> string option" where
  "strip_prefix p s = (if prefix p s then Some (drop (length p) s) else None)"

section \<open>Splitting, joining, replacing\<close>

fun split_by :: "(char \<Rightarrow> bool) \<Rightarrow> string \<Rightarrow> string list" where
  "split_by P [] = [[]]"
| "split_by P (c # cs) =
     (if P c then [] # split_by P cs
      else (case split_by P cs of [] \<Rightarrow> [[c]] | p # ps \<Rightarrow> (c # p) # ps))"

definition split_on :: "char \<Rightarrow> string \<Rightarrow> string list" where
  "split_on d s = split_by (\<lambda>c. c = d) s"

definition split_once :: "char \<Rightarrow> string \<Rightarrow> (string \<times> string) option" where
  "split_once d s =
     (case find_char (\<lambda>c. c = d) s of
        Some i \<Rightarrow> Some (take i s, drop (Suc i) s)
      | None \<Rightarrow> None)"

fun join :: "string \<Rightarrow> string list \<Rightarrow> string" where
  "join sep [] = []"
| "join sep [x] = x"
| "join sep (x # y # ys) = x @ sep @ join sep (y # ys)"

text \<open>
  \<open>str::replace\<close> with a non-empty pattern: matches are found left to right and do not overlap. No
  caller passes the empty pattern, on which this function is the identity.
\<close>

function str_replace :: "string \<Rightarrow> string \<Rightarrow> string \<Rightarrow> string" where
  "str_replace p r [] = []"
| "str_replace p r (c # cs) =
     (if p \<noteq> [] \<and> prefix p (c # cs) then r @ str_replace p r (drop (length p) (c # cs))
      else c # str_replace p r cs)"
  by pat_completeness auto
termination
  by (relation "measure (\<lambda>(p, r, s). length s)") auto

text \<open>\<open>str::replacen(p, r, 1)\<close>.\<close>

fun replace_first :: "string \<Rightarrow> string \<Rightarrow> string \<Rightarrow> string" where
  "replace_first p r s =
     (case find_sub p s of
        Some i \<Rightarrow> take i s @ r @ drop (i + length p) s
      | None \<Rightarrow> s)"

text \<open>\<open>str::lines\<close>: split at line feeds, drop one trailing carriage return per line, no last empty
  line.\<close>

definition strip_cr :: "string \<Rightarrow> string" where
  "strip_cr l = (if l \<noteq> [] \<and> last l = CHR 0x0D then butlast l else l)"

definition str_lines :: "string \<Rightarrow> string list" where
  "str_lines s =
     (let ps = split_on (CHR 0x0A) s
      in map strip_cr (if last ps = [] then butlast ps else ps))"

section \<open>White space\<close>

text \<open>The UTF-8 encodings of the code points with the Unicode property White\_Space.\<close>

definition white_space :: "string list" where
  "white_space =
     [[CHR 0x20], [CHR 0x09], [CHR 0x0A], [CHR 0x0B], [CHR 0x0C], [CHR 0x0D],
      [CHR 0xC2, CHR 0x85], [CHR 0xC2, CHR 0xA0], [CHR 0xE1, CHR 0x9A, CHR 0x80],
      [CHR 0xE2, CHR 0x80, CHR 0x80], [CHR 0xE2, CHR 0x80, CHR 0x81],
      [CHR 0xE2, CHR 0x80, CHR 0x82], [CHR 0xE2, CHR 0x80, CHR 0x83],
      [CHR 0xE2, CHR 0x80, CHR 0x84], [CHR 0xE2, CHR 0x80, CHR 0x85],
      [CHR 0xE2, CHR 0x80, CHR 0x86], [CHR 0xE2, CHR 0x80, CHR 0x87],
      [CHR 0xE2, CHR 0x80, CHR 0x88], [CHR 0xE2, CHR 0x80, CHR 0x89],
      [CHR 0xE2, CHR 0x80, CHR 0x8A], [CHR 0xE2, CHR 0x80, CHR 0xA8],
      [CHR 0xE2, CHR 0x80, CHR 0xA9], [CHR 0xE2, CHR 0x80, CHR 0xAF],
      [CHR 0xE2, CHR 0x81, CHR 0x9F], [CHR 0xE3, CHR 0x80, CHR 0x80]]"

definition leading :: "string list \<Rightarrow> string \<Rightarrow> nat" where
  "leading ws s = (case find (\<lambda>w. prefix w s) ws of Some w \<Rightarrow> length w | None \<Rightarrow> 0)"

function trim_with :: "string list \<Rightarrow> string \<Rightarrow> string" where
  "trim_with ws [] = []"
| "trim_with ws (c # cs) =
     (if leading ws (c # cs) = 0 then c # cs
      else trim_with ws (drop (leading ws (c # cs)) (c # cs)))"
  by pat_completeness auto
termination
  by (relation "measure (\<lambda>(ws, s). length s)") auto

definition trim_start :: "string \<Rightarrow> string" where
  "trim_start s = trim_with white_space s"

definition trim_end :: "string \<Rightarrow> string" where
  "trim_end s = rev (trim_with (map rev white_space) (rev s))"

definition trim :: "string \<Rightarrow> string" where
  "trim s = trim_end (trim_start s)"

definition trim_end_matches :: "char \<Rightarrow> string \<Rightarrow> string" where
  "trim_end_matches d s = rev (dropWhile (\<lambda>c. c = d) (rev s))"

definition trim_start_matches :: "char \<Rightarrow> string \<Rightarrow> string" where
  "trim_start_matches d s = dropWhile (\<lambda>c. c = d) s"

definition trim_start_pat :: "string \<Rightarrow> string \<Rightarrow> string" where
  "trim_start_pat p s = trim_with [p] s"

text \<open>\<open>str::split_whitespace\<close>; the first argument is the current word, reversed.\<close>

function split_ws :: "string \<Rightarrow> string \<Rightarrow> string list" where
  "split_ws cur [] = (if cur = [] then [] else [rev cur])"
| "split_ws cur (c # cs) =
     (if leading white_space (c # cs) = 0 then split_ws (c # cur) cs
      else (if cur = [] then [] else [rev cur]) @
           split_ws [] (drop (leading white_space (c # cs)) (c # cs)))"
  by pat_completeness auto
termination
  by (relation "measure (\<lambda>(cur, s). length s)") auto

definition split_whitespace :: "string \<Rightarrow> string list" where
  "split_whitespace s = split_ws [] s"

section \<open>Numbers as text\<close>

definition digit :: "nat \<Rightarrow> char" where
  "digit d = char_of (if d < 10 then 48 + d else 87 + d)"

fun radix :: "nat \<Rightarrow> nat \<Rightarrow> string" where
  "radix b n = (if b \<le> 1 \<or> n < b then [digit n] else radix b (n div b) @ [digit (n mod b)])"

declare radix.simps [simp del]

definition dec :: "nat \<Rightarrow> string" where
  "dec n = radix 10 n"

definition pad0 :: "nat \<Rightarrow> string \<Rightarrow> string" where
  "pad0 w s = replicate (w - length s) (CHR ''0'') @ s"

definition digit_val :: "nat \<Rightarrow> char \<Rightarrow> nat option" where
  "digit_val b c =
     (let k = code c;
          v = (if 48 \<le> k \<and> k \<le> 57 then k - 48
               else if 97 \<le> k \<and> k \<le> 122 then k - 87
               else if 65 \<le> k \<and> k \<le> 90 then k - 55 else b)
      in if v < b then Some v else None)"

fun digits_val :: "nat \<Rightarrow> nat \<Rightarrow> string \<Rightarrow> nat option" where
  "digits_val b acc [] = Some acc"
| "digits_val b acc (c # cs) =
     (case digit_val b c of None \<Rightarrow> None | Some d \<Rightarrow> digits_val b (acc * b + d) cs)"

text \<open>\<open>from_str_radix\<close> of an unsigned type with largest value \<open>m\<close>: one optional plus sign, at least one
  digit, no overflow.\<close>

definition parse_uint :: "nat \<Rightarrow> nat \<Rightarrow> string \<Rightarrow> nat option" where
  "parse_uint b m s =
     (let ds = (if s \<noteq> [] \<and> hd s = CHR ''+'' then tl s else s)
      in if ds = [] then None
         else (case digits_val b 0 ds of
                 Some v \<Rightarrow> if v \<le> m then Some v else None
               | None \<Rightarrow> None))"

section \<open>Lemmas: characters and case folding\<close>

lemma code_char_of [simp]: "n < 256 \<Longrightarrow> code (char_of n) = n"
  by (simp add: code_def)

lemma code_less [simp]: "code c < 256"
  using nat_of_char_less_256 [of c] by (simp add: code_def)

lemma code_inject: "code c = code d \<longleftrightarrow> c = d"
  by (simp add: code_def)

lemma ascii_lower_idem [simp]: "ascii_lower (ascii_lower c) = ascii_lower c"
  by (simp add: ascii_lower_def)

lemma to_ascii_lowercase_idem [simp]:
  "to_ascii_lowercase (to_ascii_lowercase s) = to_ascii_lowercase s"
  by (simp add: to_ascii_lowercase_def)

lemma length_to_ascii_lowercase [simp]: "length (to_ascii_lowercase s) = length s"
  by (simp add: to_ascii_lowercase_def)

lemma to_ascii_lowercase_append [simp]:
  "to_ascii_lowercase (s @ t) = to_ascii_lowercase s @ to_ascii_lowercase t"
  by (simp add: to_ascii_lowercase_def)

section \<open>Lemmas: numbers as text\<close>

lemma digit_eval [rust_str]:
  shows "digit 0 = CHR ''0''" and
    "digit (Suc 0) = CHR ''1''" and
    "digit 2 = CHR ''2''" and
    "digit 3 = CHR ''3''" and
    "digit 4 = CHR ''4''" and
    "digit 5 = CHR ''5''" and
    "digit 6 = CHR ''6''" and
    "digit 7 = CHR ''7''" and
    "digit 8 = CHR ''8''" and
    "digit 9 = CHR ''9''" and
    "digit 10 = CHR ''a''" and
    "digit 11 = CHR ''b''" and
    "digit 12 = CHR ''c''" and
    "digit 13 = CHR ''d''" and
    "digit 14 = CHR ''e''" and
    "digit 15 = CHR ''f''"
  by code_simp+

lemma radix_ne [simp]: "radix b n \<noteq> []"
  by (subst radix.simps) simp

lemma code_digit: "d < 16 \<Longrightarrow> code (digit d) = (if d < 10 then 48 + d else 87 + d)"
  by (simp add: digit_def)

lemma digit_val_digit: "d < b \<Longrightarrow> b \<le> 16 \<Longrightarrow> digit_val b (digit d) = Some d"
  by (auto simp: digit_val_def code_digit Let_def)

lemma length_radix: "2 \<le> b \<Longrightarrow> 0 < k \<Longrightarrow> n < b ^ k \<Longrightarrow> length (radix b n) \<le> k"
proof (induction b n arbitrary: k rule: radix.induct)
  case (1 b n)
  show ?case
  proof (cases "n < b")
    case True
    then show ?thesis using "1.prems" by (simp add: radix.simps [of b n])
  next
    case False
    then obtain j where k: "k = Suc j" and "0 < j"
      using "1.prems" by (cases k; cases "k = 1") auto
    have "n div b < b ^ j"
      using "1.prems" k by (simp add: less_mult_imp_div_less mult.commute)
    with "1.IH" [of j] False "1.prems" \<open>0 < j\<close> k show ?thesis
      by (simp add: radix.simps [of b n])
  qed
qed

lemma hd_radix: "2 \<le> b \<Longrightarrow> b \<le> 16 \<Longrightarrow> 0 < n \<Longrightarrow> hd (radix b n) \<noteq> CHR ''0''"
proof (induction b n rule: radix.induct)
  case (1 b n)
  show ?case
  proof (cases "n < b")
    case True
    have "code (digit n) \<noteq> code (CHR ''0'')"
      using True "1.prems" by (simp add: code_digit) (simp add: code_def)
    with True show ?thesis by (auto simp: radix.simps [of b n])
  next
    case False
    with "1.prems" have "0 < n div b" by (simp add: div_greater_zero_iff)
    with "1.IH" False "1.prems" show ?thesis by (simp add: radix.simps [of b n])
  qed
qed

lemma radix_long: "1 < length (radix b n) \<Longrightarrow> b \<le> n"
  by (cases "n < b") (auto simp: radix.simps [of b n])

lemma radix_chars:
  "2 \<le> b \<Longrightarrow> b \<le> 16 \<Longrightarrow> c \<in> set (radix b n) \<Longrightarrow> digit_val b c \<noteq> None"
proof (induction b n rule: radix.induct)
  case (1 b n)
  then show ?case
    by (cases "n < b") (auto simp: radix.simps [of b n] digit_val_digit)
qed

lemma digits_val_radix:
  "2 \<le> b \<Longrightarrow> b \<le> 16 \<Longrightarrow> digits_val b 0 (radix b n @ r) = digits_val b n r"
proof (induction b n arbitrary: r rule: radix.induct)
  case (1 b n)
  show ?case
  proof (cases "n < b")
    case True
    then show ?thesis using "1.prems" by (simp add: radix.simps [of b n] digit_val_digit)
  next
    case False
    have "n mod b < b" using "1.prems" by simp
    then show ?thesis
      using False "1.prems" "1.IH" [of "digit (n mod b) # r"]
      by (simp add: radix.simps [of b n] digit_val_digit)
  qed
qed

lemma parse_uint_radix:
  assumes "2 \<le> b" and "b \<le> 16" and "n \<le> m"
  shows "parse_uint b m (radix b n) = Some n"
proof -
  have "hd (radix b n) \<noteq> CHR ''+''"
    using radix_chars [OF assms(1,2), of "hd (radix b n)" n] assms(2)
    by (auto simp: digit_val_def code_def Let_def)
  then show ?thesis
    using digits_val_radix [OF assms(1,2), of n "[]"] assms(3)
    by (simp add: parse_uint_def Let_def)
qed

end
