(* ===== verification/Rust_Utf8.thy ===== *)
theory Rust_Utf8
  imports Rust_Text
begin

text \<open>
  UTF-8 as the standard library checks it: \<open>from_utf8\<close> accepts exactly the well-formed sequences
  (no overlong forms, no surrogates, nothing above U+10FFFF), and \<open>from_utf8_lossy\<close> replaces each
  maximal ill-formed part by U+FFFD.
\<close>

section \<open>Definitions\<close>

text \<open>The ranges of the bytes that must follow a first byte; \<^const>\<open>None\<close> if it starts no character.\<close>

definition cont_ranges :: "nat \<Rightarrow> (nat \<times> nat) list option" where
  "cont_ranges b =
     (if b < 0x80 then Some []
      else if 0xC2 \<le> b \<and> b \<le> 0xDF then Some [(0x80, 0xBF)]
      else if b = 0xE0 then Some [(0xA0, 0xBF), (0x80, 0xBF)]
      else if b = 0xED then Some [(0x80, 0x9F), (0x80, 0xBF)]
      else if 0xE1 \<le> b \<and> b \<le> 0xEF then Some [(0x80, 0xBF), (0x80, 0xBF)]
      else if b = 0xF0 then Some [(0x90, 0xBF), (0x80, 0xBF), (0x80, 0xBF)]
      else if 0xF1 \<le> b \<and> b \<le> 0xF3 then Some [(0x80, 0xBF), (0x80, 0xBF), (0x80, 0xBF)]
      else if b = 0xF4 then Some [(0x80, 0x8F), (0x80, 0xBF), (0x80, 0xBF)]
      else None)"

fun cont_count :: "(nat \<times> nat) list \<Rightarrow> string \<Rightarrow> nat" where
  "cont_count ((lo, hi) # rs) (c # cs) =
     (if lo \<le> code c \<and> code c \<le> hi then Suc (cont_count rs cs) else 0)"
| "cont_count rs cs = 0"

text \<open>The length of the first character or ill-formed part, and which of the two it is.\<close>

fun utf8_unit :: "string \<Rightarrow> nat \<times> bool" where
  "utf8_unit [] = (0, True)"
| "utf8_unit (c # cs) =
     (case cont_ranges (code c) of
        None \<Rightarrow> (1, False)
      | Some rs \<Rightarrow> (Suc (cont_count rs cs), cont_count rs cs = length rs))"

function utf8_valid :: "string \<Rightarrow> bool" where
  "utf8_valid [] = True"
| "utf8_valid (c # cs) =
     (case utf8_unit (c # cs) of (n, ok) \<Rightarrow> ok \<and> utf8_valid (drop n (c # cs)))"
  by pat_completeness auto
termination
  by (relation "measure length") (auto split: option.splits)

function from_utf8_lossy :: "string \<Rightarrow> string" where
  "from_utf8_lossy [] = []"
| "from_utf8_lossy (c # cs) =
     (case utf8_unit (c # cs) of (n, ok) \<Rightarrow>
        (if ok then take n (c # cs) else [CHR 0xEF, CHR 0xBF, CHR 0xBD]) @
        from_utf8_lossy (drop n (c # cs)))"
  by pat_completeness auto
termination
  by (relation "measure length") (auto split: option.splits)

text \<open>\<open>chars().take(n).collect()\<close>\<close>

fun take_chars :: "nat \<Rightarrow> string \<Rightarrow> string" where
  "take_chars 0 s = []"
| "take_chars (Suc n) s = (let k = max 1 (fst (utf8_unit s)) in take k s @ take_chars n (drop k s))"

text \<open>\<open>char::from_u32\<close> and \<open>String::push\<close>: a scalar value as its UTF-8 bytes.\<close>

definition from_u32 :: "nat \<Rightarrow> string option" where
  "from_u32 n =
     (if n < 0x80 then Some [char_of n]
      else if n < 0x800 then Some [char_of (0xC0 + n div 64), char_of (0x80 + n mod 64)]
      else if 0xD800 \<le> n \<and> n < 0xE000 then None
      else if n < 0x10000 then
        Some [char_of (0xE0 + n div 4096), char_of (0x80 + n div 64 mod 64), char_of (0x80 + n mod 64)]
      else if n < 0x110000 then
        Some [char_of (0xF0 + n div 262144), char_of (0x80 + n div 4096 mod 64),
              char_of (0x80 + n div 64 mod 64), char_of (0x80 + n mod 64)]
      else None)"

section \<open>Lemmas\<close>

lemma cont_count_take:
  "cont_count rs cs = length rs \<Longrightarrow> cont_count rs (take (length rs) cs @ ds) = length rs"
  by (induction rs cs rule: cont_count.induct) (auto split: if_splits)

lemma utf8_unit_append:
  assumes "utf8_unit (c # cs) = (n, True)"
  shows "utf8_unit (take n (c # cs) @ ds) = (n, True)"
  using assms by (auto simp: cont_count_take split: option.splits)

lemma utf8_unit_length: "utf8_unit s = (n, True) \<Longrightarrow> n \<le> length s"
proof -
  have "cont_count rs cs \<le> length cs" for rs cs
    by (induction rs cs rule: cont_count.induct) auto
  then show "utf8_unit s = (n, True) \<Longrightarrow> n \<le> length s"
    by (cases s) (auto split: option.splits)
qed

lemma utf8_unit_pos: "utf8_unit (c # cs) = (n, ok) \<Longrightarrow> 0 < n"
  by (auto split: option.splits)

lemma utf8_valid_unit:
  assumes "u \<noteq> []" and "utf8_unit (u @ s) = (length u, True)"
  shows "utf8_valid (u @ s) = utf8_valid s"
proof -
  obtain c cs where u: "u @ s = c # cs" using assms(1) by (cases u) auto
  show ?thesis
    using assms(2) by (simp only: u utf8_valid.simps) (simp add: u [symmetric] del: utf8_unit.simps)
qed

lemma utf8_valid_lossy: "utf8_valid (from_utf8_lossy s)"
proof (induction s rule: from_utf8_lossy.induct)
  case (2 c cs)
  obtain n ok where n: "utf8_unit (c # cs) = (n, ok)" by fastforce
  let ?rest = "from_utf8_lossy (drop n (c # cs))"
  have IH: "utf8_valid ?rest" using 2 [OF n [symmetric]] by simp
  show ?case
  proof (cases ok)
    case True
    let ?u = "take n (c # cs)"
    have len: "length ?u = n" "?u \<noteq> []"
      using n True utf8_unit_length [of "c # cs"] utf8_unit_pos [OF n] by auto
    have "utf8_unit (?u @ ?rest) = (length ?u, True)"
      using utf8_unit_append n True len(1) by metis
    with utf8_valid_unit [OF len(2)] IH n True show ?thesis
      by (simp del: utf8_unit.simps utf8_valid.simps)
  next
    case False
    have "utf8_unit ([CHR 0xEF, CHR 0xBF, CHR 0xBD] @ ?rest) = (length [CHR 0xEF, CHR 0xBF, CHR 0xBD], True)"
      by (simp add: cont_ranges_def code_def)
    from utf8_valid_unit [OF _ this] IH n False show ?thesis
      by (simp del: utf8_unit.simps utf8_valid.simps)
  qed
qed simp

lemma from_utf8_lossy_valid: "utf8_valid s \<Longrightarrow> from_utf8_lossy s = s"
proof (induction s rule: utf8_valid.induct)
  case (2 c cs)
  obtain n ok where n: "utf8_unit (c # cs) = (n, ok)" by fastforce
  with 2 show ?case by (simp del: utf8_unit.simps)
qed simp

end
