(* ===== verification/Embed_Text.thy ===== *)
theory Embed_Text
  imports Rust_Utf8
begin

text \<open>
  The text processing of \<open>nekoguard/src/embed.rs\<close>: character references, HTML escaping, the media
  types of icons, \<open>data:\<close> URIs, request paths, same-origin URLs and the search for the end of a
  document head. The base64 decoder is a parameter.
\<close>

section \<open>Definitions\<close>

definition MAX_HTML :: nat where "MAX_HTML = 512 * 1024"
definition MAX_ICON :: nat where "MAX_ICON = 2 * 1024 * 1024"
definition MAX_TITLE :: nat where "MAX_TITLE = 200"
definition MAX_HOPS :: nat where "MAX_HOPS = 3"

subsection \<open>Character references\<close>

definition u32_max :: nat where "u32_max = 4294967295"

definition decode_entity :: "string \<Rightarrow> string option" where
  "decode_entity entity =
     (if entity = ''amp'' then Some ''&''
      else if entity = ''lt'' then Some ''<''
      else if entity = ''gt'' then Some ''>''
      else if entity = ''quot'' then Some [CHR 0x22]
      else if entity = ''apos'' then Some [CHR 0x27]
      else if entity = ''nbsp'' then from_u32 0xA0
      else (let hex = (case strip_prefix ''#x'' entity of Some h \<Rightarrow> Some h | None \<Rightarrow> strip_prefix ''#X'' entity);
                v = Option.bind hex (parse_uint 16 u32_max);
                w = (case v of Some n \<Rightarrow> Some n
                     | None \<Rightarrow> Option.bind (strip_prefix ''#'' entity) (parse_uint 10 u32_max))
            in Option.bind w from_u32))"

definition entity_at :: "string \<Rightarrow> string option" where
  "entity_at rest =
     (case find_char (\<lambda>c. c = CHR '';'') rest of
        Some n \<Rightarrow> if n \<le> 8 then Some (take n rest) else None
      | None \<Rightarrow> None)"

lemma find_char_less: "find_char P s = Some i \<Longrightarrow> i < length s"
  by (induction s arbitrary: i) (auto split: if_splits)

function decode :: "string \<Rightarrow> string" where
  "decode rest =
     (case find_char (\<lambda>c. c = CHR ''&'') rest of
        None \<Rightarrow> rest
      | Some amp \<Rightarrow>
          (let tail = drop (Suc amp) rest in
           take amp rest @
           (case entity_at tail of
              None \<Rightarrow> ''&'' @ decode tail
            | Some entity \<Rightarrow>
                (case decode_entity entity of
                   Some ch \<Rightarrow> ch @ decode (drop (Suc (length entity)) tail)
                 | None \<Rightarrow> ''&'' @ decode tail))))"
  by pat_completeness auto
termination
  by (relation "measure length") (auto dest: find_char_less)

declare decode.simps [simp del]

definition html_escape :: "string \<Rightarrow> string" where
  "html_escape value =
     str_replace [CHR 0x22] ''&quot;''
       (str_replace ''>'' ''&gt;'' (str_replace ''<'' ''&lt;'' (str_replace ''&'' ''&amp;'' value)))"

subsection \<open>Icons\<close>

definition icon_mime :: "string \<Rightarrow> string option" where
  "icon_mime content_type =
     (let ct = to_ascii_lowercase content_type in
      if starts_with ''image/png'' ct then Some ''image/png''
      else if starts_with ''image/x-icon'' ct \<or> starts_with ''image/vnd.microsoft.icon'' ct
        then Some ''image/x-icon''
      else if starts_with ''image/jpeg'' ct then Some ''image/jpeg''
      else if starts_with ''image/gif'' ct then Some ''image/gif''
      else if starts_with ''image/webp'' ct then Some ''image/webp''
      else None)"

definition decode_data_uri :: "(string \<Rightarrow> string option) \<Rightarrow> string \<Rightarrow> (string \<times> string) option" where
  "decode_data_uri b64 rest =
     (case split_once (CHR '','') rest of
        None \<Rightarrow> None
      | Some (meta, payload) \<Rightarrow>
          (case icon_mime (case split_on (CHR '';'') meta of [] \<Rightarrow> '''' | p # _ \<Rightarrow> p) of
             None \<Rightarrow> None
           | Some mime \<Rightarrow>
               if \<not> contains '';base64'' (to_ascii_lowercase meta) then None
               else (case b64 (trim payload) of
                  None \<Rightarrow> None
                | Some decoded \<Rightarrow>
                    if decoded = [] \<or> length decoded > MAX_ICON then None else Some (decoded, mime))))"

subsection \<open>Paths\<close>

definition normalize_path :: "string \<Rightarrow> string" where
  "normalize_path path =
     (let p = (case split_by (\<lambda>c. c = CHR ''?'' \<or> c = CHR ''#'') path of [] \<Rightarrow> '''' | q # _ \<Rightarrow> q) in
      if p = [] then ''/''
      else if starts_with ''/'' p then p
      else ''/'' @ p)"

definition split_authority :: "string \<Rightarrow> string \<times> string" where
  "split_authority rest =
     (case find_char (\<lambda>c. c = CHR ''/'' \<or> c = CHR ''?'' \<or> c = CHR ''#'') rest of
        Some at \<Rightarrow> (take at rest, drop at rest)
      | None \<Rightarrow> (rest, ''''))"

definition scheme_char :: "char \<Rightarrow> bool" where
  "scheme_char c \<longleftrightarrow>
     (let k = code c in 48 \<le> k \<and> k \<le> 57 \<or> 65 \<le> k \<and> k \<le> 90 \<or> 97 \<le> k \<and> k \<le> 122) \<or>
     c \<in> set ''+-.''"

text \<open>The first half of \<open>same_origin_path\<close>: the authority a URL names and what follows it.\<close>

definition url_parts :: "string \<Rightarrow> (string \<times> string) option" where
  "url_parts url =
     (case strip_prefix ''//'' url of
        Some rest \<Rightarrow> Some (split_authority rest)
      | None \<Rightarrow>
          (case split_once (CHR '':'') url of
             Some (scheme0, rest) \<Rightarrow>
               (let scheme = to_ascii_lowercase scheme0 in
                if scheme \<noteq> [] \<and> list_all scheme_char scheme then
                  (if scheme \<noteq> ''http'' \<and> scheme \<noteq> ''https'' then None
                   else Some (split_authority (trim_start_pat ''//'' rest)))
                else Some ('''', url))
           | None \<Rightarrow> Some ('''', url)))"

definition authority_host :: "string \<Rightarrow> string" where
  "authority_host authority =
     (let a = trim_end_matches (CHR ''.'') (last (split_on (CHR ''@'') authority))
      in case split_on (CHR '':'') a of [] \<Rightarrow> a | h # _ \<Rightarrow> h)"

definition same_origin_path :: "string \<Rightarrow> string \<Rightarrow> string option" where
  "same_origin_path url host =
     (case url_parts url of
        None \<Rightarrow> None
      | Some (authority, rest0) \<Rightarrow>
          if authority \<noteq> [] \<and> \<not> eq_ignore_ascii_case (authority_host authority) host then None
          else (let rest = (case split_on (CHR ''#'') rest0 of [] \<Rightarrow> '''' | r # _ \<Rightarrow> r) in
            if rest = [] \<or> rest = ''/'' then Some ''/''
            else if starts_with ''/'' rest \<or> rest = ''?'' then Some rest
            else Some (''/'' @ rest)))"

subsection \<open>The end of the head\<close>

definition head_marker :: string where
  "head_marker = ''</head''"

definition head_at :: "string \<Rightarrow> nat \<Rightarrow> bool" where
  "head_at buf i \<longleftrightarrow> eq_ignore_ascii_case (take (length head_marker) (drop i buf)) head_marker"

definition find_head_end :: "string \<Rightarrow> nat \<Rightarrow> nat option" where
  "find_head_end buf from =
     (if length buf < length head_marker then None
      else (let last_at = length buf - length head_marker; start = min from last_at
            in find (head_at buf) [start..<Suc last_at]))"

text \<open>
  The loop of \<open>read_head\<close>: \<open>collected\<close> and \<open>scanned\<close> are its variables; a failed chunk and the timeout
  end it with \<^const>\<open>None\<close>. The result is the collected text, cut at the marker if one was found.
\<close>

fun read_loop :: "string \<Rightarrow> nat \<Rightarrow> string option list \<Rightarrow> string option" where
  "read_loop collected scanned [] = Some collected"
| "read_loop collected scanned (None # cs) = None"
| "read_loop collected scanned (Some chunk # cs) =
     (let col = collected @ chunk in
      case find_head_end col scanned of
        Some at \<Rightarrow> Some (take at col)
      | None \<Rightarrow>
          if length col > MAX_HTML then None
          else read_loop col (length col - (length head_marker - 1)) cs)"

definition read_head :: "string option list \<Rightarrow> string option" where
  "read_head stream = map_option from_utf8_lossy (read_loop [] 0 stream)"

section \<open>Escaping\<close>

lemma str_replace_char: "str_replace [a] r s = concat (map (\<lambda>c. if c = a then r else [c]) s)"
  by (induction s) auto

text \<open>The four passes amount to one pass that looks at each character once.\<close>

definition escape_char :: "char \<Rightarrow> string" where
  "escape_char c =
     (if c = CHR ''&'' then ''&amp;'' else if c = CHR ''<'' then ''&lt;''
      else if c = CHR ''>'' then ''&gt;'' else if c = CHR 0x22 then ''&quot;'' else [c])"

lemma html_escape_eq: "html_escape s = concat (map escape_char s)"
  unfolding html_escape_def str_replace_char
  by (induction s) (simp_all add: escape_char_def)

lemma html_escape_append: "html_escape (s @ t) = html_escape s @ html_escape t"
  by (simp add: html_escape_eq)

text \<open>The characters that could end an attribute value or a tag.\<close>

definition markup_free :: "string \<Rightarrow> bool" where
  "markup_free s = list_all (\<lambda>c. c \<noteq> CHR ''<'' \<and> c \<noteq> CHR ''>'' \<and> c \<noteq> CHR 0x22) s"

lemma markup_free_append [simp]: "markup_free (s @ t) \<longleftrightarrow> markup_free s \<and> markup_free t"
  by (simp add: markup_free_def)

lemma markup_free_escape [simp]: "markup_free (html_escape s)"
proof -
  have "markup_free (escape_char c)" for c
    by (simp add: escape_char_def markup_free_def)
  then show ?thesis
    by (induction s) (simp_all add: html_escape_eq, simp add: markup_free_def)
qed

lemma decode_plain: "c \<noteq> CHR ''&'' \<Longrightarrow> decode (c # s) = c # decode s"
  by (subst (1 2) decode.simps) (auto split: option.splits simp: Let_def)

lemma decode_entity_text:
  assumes "CHR '';'' \<notin> set e" and "length e \<le> 8" and "decode_entity e = Some ch"
  shows "decode (''&'' @ e @ '';'' @ s) = ch @ decode s"
proof -
  have f: "find_char (\<lambda>c. c = CHR '';'') (e @ '';'' @ s) = Some (length e)"
    using assms(1) by (induction e) auto
  show ?thesis
    using assms f by (subst decode.simps) (simp add: entity_at_def)
qed

lemma decode_empty [simp]: "decode [] = []"
  by (subst decode.simps) simp

lemma decode_escape_char: "decode (escape_char c @ s) = c # decode s"
proof -
  have e: "decode_entity ''amp'' = Some ''&''" "decode_entity ''lt'' = Some ''<''"
    "decode_entity ''gt'' = Some ''>''" "decode_entity ''quot'' = Some [CHR 0x22]"
    by (simp_all add: decode_entity_def)
  show ?thesis
    using decode_entity_text [OF _ _ e(1), of s] decode_entity_text [OF _ _ e(2), of s]
      decode_entity_text [OF _ _ e(3), of s] decode_entity_text [OF _ _ e(4), of s]
    by (simp add: escape_char_def decode_plain)
qed

lemma decode_html_escape: "decode (html_escape s) = s"
  by (induction s) (simp_all add: html_escape_eq decode_escape_char)

section \<open>Paths and URLs\<close>

lemma split_by_takeWhile: "split_by P s = takeWhile (\<lambda>c. \<not> P c) s # tl (split_by P s)"
  by (induction s) (auto split: list.splits)

lemma normalize_path_eq:
  "normalize_path p =
     (let q = takeWhile (\<lambda>c. c \<noteq> CHR ''?'' \<and> c \<noteq> CHR ''#'') p in if prefix ''/'' q then q else ''/'' @ q)"
  by (subst normalize_path_def, subst split_by_takeWhile) (auto simp: starts_with_def Let_def)

lemma normalize_path_shape:
  "prefix ''/'' (normalize_path p) \<and> CHR ''?'' \<notin> set (normalize_path p) \<and> CHR ''#'' \<notin> set (normalize_path p)"
  by (auto simp: normalize_path_eq Let_def dest: set_takeWhileD)

lemma takeWhile_all: "(\<And>c. c \<in> set s \<Longrightarrow> P c) \<Longrightarrow> takeWhile P s = s"
  by (induction s) auto

lemma normalize_path_idem [simp]: "normalize_path (normalize_path p) = normalize_path p"
proof -
  have tw: "takeWhile (\<lambda>c. c \<noteq> CHR ''?'' \<and> c \<noteq> CHR ''#'') (normalize_path p) = normalize_path p"
    using normalize_path_shape [of p] by (intro takeWhile_all) auto
  show ?thesis
    using normalize_path_shape [of p]
    by (simp only: normalize_path_eq [of "normalize_path p"] tw Let_def if_True)
qed

lemma split_on_head: "(case split_on d s of [] \<Rightarrow> e | r # _ \<Rightarrow> r) = takeWhile (\<lambda>c. c \<noteq> d) s"
  unfolding split_on_def by (subst split_by_takeWhile) simp

lemma same_origin_path_eq:
  "same_origin_path url host =
     (case url_parts url of
        None \<Rightarrow> None
      | Some (a, r) \<Rightarrow>
          if a \<noteq> [] \<and> \<not> eq_ignore_ascii_case (authority_host a) host then None
          else (let rest = takeWhile (\<lambda>c. c \<noteq> CHR ''#'') r in
                Some (if prefix ''/'' rest \<or> rest = ''?'' then rest else ''/'' @ rest)))"
  unfolding same_origin_path_def split_on_head
  by (auto simp: starts_with_def Let_def split: option.splits)

lemma split_authority_parts:
  assumes "list_all (\<lambda>c. c \<noteq> CHR ''/'' \<and> c \<noteq> CHR ''?'' \<and> c \<noteq> CHR ''#'') a"
    and "r = [] \<or> hd r \<in> set ''/?#''"
  shows "split_authority (a @ r) = (a, r)"
proof -
  have "find_char (\<lambda>c. c = CHR ''/'' \<or> c = CHR ''?'' \<or> c = CHR ''#'') (a @ r) =
      (if r = [] then None else Some (length a))"
    using assms by (induction a) (auto simp: neq_Nil_conv split: if_splits)
  then show ?thesis by (simp add: split_authority_def)
qed

section \<open>Reading a head in chunks\<close>

lemma head_at_bound: "head_at buf i \<Longrightarrow> i + length head_marker \<le> length buf"
proof -
  assume "head_at buf i"
  then have "length (take (length head_marker) (drop i buf)) = length head_marker"
    unfolding head_at_def eq_ignore_ascii_case_def
    by (metis length_to_ascii_lowercase)
  then show ?thesis by (auto simp: head_marker_def)
qed

lemma head_at_append: "i + length head_marker \<le> length buf \<Longrightarrow> head_at (buf @ more) i = head_at buf i"
  by (simp add: head_at_def)

text \<open>Nothing was found before \<open>scanned\<close>, so the search from there finds the first occurrence.\<close>

definition first_head :: "string \<Rightarrow> nat option" where
  "first_head buf = find (head_at buf) [0..<length buf]"

lemma find_interval:
  assumes "\<And>i. i < a \<Longrightarrow> \<not> P i" and "\<And>i. b \<le> i \<Longrightarrow> \<not> P i" and "b \<le> c"
  shows "find P [a..<b] = find P [0..<c]"
proof (cases "a \<le> b")
  case True
  have "[0..<c] = [0..<a] @ [a..<b] @ [b..<c]"
    using True assms(3) by (metis upt_add_eq_append le_add_diff_inverse zero_le le_trans)
  moreover have "find P (xs @ ys) = (case find P xs of None \<Rightarrow> find P ys | Some x \<Rightarrow> Some x)" for xs ys
    by (induction xs) auto
  moreover have "find P [0..<a] = None" "find P [b..<c] = None"
    using assms by (auto simp: find_None_iff)
  ultimately show ?thesis by (simp split: option.splits)
next
  case False
  then have "\<not> P i" for i using assms(1,2) by (cases "i < a") auto
  then show ?thesis by (simp add: find_None_iff [THEN iffD2])
qed

lemma find_head_end_first:
  assumes "\<And>i. i < scanned \<Longrightarrow> \<not> head_at buf i"
  shows "find_head_end buf scanned = first_head buf"
proof (cases "length buf < length head_marker")
  case True
  then have "\<not> head_at buf i" for i using head_at_bound [of buf i] by auto
  then show ?thesis using True by (simp add: find_head_end_def first_head_def find_None_iff [THEN iffD2])
next
  case False
  let ?last = "length buf - length head_marker"
  have "find (head_at buf) [min scanned ?last..<Suc ?last] = find (head_at buf) [0..<length buf]"
  proof (rule find_interval)
    show "\<not> head_at buf i" if "i < min scanned ?last" for i using assms that by simp
    show "\<not> head_at buf i" if "Suc ?last \<le> i" for i
      using that False head_at_bound [of buf i] by auto
    show "Suc ?last \<le> length buf" using False by (simp add: head_marker_def)
  qed
  then show ?thesis using False by (simp add: find_head_end_def first_head_def Let_def)
qed

lemma first_head_None: "first_head buf = None \<longleftrightarrow> (\<forall>i. \<not> head_at buf i)"
proof -
  have "i < length buf" if "head_at buf i" for i
    using head_at_bound [OF that] by (simp add: head_marker_def)
  then show ?thesis by (auto simp: first_head_def find_None_iff)
qed

lemma first_head_append:
  "first_head buf = Some i \<Longrightarrow> first_head (buf @ more) = Some i"
proof -
  assume i: "first_head buf = Some i"
  then have h: "head_at buf i" "\<And>j. j < i \<Longrightarrow> \<not> head_at buf j" "i < length buf"
    by (auto simp: first_head_def find_Some_iff)
  have "\<not> head_at (buf @ more) j" if "j < i" for j
    using h(2) [OF that] head_at_append [of j buf more] head_at_bound [OF h(1)] that by simp
  moreover have "head_at (buf @ more) i"
    using h(1) head_at_append [of i buf more] head_at_bound [OF h(1)] by simp
  ultimately show ?thesis
    using h(3) unfolding first_head_def find_Some_iff by (intro exI [of _ i]) (auto simp: nth_append)
qed

definition head_part :: "string \<Rightarrow> string" where
  "head_part doc = (case first_head doc of Some i \<Rightarrow> take i doc | None \<Rightarrow> doc)"

lemma read_loop_correct:
  assumes "first_head col = None" and "None \<notin> set cs" and "length (col @ concat (map the cs)) \<le> MAX_HTML"
  shows "read_loop col (length col - (length head_marker - 1)) cs = Some (head_part (col @ concat (map the cs)))"
  using assms
proof (induction cs arbitrary: col)
  case Nil
  then show ?case by (simp add: head_part_def)
next
  case (Cons c cs)
  obtain ch where c: "c = Some ch" using Cons.prems(2) by (cases c) auto
  have none: "\<not> head_at (col @ ch) i" if "i < length col - (length head_marker - 1)" for i
    using Cons.prems(1) that head_at_append [of i col ch]
    by (auto simp: first_head_None head_marker_def)
  have fh: "find_head_end (col @ ch) (length col - (length head_marker - 1)) = first_head (col @ ch)"
    by (rule find_head_end_first) (rule none)
  show ?case
  proof (cases "first_head (col @ ch)")
    case None
    then show ?thesis
      using Cons.IH [OF None] Cons.prems c fh by (simp add: Let_def)
  next
    case (Some i)
    then have "i \<le> length (col @ ch)" by (auto simp: first_head_def find_Some_iff)
    then show ?thesis
      using first_head_append [OF Some, of "concat (map the cs)"] c fh Some
      by (simp add: Let_def head_part_def)
  qed
qed

lemma icon_mime_raster:
  "icon_mime ct = Some m \<Longrightarrow>
   m \<in> {''image/png'', ''image/x-icon'', ''image/jpeg'', ''image/gif'', ''image/webp''}"
  by (auto simp: icon_mime_def Let_def split: if_splits)

lemma icon_mime_fixed:
  "m \<in> {''image/png'', ''image/x-icon'', ''image/jpeg'', ''image/gif'', ''image/webp''} \<Longrightarrow> icon_mime m = Some m"
proof -
  have "icon_mime ''image/png'' = Some ''image/png''" "icon_mime ''image/x-icon'' = Some ''image/x-icon''"
    "icon_mime ''image/jpeg'' = Some ''image/jpeg''" "icon_mime ''image/gif'' = Some ''image/gif''"
    "icon_mime ''image/webp'' = Some ''image/webp''"
    by code_simp+
  then show "m \<in> {''image/png'', ''image/x-icon'', ''image/jpeg'', ''image/gif'', ''image/webp''} \<Longrightarrow>
    icon_mime m = Some m" by auto
qed

section \<open>Properties\<close>

text \<open>
  Escaped text contains none of the characters that could end an attribute value or open a tag,
  and the decoder of character references reads the original back, so decoding before escaping neither
  loses nor doubles a reference.
\<close>

theorem html_escape_round_trip:
  "markup_free (html_escape s) \<and> decode (html_escape s) = s"
  by (simp add: decode_html_escape)

text \<open>
  A URL that a document declares is followed only on the same origin. Whatever \<open>same_origin_path\<close>
  returns starts with a slash or is a bare question mark, and carries no fragment, so it cannot extend
  the authority it is appended to; and for an absolute or protocol-relative URL with a non-empty
  authority it returns something exactly when that authority, without user name, port and trailing
  dot, is the host itself.
\<close>

theorem same_origin_path_stays:
  "(\<forall>p. same_origin_path url host = Some p \<longrightarrow>
      (prefix ''/'' p \<or> p = ''?'') \<and> CHR ''#'' \<notin> set p) \<and>
   (a \<noteq> [] \<and> list_all (\<lambda>c. c \<noteq> CHR ''/'' \<and> c \<noteq> CHR ''?'' \<and> c \<noteq> CHR ''#'') a \<and>
    (r = [] \<or> hd r \<in> set ''/?#'') \<and> pre \<in> {''//'', ''http://'', ''https://''} \<longrightarrow>
      ((\<exists>p. same_origin_path (pre @ a @ r) host = Some p) \<longleftrightarrow>
       eq_ignore_ascii_case (authority_host a) host))"
proof (intro conjI impI)
  show "\<forall>p. same_origin_path url host = Some p \<longrightarrow>
      (prefix ''/'' p \<or> p = ''?'') \<and> CHR ''#'' \<notin> set p"
    by (auto simp: same_origin_path_eq Let_def split: option.splits if_splits dest: set_takeWhileD)
next
  assume h: "a \<noteq> [] \<and> list_all (\<lambda>c. c \<noteq> CHR ''/'' \<and> c \<noteq> CHR ''?'' \<and> c \<noteq> CHR ''#'') a \<and>
    (r = [] \<or> hd r \<in> set ''/?#'') \<and> pre \<in> {''//'', ''http://'', ''https://''}"
  obtain b bs where a: "a = b # bs" "b \<noteq> CHR ''/''" using h by (cases a) auto
  have t: "trim_start_pat ''//'' (''//'' @ a @ r) = a @ r"
    using a by (simp add: trim_start_pat_def leading_def)
  have s: "split_authority (a @ r) = (a, r)" using split_authority_parts h by blast
  have l: "to_ascii_lowercase ''http'' = ''http''" "list_all scheme_char ''http''"
    "to_ascii_lowercase ''https'' = ''https''" "list_all scheme_char ''https''"
    by code_simp+
  have "url_parts (pre @ a @ r) = Some (a, r)"
    using h t s l by (auto simp: url_parts_def strip_prefix_def split_once_def Let_def)
  then show "(\<exists>p. same_origin_path (pre @ a @ r) host = Some p) \<longleftrightarrow>
      eq_ignore_ascii_case (authority_host a) host"
    using h by (simp add: same_origin_path_eq Let_def)
qed

theorem same_origin_path_stays_witness:
  "(\<exists>p. same_origin_path ''https://me@Ex.org:8443/a#b'' ''ex.org'' = Some p) \<and>
   \<not> (\<exists>p. same_origin_path ''//ex.org@evil/a'' ''ex.org'' = Some p)"
proof -
  have "eq_ignore_ascii_case (authority_host ''me@Ex.org:8443'') ''ex.org''"
    "\<not> eq_ignore_ascii_case (authority_host ''ex.org@evil'') ''ex.org''"
    by code_simp+
  then show ?thesis
    using same_origin_path_stays [of "''x''" "''ex.org''" "''me@Ex.org:8443''" "''/a#b''" "''https://''"]
      same_origin_path_stays [of "''x''" "''ex.org''" "''ex.org@evil''" "''/a''" "''//''"]
    by simp
qed

text \<open>
  Reading a document in chunks with an overlap of one marker is the same as searching the whole
  document: for every division of a document of at most \<open>MAX_HTML\<close> bytes into chunks, the reader stops
  at the first end-of-head marker of the document, in any case, or returns all of it.
\<close>

theorem read_head_chunks:
  assumes "None \<notin> set cs" and "length (concat (map the cs)) \<le> MAX_HTML"
  shows "read_head cs = Some (from_utf8_lossy (head_part (concat (map the cs))))"
proof -
  have "first_head [] = None" by (simp add: first_head_def)
  then show ?thesis
    using read_loop_correct [of "[]" cs] assms by (simp add: read_head_def)
qed

theorem read_head_chunks_witness:
  "read_head [Some ''<title>x</he'', Some ''AD><p>''] = Some ''<title>x''"
proof -
  have "from_utf8_lossy (head_part ''<title>x</heAD><p>'') = ''<title>x''"
    by code_simp
  then show ?thesis
    using read_head_chunks [of "[Some ''<title>x</he'', Some ''AD><p>'']"] by (simp add: MAX_HTML_def)
qed

text \<open>
  Only raster images are served as icons: a \<open>data:\<close> icon is accepted only with one of five raster
  types, in base64, non-empty and at most \<open>MAX_ICON\<close> bytes long.
\<close>

theorem decode_data_uri_raster:
  assumes "decode_data_uri b64 rest = Some (bytes, mime)"
  shows "mime \<in> {''image/png'', ''image/x-icon'', ''image/jpeg'', ''image/gif'', ''image/webp''} \<and>
    bytes \<noteq> [] \<and> length bytes \<le> MAX_ICON \<and> (\<exists>p. b64 p = Some bytes)"
  using assms icon_mime_raster
  by (auto simp: decode_data_uri_def split: option.splits prod.splits if_splits)

theorem decode_data_uri_raster_witness:
  "decode_data_uri (\<lambda>p. Some ''icon'') ''image/png;base64,aWNvbg=='' = Some (''icon'', ''image/png'') \<and>
   length ''icon'' \<le> MAX_ICON"
proof -
  have "split_once (CHR '','') ''image/png;base64,aWNvbg=='' = Some (''image/png;base64'', ''aWNvbg=='')"
    "icon_mime (case split_on (CHR '';'') ''image/png;base64'' of [] \<Rightarrow> '''' | p # _ \<Rightarrow> p) = Some ''image/png''"
    "contains '';base64'' (to_ascii_lowercase ''image/png;base64'')"
    by code_simp+
  then have "decode_data_uri (\<lambda>p. Some ''icon'') ''image/png;base64,aWNvbg=='' = Some (''icon'', ''image/png'')"
    by (simp add: decode_data_uri_def MAX_ICON_def)
  from this decode_data_uri_raster [OF this] show ?thesis by simp
qed

end
