(* ===== verification/Embed_Scrape.thy ===== *)
theory Embed_Scrape
  imports Embed_Text
begin

text \<open>
  Lifting an origin's metadata out of its document head (\<open>nekoguard/src/embed.rs\<close>: \<open>scrape\<close>,
  \<open>render_tag\<close>, \<open>note_icon\<close>, \<open>attribute\<close>) and putting it into the interstitial page
  (\<open>replace_title\<close>, \<open>inline_into\<close>, \<open>clear_marker\<close>).

  The regular-expression crate is a parameter, \<open>head_regexes\<close>: what the four static expressions find
  in a text. A match of \<open>ATTR_RE\<close> is the attribute name with the text of the double-quoted and of the
  single-quoted group; a match of \<open>TITLE_RE\<close> is the text of its only group.
\<close>

section \<open>Definitions\<close>

record head_regexes =
  meta_tags :: "string \<Rightarrow> string list"
  link_tags :: "string \<Rightarrow> string list"
  attrs :: "string \<Rightarrow> (string \<times> string option \<times> string option) list"
  title_text :: "string \<Rightarrow> string option"
  title_replace :: "string \<Rightarrow> string \<Rightarrow> string"

record Meta =
  m_title :: "string option"
  m_tags :: "string list"
  m_icon_url :: "string option"
  m_icon :: "(string \<times> string) option"

definition default_Meta :: Meta where
  "default_Meta = \<lparr>m_title = None, m_tags = [], m_icon_url = None, m_icon = None\<rparr>"

definition attribute :: "head_regexes \<Rightarrow> string \<Rightarrow> string \<Rightarrow> string option" where
  "attribute X tag name =
     (case find (\<lambda>(n, d, q). eq_ignore_ascii_case n name) (attrs X tag) of
        None \<Rightarrow> None
      | Some (n, d, q) \<Rightarrow> (case d of Some v \<Rightarrow> Some v | None \<Rightarrow> q))"

definition quote :: "string \<Rightarrow> string" where
  "quote s = [CHR 0x22] @ s @ [CHR 0x22]"

definition card_tag :: string where
  "card_tag = ''<meta name='' @ quote ''twitter:card'' @ '' content='' @ quote ''summary_large_image'' @ ''>''"

definition meta_key :: "head_regexes \<Rightarrow> string \<Rightarrow> (string \<times> string) option" where
  "meta_key X tag =
     (case attribute X tag ''name'' of
        Some name \<Rightarrow> Some (''name'', name)
      | None \<Rightarrow>
          (case attribute X tag ''property'' of
             Some property \<Rightarrow> Some (''property'', property)
           | None \<Rightarrow> None))"

definition wanted_key :: "string \<Rightarrow> string \<Rightarrow> bool" where
  "wanted_key key lower =
     (if key = ''name'' then lower = ''description'' \<or> starts_with ''twitter:'' lower
      else if key = ''property'' then starts_with ''og:'' lower \<or> starts_with ''article:'' lower
      else False)"

definition render_tag :: "head_regexes \<Rightarrow> string \<Rightarrow> Meta \<Rightarrow> Meta" where
  "render_tag X tag meta =
     (case meta_key X tag of
        None \<Rightarrow> meta
      | Some (key, value) \<Rightarrow>
          (let lower = to_ascii_lowercase value in
           if \<not> wanted_key key lower then meta
           else (case attribute X tag ''content'' of
              None \<Rightarrow> meta
            | Some content \<Rightarrow>
                if content = [] then meta
                else if lower = ''og:url'' \<or> lower = ''twitter:url'' then meta
                else if lower = ''twitter:card'' then meta\<lparr>m_tags := m_tags meta @ [card_tag]\<rparr>
                else meta\<lparr>m_tags := m_tags meta @
                  [''<meta '' @ key @ ''='' @ quote (html_escape (decode value)) @ '' content='' @
                   quote (html_escape (decode content)) @ ''>'']\<rparr>)))"

definition note_icon :: "head_regexes \<Rightarrow> string \<Rightarrow> Meta \<Rightarrow> Meta" where
  "note_icon X tag meta =
     (if m_icon_url meta \<noteq> None then meta
      else (case attribute X tag ''rel'' of
         None \<Rightarrow> meta
       | Some rel \<Rightarrow>
           if \<not> list_ex (\<lambda>token. token = ''icon'') (split_whitespace (to_ascii_lowercase rel)) then meta
           else (case attribute X tag ''href'' of
              None \<Rightarrow> meta
            | Some href \<Rightarrow> if href = [] then meta else meta\<lparr>m_icon_url := Some href\<rparr>)))"

definition document_head :: "string \<Rightarrow> string" where
  "document_head document =
     (let head = (case find_sub ''<head'' document of
             Some start \<Rightarrow>
               (let after_tag = (case find_char (\<lambda>c. c = CHR ''>'') (drop start document) of
                      None \<Rightarrow> start | Some i \<Rightarrow> start + i + 1)
                in drop after_tag document)
           | None \<Rightarrow> document);
          end_at = (case find_sub ''</head>'' (to_ascii_lowercase head) of None \<Rightarrow> length head | Some i \<Rightarrow> i)
      in take end_at head)"

definition scrape :: "head_regexes \<Rightarrow> string \<Rightarrow> Meta" where
  "scrape X document =
     (let head = document_head document;
          meta1 = fold (render_tag X) (meta_tags X head) default_Meta;
          meta2 = fold (note_icon X) (link_tags X head) meta1
      in if m_title meta2 = None then
           meta2\<lparr>m_title :=
             (case title_text X head of
                None \<Rightarrow> None
              | Some c \<Rightarrow>
                  (let t = trim (decode c) in if t = [] then None else Some (take_chars MAX_TITLE t)))\<rparr>
         else meta2)"

definition title_tag :: "string \<Rightarrow> string" where
  "title_tag title = ''<title>'' @ html_escape title @ ''</title>''"

definition replace_title :: "head_regexes \<Rightarrow> string \<Rightarrow> string \<Rightarrow> string" where
  "replace_title X page title = title_replace X page (title_tag title)"

definition FAVICON_LINK :: string where
  "FAVICON_LINK = ''<link rel='' @ quote ''icon'' @ '' href='' @ quote ''/__ng/favicon.ico'' @ ''>''"

definition NG_META :: string where
  "NG_META = ''{{NG_META}}''"

text \<open>\<open>inline_into\<close> after the metadata has been loaded.\<close>

definition inline_meta :: "head_regexes \<Rightarrow> string \<Rightarrow> string \<Rightarrow> Meta option \<Rightarrow> string" where
  "inline_meta X page host meta =
     (let inject = (case meta of
             None \<Rightarrow> ''''
           | Some m \<Rightarrow> concat (m_tags m) @ (if m_icon m \<noteq> None then FAVICON_LINK else ''''));
          title = (case Option.bind meta m_title of Some t \<Rightarrow> t | None \<Rightarrow> host)
      in replace_first NG_META inject (replace_title X page title))"

definition clear_marker :: "string \<Rightarrow> string" where
  "clear_marker page = str_replace NG_META '''' page"

section \<open>The tags that reach a page\<close>

text \<open>A tag as \<open>render_tag\<close> may emit it: fixed markup around escaped text.\<close>

definition safe_tag :: "string \<Rightarrow> bool" where
  "safe_tag t \<longleftrightarrow> t = card_tag \<or>
     (\<exists>key v c. key \<in> {''name'', ''property''} \<and> markup_free v \<and> markup_free c \<and>
        t = ''<meta '' @ key @ ''='' @ quote v @ '' content='' @ quote c @ ''>'')"

lemma meta_key_name: "meta_key X tag = Some (k, v) \<Longrightarrow> k \<in> {''name'', ''property''}"
  by (auto simp: meta_key_def split: option.splits)

lemma render_tag_cases:
  "render_tag X tag meta = meta \<or>
   (\<exists>t. safe_tag t \<and> render_tag X tag meta = meta\<lparr>m_tags := m_tags meta @ [t]\<rparr>)"
proof (cases "meta_key X tag")
  case None
  then show ?thesis by (simp add: render_tag_def)
next
  case (Some kv)
  obtain k v where kv: "kv = (k, v)" by (cases kv)
  have k: "k \<in> {''name'', ''property''}" using meta_key_name Some kv by blast
  have "safe_tag (''<meta '' @ k @ ''='' @ quote (html_escape (decode v)) @ '' content='' @
      quote (html_escape (decode c)) @ ''>'')" for c
    unfolding safe_tag_def using k markup_free_escape by blast
  moreover have "safe_tag card_tag" by (simp add: safe_tag_def)
  ultimately show ?thesis
    using Some kv by (auto simp: render_tag_def Let_def split: option.splits)
qed

lemma note_icon_frame:
  "m_tags (note_icon X tag meta) = m_tags meta \<and> m_title (note_icon X tag meta) = m_title meta \<and>
   m_icon (note_icon X tag meta) = m_icon meta"
  by (auto simp: note_icon_def split: option.splits)

lemma fold_note_icon_frame:
  "m_tags (fold (note_icon X) ts meta) = m_tags meta \<and> m_title (fold (note_icon X) ts meta) = m_title meta \<and>
   m_icon (fold (note_icon X) ts meta) = m_icon meta"
  by (induction ts arbitrary: meta) (auto simp: note_icon_frame)

lemma fold_render_tag_safe:
  "list_all safe_tag (m_tags meta) \<Longrightarrow> list_all safe_tag (m_tags (fold (render_tag X) ts meta))"
proof (induction ts arbitrary: meta)
  case (Cons t ts)
  have "list_all safe_tag (m_tags (render_tag X t meta))"
    using render_tag_cases [of X t meta] Cons.prems by auto
  then show ?case using Cons.IH by simp
qed simp

lemma fold_render_tag_frame:
  "m_icon (fold (render_tag X) ts meta) = m_icon meta \<and> m_title (fold (render_tag X) ts meta) = m_title meta"
proof (induction ts arbitrary: meta)
  case (Cons t ts)
  have "m_icon (render_tag X t meta) = m_icon meta \<and> m_title (render_tag X t meta) = m_title meta"
    using render_tag_cases [of X t meta] by auto
  then show ?case using Cons.IH by simp
qed simp

lemma scrape_tags: "list_all safe_tag (m_tags (scrape X doc))"
  using fold_render_tag_safe [of default_Meta X "meta_tags X (document_head doc)"]
  by (simp add: scrape_def Let_def fold_note_icon_frame default_Meta_def)

lemma scrape_icon: "m_icon (scrape X doc) = None"
  by (simp add: scrape_def Let_def fold_note_icon_frame fold_render_tag_frame default_Meta_def)

section \<open>The marker\<close>

lemma str_replace_empty_sublist:
  "p \<noteq> [] \<Longrightarrow> \<not> sublist p s \<Longrightarrow> str_replace p r s = s"
proof (induction s)
  case (Cons c s)
  then have "\<not> prefix p (c # s)" "\<not> sublist p s"
    by (auto simp: sublist_Cons_right)
  with Cons show ?case by simp
qed simp

lemma find_sub_None: "find_sub p s = None \<longleftrightarrow> \<not> sublist p s"
  by (induction s) (auto simp: sublist_Cons_right)

lemma find_sub_Some: "find_sub p s = Some i \<Longrightarrow> s = take i s @ p @ drop (i + length p) s"
proof (induction s arbitrary: i)
  case Nil
  then show ?case by (auto split: if_splits)
next
  case (Cons c s)
  then show ?case by (auto simp: prefix_def split: if_splits)
qed

lemma find_sub_first: "sublist p u \<Longrightarrow> \<exists>i. find_sub p (u @ v) = Some i \<and> i + length p \<le> length u"
proof (induction u)
  case Nil
  then have "p = []" by simp
  then show ?case by (cases v) auto
next
  case (Cons c u)
  show ?case
  proof (cases "prefix p (c # u)")
    case True
    then have "prefix p (c # u @ v)" by (metis append_Cons prefix_prefix)
    then show ?thesis using True by (auto dest: prefix_length_le)
  next
    case False
    then have "sublist p u" using Cons.prems by (simp add: sublist_Cons_right)
    then obtain i where i: "find_sub p (u @ v) = Some i" "i + length p \<le> length u"
      using Cons.IH by blast
    then show ?thesis by (cases "prefix p (c # u @ v)") auto
  qed
qed

lemma replace_first_keeps_rest:
  assumes "sublist p u" and "sublist p v"
  shows "sublist p (replace_first p r (u @ v))"
proof -
  obtain i where i: "find_sub p (u @ v) = Some i" "i + length p \<le> length u"
    using find_sub_first [OF assms(1)] by blast
  then have "replace_first p r (u @ v) = take i u @ r @ drop (i + length p) u @ v"
    by simp
  then show ?thesis
    using assms(2) by (metis append_assoc sublist_appendI sublist_order.order_trans sublist_append_leftI)
qed

lemma escape_braces: "html_escape NG_META = NG_META"
  by (simp add: html_escape_eq NG_META_def escape_char_def)

lemma escape_keeps_marker: "sublist NG_META t \<Longrightarrow> sublist NG_META (html_escape t)"
proof -
  assume "sublist NG_META t"
  then obtain u v where "t = u @ NG_META @ v" by (auto simp: sublist_def)
  then have "html_escape t = html_escape u @ NG_META @ html_escape v"
    by (simp add: html_escape_append escape_braces)
  then show ?thesis by (metis sublist_appendI)
qed

section \<open>Properties\<close>

text \<open>
  C34. Whatever the origin's document holds and whatever the regular expressions find in it, each tag
  that is carried over into the interstitial is fixed markup around two values without quotes or angle
  brackets, keyed by \<open>name\<close> or \<open>property\<close>, and the title is escaped text in a title element: the origin
  cannot put markup of its own into the page.
\<close>

theorem scraped_markup_safe:
  "list_all safe_tag (m_tags (scrape X doc)) \<and>
   (\<exists>t. title_tag title = ''<title>'' @ t @ ''</title>'' \<and> markup_free t \<and> decode t = title)"
  using scrape_tags [of X doc] by (auto simp: title_tag_def decode_html_escape)

text \<open>
  The metadata marker can reach a client: when the origin's title itself contains the marker, the
  single replacement fills the one in the title and leaves the template's own marker in the page.
\<close>

theorem marker_can_leak:
  assumes "title_replace X page (title_tag t) = pre @ title_tag t @ post"
    and "m_title m = Some t" and "sublist NG_META t" and "sublist NG_META post"
  shows "sublist NG_META (inline_meta X page host (Some m))"
proof -
  have "sublist NG_META (pre @ title_tag t)"
    using escape_keeps_marker [OF assms(3)] unfolding title_tag_def
    by (auto simp: sublist_def) (metis append_assoc append_Cons append_Nil)
  then show ?thesis
    using replace_first_keeps_rest [OF _ assms(4), of "pre @ title_tag t"] assms(1,2)
    by (simp add: inline_meta_def replace_title_def Let_def del: replace_first.simps)
qed

text \<open>Expressions that find nothing, and put the title into one fixed template.\<close>

definition sample_regexes :: head_regexes where
  "sample_regexes =
     \<lparr>meta_tags = (\<lambda>s. []), link_tags = (\<lambda>s. []), attrs = (\<lambda>s. []), title_text = (\<lambda>s. None),
      title_replace = (\<lambda>page r. ''<head>'' @ r @ ''{{NG_META}}</head>'')\<rparr>"

theorem marker_can_leak_witness:
  "sublist NG_META (inline_meta sample_regexes ''<head><title></title>{{NG_META}}</head>'' ''h''
     (Some (default_Meta\<lparr>m_title := Some ''a{{NG_META}}''\<rparr>)))"
  by (rule marker_can_leak [where t = "''a{{NG_META}}''" and pre = "''<head>''"
      and post = "''{{NG_META}}</head>''"])
    (simp_all add: sample_regexes_def default_Meta_def NG_META_def sublist_code)

end
