(* ===== verification/Http_Lib.thy ===== *)
theory Http_Lib
  imports Rust_Utf8
begin

text \<open>
  The interface to the HTTP crates (\<open>http\<close>, \<open>hyper\<close>, \<open>http_body_util\<close>). They are not part of the
  repository, so the header map, the header-value checks and the URI parser are parameters: a record
  of the operations the sources call, over an abstract header map \<open>'h\<close>. \<open>header_map_ok\<close> states what
  the code relies on; \<open>alist_http\<close> is a concrete instance.

  A body is the sequence of chunks that its stream delivers, \<^const>\<open>None\<close> standing for a read error.
  The network is a function from the requests sent so far and the next request to the response,
  \<^const>\<open>None\<close> standing for a failure or a timeout; the requests sent are recorded in order.
\<close>

section \<open>Definitions\<close>

record Uri =
  scheme_str :: "string option"
  authority :: "string option"
  uri_path :: string
  path_and_query :: "string option"

record 'h http_lib =
  hm_empty :: 'h
  hm_get :: "'h \<Rightarrow> string \<Rightarrow> string option"
  hm_get_all :: "'h \<Rightarrow> string \<Rightarrow> string list"
  hm_insert :: "string \<Rightarrow> string \<Rightarrow> 'h \<Rightarrow> 'h"
  hm_append :: "string \<Rightarrow> string \<Rightarrow> 'h \<Rightarrow> 'h"
  hm_remove :: "string \<Rightarrow> 'h \<Rightarrow> 'h"
  to_str :: "string \<Rightarrow> string option"
  from_str :: "string \<Rightarrow> string option"
  parse_uri :: "string \<Rightarrow> Uri option"

type_synonym stream = "string option list"

record 'h Request =
  req_method :: string
  req_uri :: Uri
  req_headers :: 'h
  req_body :: stream

record 'h Response =
  status :: nat
  headers :: 'h
  body :: stream

text \<open>\<open>headers.get(k).and_then(|v| v.to_str().ok())\<close>\<close>

definition get_str :: "'h http_lib \<Rightarrow> 'h \<Rightarrow> string \<Rightarrow> string option" where
  "get_str H h k = Option.bind (hm_get H h k) (to_str H)"

text \<open>\<open>if let Ok(val) = HeaderValue::from_str(s) { headers.insert(k, val) }\<close>\<close>

definition insert_str :: "'h http_lib \<Rightarrow> string \<Rightarrow> string \<Rightarrow> 'h \<Rightarrow> 'h" where
  "insert_str H k s h = (case from_str H s of Some v \<Rightarrow> hm_insert H k v h | None \<Rightarrow> h)"

text \<open>\<open>Limited::new(body, limit).collect()\<close>: the whole body, unless it is longer or fails.\<close>

fun collect_from :: "nat \<Rightarrow> string \<Rightarrow> stream \<Rightarrow> string option" where
  "collect_from limit acc [] = Some acc"
| "collect_from limit acc (None # cs) = None"
| "collect_from limit acc (Some c # cs) =
     (if length acc + length c > limit then None else collect_from limit (acc @ c) cs)"

definition collect_limited :: "nat \<Rightarrow> stream \<Rightarrow> string option" where
  "collect_limited limit s = collect_from limit [] s"

type_synonym 'h net = "'h Request list \<Rightarrow> 'h Request \<Rightarrow> 'h Response option"

definition client_request ::
  "'h net \<Rightarrow> 'h Request \<Rightarrow> 'h Request list \<Rightarrow> 'h Response option \<times> 'h Request list" where
  "client_request net req sent = (net sent req, sent @ [req])"

section \<open>What the code relies on\<close>

text \<open>Names are compared without regard to case; \<open>get\<close> is the first value of \<open>get_all\<close>; converting text
  to a header value and back gives the text.\<close>

definition header_map_ok :: "'h http_lib \<Rightarrow> bool" where
  "header_map_ok H \<longleftrightarrow>
     (\<forall>h k. hm_get H h k = (case hm_get_all H h k of [] \<Rightarrow> None | v # _ \<Rightarrow> Some v)) \<and>
     (\<forall>k. hm_get_all H (hm_empty H) k = []) \<and>
     (\<forall>h k v k'. hm_get_all H (hm_insert H k v h) k' =
        (if eq_ignore_ascii_case k k' then [v] else hm_get_all H h k')) \<and>
     (\<forall>h k v k'. hm_get_all H (hm_append H k v h) k' =
        (if eq_ignore_ascii_case k k' then hm_get_all H h k' @ [v] else hm_get_all H h k')) \<and>
     (\<forall>h k k'. hm_get_all H (hm_remove H k h) k' =
        (if eq_ignore_ascii_case k k' then [] else hm_get_all H h k')) \<and>
     (\<forall>s v. from_str H s = Some v \<longrightarrow> v = s)"

section \<open>Lemmas\<close>

lemma header_names [simp]:
  "to_ascii_lowercase ''host'' = ''host''"
  "to_ascii_lowercase ''x-forwarded-proto'' = ''x-forwarded-proto''"
  "to_ascii_lowercase ''x-forwarded-host'' = ''x-forwarded-host''"
  "to_ascii_lowercase ''cache-control'' = ''cache-control''"
  "to_ascii_lowercase ''location'' = ''location''"
  "to_ascii_lowercase ''content-type'' = ''content-type''"
  "to_ascii_lowercase ''content-length'' = ''content-length''"
  "to_ascii_lowercase ''content-encoding'' = ''content-encoding''"
  "to_ascii_lowercase ''content-security-policy'' = ''content-security-policy''"
  "to_ascii_lowercase ''content-security-policy-report-only'' = ''content-security-policy-report-only''"
  "to_ascii_lowercase ''transfer-encoding'' = ''transfer-encoding''"
  "to_ascii_lowercase ''set-cookie'' = ''set-cookie''"
  "to_ascii_lowercase ''cookie'' = ''cookie''"
  "to_ascii_lowercase ''link'' = ''link''"
  "to_ascii_lowercase ''x-real-ip'' = ''x-real-ip''"
  "to_ascii_lowercase ''sec-fetch-dest'' = ''sec-fetch-dest''"
  "to_ascii_lowercase ''accept'' = ''accept''"
  "to_ascii_lowercase ''x-content-type-options'' = ''x-content-type-options''"
  by code_simp+

lemma header_map_laws:
  assumes "header_map_ok H"
  shows "hm_get_all H (hm_empty H) k = []"
    and "hm_get_all H (hm_insert H k v h) k' =
      (if eq_ignore_ascii_case k k' then [v] else hm_get_all H h k')"
    and "hm_get_all H (hm_append H k v h) k' =
      (if eq_ignore_ascii_case k k' then hm_get_all H h k' @ [v] else hm_get_all H h k')"
    and "hm_get_all H (hm_remove H k h) k' =
      (if eq_ignore_ascii_case k k' then [] else hm_get_all H h k')"
    and "hm_get H h k = (case hm_get_all H h k of [] \<Rightarrow> None | v # _ \<Rightarrow> Some v)"
  using assms by (simp_all add: header_map_ok_def)

lemma get_all_insert_str:
  assumes "header_map_ok H"
  shows "hm_get_all H (insert_str H k s h) k' =
    (if eq_ignore_ascii_case k k' \<and> from_str H s \<noteq> None then [s] else hm_get_all H h k')"
proof -
  have "v = s" if "from_str H s = Some v" for v
    using assms that unfolding header_map_ok_def by blast
  then show ?thesis
    by (cases "from_str H s") (auto simp: insert_str_def header_map_laws [OF assms])
qed

lemma collect_from_Some:
  "collect_from limit acc s = Some r \<Longrightarrow> length acc \<le> limit \<Longrightarrow>
   r = acc @ concat (map the s) \<and> length r \<le> limit \<and> None \<notin> set s"
  by (induction limit acc s rule: collect_from.induct) (auto split: if_splits)

lemma collect_limited_Some:
  "collect_limited limit s = Some r \<Longrightarrow> r = concat (map the s) \<and> length r \<le> limit \<and> None \<notin> set s"
  unfolding collect_limited_def by (drule collect_from_Some) auto

lemma collect_from_ok:
  "None \<notin> set s \<Longrightarrow> length acc + length (concat (map the s)) \<le> limit \<Longrightarrow>
   collect_from limit acc s = Some (acc @ concat (map the s))"
  by (induction limit acc s rule: collect_from.induct) auto

lemma collect_limited_ok:
  "None \<notin> set s \<Longrightarrow> length (concat (map the s)) \<le> limit \<Longrightarrow>
   collect_limited limit s = Some (concat (map the s))"
  using collect_from_ok [of s "[]" limit] by (simp add: collect_limited_def)

section \<open>A concrete instance\<close>

text \<open>
  Header maps as association lists of lower-case names. Header values are the texts without control
  characters. The URI parser splits at the scheme and at the first slash, which is enough for the
  examples below.
\<close>

definition plain_uri :: "string \<Rightarrow> Uri option" where
  "plain_uri s =
     (case find_sub ''://'' s of
        None \<Rightarrow> Some \<lparr>scheme_str = None, authority = None, uri_path = s, path_and_query = Some s\<rparr>
      | Some i \<Rightarrow>
          (let r = drop (i + 3) s; a = takeWhile (\<lambda>c. c \<noteq> CHR ''/'') r; p = drop (length a) r
           in Some \<lparr>scheme_str = Some (take i s), authority = Some a, uri_path = p,
                    path_and_query = Some (if p = [] then ''/'' else p)\<rparr>))"

definition alist_http :: "(string \<times> string) list http_lib" where
  "alist_http =
     \<lparr>hm_empty = [],
      hm_get = (\<lambda>h k. case filter (\<lambda>(n, v). n = to_ascii_lowercase k) h of [] \<Rightarrow> None | (n, v) # _ \<Rightarrow> Some v),
      hm_get_all = (\<lambda>h k. map snd (filter (\<lambda>(n, v). n = to_ascii_lowercase k) h)),
      hm_insert = (\<lambda>k v h. filter (\<lambda>(n, v). n \<noteq> to_ascii_lowercase k) h @ [(to_ascii_lowercase k, v)]),
      hm_append = (\<lambda>k v h. h @ [(to_ascii_lowercase k, v)]),
      hm_remove = (\<lambda>k h. filter (\<lambda>(n, v). n \<noteq> to_ascii_lowercase k) h),
      to_str = (\<lambda>v. Some v),
      from_str = (\<lambda>s. if list_all (\<lambda>c. 32 \<le> code c) s then Some s else None),
      parse_uri = plain_uri\<rparr>"

lemma alist_http_ok: "header_map_ok alist_http"
proof -
  have "filter (\<lambda>(n, v). n = b) (filter (\<lambda>(n, v). n \<noteq> a) h) =
      (if a = b then [] else filter (\<lambda>(n, v). n = b) h)" for a b and h :: "(string \<times> string) list"
    by (induction h) auto
  then show ?thesis
    by (auto simp: header_map_ok_def alist_http_def eq_ignore_ascii_case_def split: list.splits prod.splits)
qed

end
