(* ===== verification/Ip_Addr.thy ===== *)
theory Ip_Addr
  imports Rust_Text
begin

text \<open>
  \<open>std::net::IpAddr\<close> as the sources use it: its \<open>Display\<close> text (session payloads, rate-limit keys)
  and its parser (session payloads, \<open>X-Real-IP\<close>, the whitelist). The parser is the recursive
  descent parser of the standard library, with its backtracking made explicit: a reader returns
  \<open>None\<close> and leaves the input where it was.
\<close>

datatype ipaddr =
    V4 u8 u8 u8 u8
  | V6 u16 u16 u16 u16 u16 u16 u16 u16

section \<open>Display\<close>

definition hex16 :: "u16 \<Rightarrow> string" where
  "hex16 w = radix 16 (unat w)"

definition display_v4 :: "u8 \<Rightarrow> u8 \<Rightarrow> u8 \<Rightarrow> u8 \<Rightarrow> string" where
  "display_v4 a b c d =
     dec (unat a) @ ''.'' @ dec (unat b) @ ''.'' @ dec (unat c) @ ''.'' @ dec (unat d)"

text \<open>The first longest run of zero segments, as start and length: \<open>cs\<close>, \<open>cl\<close> is the current run, \<open>ls\<close>,
  \<open>ll\<close> the longest so far.\<close>

fun zero_run :: "u16 list \<Rightarrow> nat \<Rightarrow> nat \<Rightarrow> nat \<Rightarrow> nat \<Rightarrow> nat \<Rightarrow> nat \<times> nat" where
  "zero_run [] i cs cl ls ll = (ls, ll)"
| "zero_run (x # xs) i cs cl ls ll =
     (if x = 0 then
        (let cs' = (if cl = 0 then i else cs); cl' = cl + 1
         in if cl' > ll then zero_run xs (i + 1) cs' cl' cs' cl'
            else zero_run xs (i + 1) cs' cl' ls ll)
      else zero_run xs (i + 1) 0 0 ls ll)"

definition subslice :: "u16 list \<Rightarrow> string" where
  "subslice xs = join '':'' (map hex16 xs)"

definition hi8 :: "u16 \<Rightarrow> u8" where
  "hi8 w = ucast (drop_bit 8 w)"

definition lo8 :: "u16 \<Rightarrow> u8" where
  "lo8 w = ucast w"

definition pair16 :: "u8 \<Rightarrow> u8 \<Rightarrow> u16" where
  "pair16 a b = push_bit 8 (ucast a) + ucast b"

definition display_v6 :: "u16 list \<Rightarrow> string" where
  "display_v6 xs =
     (if take 6 xs = [0, 0, 0, 0, 0, 0xffff] then
        ''::ffff:'' @ display_v4 (hi8 (xs ! 6)) (lo8 (xs ! 6)) (hi8 (xs ! 7)) (lo8 (xs ! 7))
      else (case zero_run xs 0 0 0 0 0 of (start, len) \<Rightarrow>
        if len > 1 then subslice (take start xs) @ ''::'' @ subslice (drop (start + len) xs)
        else subslice xs))"

fun segments :: "ipaddr \<Rightarrow> u16 list" where
  "segments (V4 a b c d) = []"
| "segments (V6 a b c d e f g h) = [a, b, c, d, e, f, g, h]"

fun ip_to_string :: "ipaddr \<Rightarrow> string" where
  "ip_to_string (V4 a b c d) = display_v4 a b c d"
| "ip_to_string (V6 a b c d e f g h) = display_v6 [a, b, c, d, e, f, g, h]"

section \<open>Parsing\<close>

text \<open>The digit loop of \<open>read_number\<close>: value so far, digits read so far. Overflow of the target type and
  too many digits fail.\<close>

fun read_digits :: "nat \<Rightarrow> nat \<Rightarrow> nat \<Rightarrow> nat \<Rightarrow> nat \<Rightarrow> string \<Rightarrow> (nat \<times> nat \<times> string) option" where
  "read_digits b mx maxd v n [] = Some (v, n, [])"
| "read_digits b mx maxd v n (c # cs) =
     (case digit_val b c of
        None \<Rightarrow> Some (v, n, c # cs)
      | Some d \<Rightarrow>
          (if v * b + d > mx \<or> n + 1 > maxd then None
           else read_digits b mx maxd (v * b + d) (n + 1) cs))"

definition read_number :: "nat \<Rightarrow> nat \<Rightarrow> nat \<Rightarrow> bool \<Rightarrow> string \<Rightarrow> (nat \<times> string) option" where
  "read_number b mx maxd zero_prefix s =
     (case read_digits b mx maxd 0 0 s of
        None \<Rightarrow> None
      | Some (v, n, r) \<Rightarrow>
          (if n = 0 then None
           else if \<not> zero_prefix \<and> hd s = CHR ''0'' \<and> n > 1 then None
           else Some (v, r)))"

definition read_char :: "char \<Rightarrow> string \<Rightarrow> string option" where
  "read_char c s = (case s of x # xs \<Rightarrow> if x = c then Some xs else None | [] \<Rightarrow> None)"

definition read_separator :: "char \<Rightarrow> nat \<Rightarrow> (string \<Rightarrow> ('a \<times> string) option) \<Rightarrow> string \<Rightarrow> ('a \<times> string) option" where
  "read_separator sep i f s =
     (if i > 0 then (case read_char sep s of Some r \<Rightarrow> f r | None \<Rightarrow> None) else f s)"

definition read_octet :: "nat \<Rightarrow> string \<Rightarrow> (nat \<times> string) option" where
  "read_octet i s = read_separator (CHR ''.'') i (read_number 10 255 3 False) s"

definition read_ipv4 :: "string \<Rightarrow> ((u8 \<times> u8 \<times> u8 \<times> u8) \<times> string) option" where
  "read_ipv4 s0 =
     (case read_octet 0 s0 of None \<Rightarrow> None | Some (a, s1) \<Rightarrow>
      case read_octet 1 s1 of None \<Rightarrow> None | Some (b, s2) \<Rightarrow>
      case read_octet 2 s2 of None \<Rightarrow> None | Some (c, s3) \<Rightarrow>
      case read_octet 3 s3 of None \<Rightarrow> None | Some (d, s4) \<Rightarrow>
        Some ((of_nat a, of_nat b, of_nat c, of_nat d), s4))"

text \<open>\<open>read_groups\<close> from slot \<open>i\<close> with \<open>k\<close> slots left: the groups read, whether they end in an embedded
  IPv4 address, and the rest of the input.\<close>

fun read_groups :: "nat \<Rightarrow> nat \<Rightarrow> string \<Rightarrow> u16 list \<times> bool \<times> string" where
  "read_groups i 0 s = ([], False, s)"
| "read_groups i (Suc k) s =
     (case (if k > 0 then read_separator (CHR '':'') i read_ipv4 s else None) of
        Some ((a, b, c, d), r) \<Rightarrow> ([pair16 a b, pair16 c d], True, r)
      | None \<Rightarrow>
          (case read_separator (CHR '':'') i (read_number 16 65535 4 True) s of
             Some (g, r) \<Rightarrow>
               (case read_groups (Suc i) k r of (gs, v4, r') \<Rightarrow> (of_nat g # gs, v4, r'))
           | None \<Rightarrow> ([], False, s)))"

fun v6_of :: "u16 list \<Rightarrow> ipaddr option" where
  "v6_of [a, b, c, d, e, f, g, h] = Some (V6 a b c d e f g h)"
| "v6_of _ = None"

definition read_ipv6 :: "string \<Rightarrow> (ipaddr \<times> string) option" where
  "read_ipv6 s =
     (case read_groups 0 8 s of (head, head_v4, r) \<Rightarrow>
        if length head = 8 then map_option (\<lambda>a. (a, r)) (v6_of head)
        else if head_v4 then None
        else (case read_char (CHR '':'') r of None \<Rightarrow> None | Some r1 \<Rightarrow>
              case read_char (CHR '':'') r1 of None \<Rightarrow> None | Some r2 \<Rightarrow>
                (case read_groups 0 (8 - (length head + 1)) r2 of (tl6, _, r3) \<Rightarrow>
                   map_option (\<lambda>a. (a, r3))
                     (v6_of (head @ replicate (8 - length head - length tl6) 0 @ tl6)))))"

definition ip_parse :: "string \<Rightarrow> ipaddr option" where
  "ip_parse s =
     (case (case read_ipv4 s of
              Some ((a, b, c, d), r) \<Rightarrow> Some (V4 a b c d, r)
            | None \<Rightarrow> read_ipv6 s) of
        Some (a, r) \<Rightarrow> if r = [] then Some a else None
      | None \<Rightarrow> None)"

section \<open>Reading back displayed numbers\<close>

definition stops :: "nat \<Rightarrow> string \<Rightarrow> bool" where
  "stops b r \<longleftrightarrow> r = [] \<or> digit_val b (hd r) = None"

lemma read_digits_radix:
  "2 \<le> b \<Longrightarrow> b \<le> 16 \<Longrightarrow> n \<le> mx \<Longrightarrow> length (radix b n) \<le> maxd \<Longrightarrow>
   read_digits b mx maxd 0 0 (radix b n @ r) = read_digits b mx maxd n (length (radix b n)) r"
proof (induction b n arbitrary: r rule: radix.induct)
  case (1 b n)
  show ?case
  proof (cases "n < b")
    case True
    then show ?thesis using "1.prems" by (simp add: radix.simps [of b n] digit_val_digit)
  next
    case False
    have len: "length (radix b n) = Suc (length (radix b (n div b)))"
      using False "1.prems" by (simp add: radix.simps [of b n])
    have "n div b \<le> mx" using "1.prems"(3) div_le_dividend le_trans by blast
    moreover have "n mod b < b" using "1.prems" by simp
    ultimately show ?thesis
      using False "1.prems" len "1.IH" [of "digit (n mod b) # r"]
      by (simp add: radix.simps [of b n] digit_val_digit)
  qed
qed

lemma read_digits_stop: "stops b r \<Longrightarrow> read_digits b mx maxd v n r = Some (v, n, r)"
  by (cases r) (auto simp: stops_def)

lemma read_number_radix:
  assumes b: "2 \<le> b" "b \<le> 16" and n: "n \<le> mx" "length (radix b n) \<le> maxd" and r: "stops b r"
  shows "read_number b mx maxd zp (radix b n @ r) = Some (n, r)"
proof -
  have "\<not> (hd (radix b n @ r) = CHR ''0'' \<and> length (radix b n) > 1)"
    using hd_radix [OF b, of n] radix_long [of b n] b by (cases "n = 0") auto
  then show ?thesis
    by (auto simp: read_number_def read_digits_radix [OF b n] read_digits_stop [OF r])
qed

lemma read_number_dec:
  assumes "stops 10 r"
  shows "read_number 10 255 3 False (dec (unat (a::u8)) @ r) = Some (unat a, r)"
proof -
  have "unat a < 2 ^ LENGTH(8)" by (rule unsigned_less)
  then have "unat a \<le> 255" "length (radix 10 (unat a)) \<le> 3"
    by (auto intro: length_radix)
  then show ?thesis by (simp add: dec_def read_number_radix assms)
qed

lemma read_number_hex16:
  assumes "stops 16 r"
  shows "read_number 16 65535 4 True (hex16 w @ r) = Some (unat w, r)"
proof -
  have "unat w < 2 ^ LENGTH(16)" by (rule unsigned_less)
  then have "unat w \<le> 65535" "length (radix 16 (unat w)) \<le> 4"
    by (auto intro: length_radix)
  then show ?thesis by (simp add: hex16_def read_number_radix assms)
qed

lemma stops_dot [simp]: "stops 10 (CHR ''.'' # r)"
  by (simp add: stops_def digit_val_def code_def)

lemma stops_colon [simp]: "stops 16 (CHR '':'' # r)"
  by (simp add: stops_def digit_val_def code_def)

lemma stops_Nil [simp]: "stops b []"
  by (simp add: stops_def)

lemma read_ipv4_display:
  "stops 10 r \<Longrightarrow> read_ipv4 (display_v4 a b c d @ r) = Some ((a, b, c, d), r)"
  by (simp add: read_ipv4_def display_v4_def read_octet_def read_separator_def read_char_def
      read_number_dec)

section \<open>A colon-separated group is not the start of an IPv4 address\<close>

lemma read_digits_rest:
  "read_digits b mx maxd v n s = Some (v', n', r) \<Longrightarrow> r = dropWhile (\<lambda>c. digit_val b c \<noteq> None) s"
  by (induction b mx maxd v n s rule: read_digits.induct) (auto split: option.splits if_splits)

lemma read_ipv4_dot:
  assumes "read_ipv4 s = Some x"
  shows "\<exists>r. dropWhile (\<lambda>c. digit_val 10 c \<noteq> None) s = CHR ''.'' # r"
proof -
  obtain a s1 b s2 where "read_octet 0 s = Some (a, s1)" and one: "read_octet 1 s1 = Some (b, s2)"
    using assms by (auto simp: read_ipv4_def split: option.splits prod.splits)
  then have "s1 = dropWhile (\<lambda>c. digit_val 10 c \<noteq> None) s"
    using read_digits_rest
    by (fastforce simp: read_octet_def read_separator_def read_number_def
        split: option.splits prod.splits if_splits)
  with one show ?thesis
    by (auto simp: read_octet_def read_separator_def read_char_def split: list.splits if_splits)
qed

definition closed :: "string \<Rightarrow> bool" where
  "closed r \<longleftrightarrow> r = [] \<or> hd r = CHR '':''"

lemma dot_notin_hex16: "CHR ''.'' \<notin> set (hex16 w)"
  using radix_chars [of 16 "CHR ''.''" "unat w"]
  by (auto simp: hex16_def digit_val_def code_def)

lemma read_ipv4_group:
  assumes "closed r"
  shows "read_ipv4 (hex16 w @ r) = None"
proof (rule ccontr)
  assume "read_ipv4 (hex16 w @ r) \<noteq> None"
  then obtain r' where d: "dropWhile (\<lambda>c. digit_val 10 c \<noteq> None) (hex16 w @ r) = CHR ''.'' # r'"
    using read_ipv4_dot by blast
  show False
  proof (cases "\<exists>c \<in> set (hex16 w). digit_val 10 c = None")
    case True
    then obtain c where c: "c \<in> set (hex16 w)" "\<not> digit_val 10 c \<noteq> None" by blast
    have "dropWhile (\<lambda>c. digit_val 10 c \<noteq> None) (hex16 w) @ r = CHR ''.'' # r'"
      using d dropWhile_append1 [of c "hex16 w" "\<lambda>c. digit_val 10 c \<noteq> None", OF c] by simp
    moreover have "dropWhile (\<lambda>c. digit_val 10 c \<noteq> None) (hex16 w) \<noteq> []"
      using c by auto
    ultimately have "CHR ''.'' \<in> set (dropWhile (\<lambda>c. digit_val 10 c \<noteq> None) (hex16 w))"
      by (cases "dropWhile (\<lambda>c. digit_val 10 c \<noteq> None) (hex16 w)") auto
    then show False using dot_notin_hex16 set_dropWhileD by fast
  next
    case False
    with d have "dropWhile (\<lambda>c. digit_val 10 c \<noteq> None) r = CHR ''.'' # r'"
      by (auto simp: dropWhile_append)
    then show False
      using assms by (cases r) (auto simp: closed_def digit_val_def code_def)
  qed
qed

lemma read_number_colon: "read_number b mx maxd zp (CHR '':'' # r) = None" if "b \<le> 16"
  using that by (simp add: read_number_def digit_val_def code_def)

lemma read_number_Nil [simp]: "read_number b mx maxd zp [] = None"
  by (simp add: read_number_def)

lemma read_ipv4_colon [simp]: "read_ipv4 (CHR '':'' # r) = None"
  by (simp add: read_ipv4_def read_octet_def read_separator_def read_number_colon)

lemma read_ipv4_Nil [simp]: "read_ipv4 [] = None"
  by (simp add: read_ipv4_def read_octet_def read_separator_def)

section \<open>Reading back displayed groups\<close>

text \<open>Where a list of groups ends: at the end of the text or at a double colon.\<close>

fun group_end :: "string \<Rightarrow> bool" where
  "group_end [] = True"
| "group_end (a # b # s) = (a = CHR '':'' \<and> b = CHR '':'')"
| "group_end [a] = False"

lemma group_end_closed: "group_end r \<Longrightarrow> closed r"
  by (cases r rule: group_end.cases) (auto simp: closed_def)

lemma read_groups_end: "group_end r \<Longrightarrow> read_groups i k r = ([], False, r)"
  by (cases r rule: group_end.cases; cases k)
    (auto simp: read_separator_def read_char_def read_number_colon)

definition sep_groups :: "u16 list \<Rightarrow> string" where
  "sep_groups xs = concat (map (\<lambda>x. CHR '':'' # hex16 x) xs)"

lemma subslice_Cons: "subslice (x # xs) = hex16 x @ sep_groups xs"
  by (induction xs arbitrary: x) (auto simp: subslice_def sep_groups_def)

lemma sep_groups_Nil [simp]: "sep_groups [] = []"
  by (simp add: sep_groups_def)

lemma closed_sep_groups: "closed r \<Longrightarrow> closed (sep_groups xs @ r)"
  by (cases xs) (auto simp: sep_groups_def closed_def)

lemma closed_stops: "closed r \<Longrightarrow> stops 16 r"
  by (cases r) (auto simp: closed_def stops_def digit_val_def code_def)

lemma read_groups_sep:
  "length xs \<le> k \<Longrightarrow> group_end r \<Longrightarrow> read_groups (Suc i) k (sep_groups xs @ r) = (xs, False, r)"
proof (induction xs arbitrary: i k)
  case Nil
  then show ?case by (simp add: sep_groups_def read_groups_end)
next
  case (Cons x xs)
  then obtain k' where k: "k = Suc k'" "length xs \<le> k'" by (cases k) auto
  have t: "closed (sep_groups xs @ r)" using Cons.prems by (simp add: closed_sep_groups group_end_closed)
  have "sep_groups (x # xs) @ r = CHR '':'' # hex16 x @ sep_groups xs @ r"
    by (simp add: sep_groups_def)
  then show ?case
    using k Cons.IH [OF k(2) Cons.prems(2)] read_ipv4_group [OF t]
      read_number_hex16 [OF closed_stops [OF t]]
    by (auto simp: read_separator_def read_char_def)
qed

lemma read_groups_subslice:
  assumes "length xs \<le> k" and "group_end r"
  shows "read_groups 0 k (subslice xs @ r) = (xs, False, r)"
proof (cases xs)
  case Nil
  then show ?thesis using assms by (simp add: subslice_def read_groups_end)
next
  case (Cons x ys)
  then obtain k' where k: "k = Suc k'" "length ys \<le> k'" using assms by (cases k) auto
  have t: "closed (sep_groups ys @ r)" using assms by (simp add: closed_sep_groups group_end_closed)
  show ?thesis
    using k Cons read_groups_sep [OF k(2) assms(2), of 0] read_ipv4_group [OF t]
      read_number_hex16 [OF closed_stops [OF t]]
    by (auto simp: subslice_Cons read_separator_def)
qed

section \<open>The zero run\<close>

definition zeros_at :: "u16 list \<Rightarrow> nat \<Rightarrow> nat \<Rightarrow> bool" where
  "zeros_at xs s l \<longleftrightarrow> s + l \<le> length xs \<and> take l (drop s xs) = replicate l 0"

lemma zeros_at_snoc:
  "zeros_at pre s l \<Longrightarrow> zeros_at (pre @ ys) s l"
  by (auto simp: zeros_at_def)

lemma zeros_at_grow:
  assumes "zeros_at pre s l" and "s + l = length pre"
  shows "zeros_at (pre @ [0]) s (Suc l)"
proof -
  have "drop s pre = replicate l 0"
    using assms by (auto simp: zeros_at_def)
  then show ?thesis
    using assms by (auto simp: zeros_at_def replicate_append_same)
qed

lemma zero_run_inv:
  assumes "i = length pre" and "zeros_at pre ls ll"
    and "cl > 0 \<Longrightarrow> cs + cl = i \<and> zeros_at pre cs cl"
    and "zero_run ys i cs cl ls ll = (s, l)"
  shows "zeros_at (pre @ ys) s l"
  using assms
proof (induction ys i cs cl ls ll arbitrary: pre rule: zero_run.induct)
  case (1 i cs cl ls ll)
  then show ?case by simp
next
  case (2 x xs i cs cl ls ll)
  define cs' where "cs' = (if cl = 0 then i else cs)"
  have run: "zeros_at (pre @ [0]) cs' (Suc cl)" "cs' + Suc cl = Suc i"
    using 2(4,6) zeros_at_grow [of pre cs' cl] by (auto simp: cs'_def zeros_at_def)
  have old: "zeros_at (pre @ [x]) ls ll" using 2(5) by (rule zeros_at_snoc)
  show ?case
  proof (cases "x = 0")
    case True
    then show ?thesis
      using 2(1) [OF True refl refl, of "pre @ [x]"] 2(2) [OF True refl refl, of "pre @ [x]"] 2(4,7) run old
      by (auto simp: cs'_def Let_def split: if_splits)
  next
    case False
    then show ?thesis using 2(3) [OF False, of "pre @ [x]"] 2(4,7) old by simp
  qed
qed

lemma zero_run_spec: "zero_run xs 0 0 0 0 0 = (s, l) \<Longrightarrow> zeros_at xs s l"
  using zero_run_inv [of 0 "[]" 0 0 0 0 xs s l] by (simp add: zeros_at_def)

lemma zeros_at_split: "zeros_at xs s l \<Longrightarrow> take s xs @ replicate l 0 @ drop (s + l) xs = xs"
  by (metis add.commute append_assoc append_take_drop_id drop_drop zeros_at_def)

section \<open>Round trip\<close>

lemma pair16_bytes: "pair16 (hi8 w) (lo8 w) = w"
proof -
  have "unat w < 2 ^ LENGTH(16)" by (rule unsigned_less)
  then have "unat (pair16 (hi8 w) (lo8 w)) = unat w"
    by (simp add: pair16_def hi8_def lo8_def unat_word_ariths unsigned_push_bit_eq
        unsigned_drop_bit_eq unsigned_ucast_eq take_bit_eq_mod push_bit_eq_mult drop_bit_eq_div)
  then show ?thesis by (simp only: word_unat_eq_iff)
qed

lemma v6_of_segments: "v6_of [a, b, c, d, e, f, g, h] = Some (V6 a b c d e f g h)"
  by simp

lemma read_ipv6_plain:
  assumes "length xs = 8"
  shows "read_ipv6 (subslice xs) = map_option (\<lambda>a. (a, [])) (v6_of xs)"
  using read_groups_subslice [of xs 8 "[]"] assms by (simp add: read_ipv6_def)

lemma read_ipv6_split:
  assumes "read_groups 0 8 s = (hs, False, CHR '':'' # CHR '':'' # r)" and "length hs < 8"
    and "read_groups 0 (8 - (length hs + 1)) r = (ts, v4, [])"
    and "hs @ replicate (8 - length hs - length ts) 0 @ ts = xs"
  shows "read_ipv6 s = map_option (\<lambda>a. (a, [])) (v6_of xs)"
  using assms by (simp add: read_ipv6_def read_char_def)

lemma read_ipv6_run:
  assumes "length xs = 8" and z: "zeros_at xs s l" and "l > 1"
  shows "read_ipv6 (subslice (take s xs) @ ''::'' @ subslice (drop (s + l) xs)) =
    map_option (\<lambda>a. (a, [])) (v6_of xs)"
proof -
  let ?hd = "take s xs" and ?tl = "drop (s + l) xs"
  have len: "length ?hd = s" "length ?tl = 8 - (s + l)" "s + l \<le> 8"
    using assms by (auto simp: zeros_at_def)
  have head: "read_groups 0 8 (subslice ?hd @ ''::'' @ subslice ?tl) = (?hd, False, ''::'' @ subslice ?tl)"
    using len assms by (intro read_groups_subslice) auto
  have tail: "read_groups 0 (8 - (length ?hd + 1)) (subslice ?tl) = (?tl, False, [])"
    using read_groups_subslice [of ?tl "8 - (length ?hd + 1)" "[]"] len assms by simp
  have "?hd @ replicate (8 - length ?hd - length ?tl) 0 @ ?tl = xs"
    using zeros_at_split [OF z] len by simp
  then show ?thesis
    using head tail len assms(3) by (intro read_ipv6_split) auto
qed

lemma read_ipv6_mapped:
  "read_ipv6 (''::ffff:'' @ display_v4 (hi8 g) (lo8 g) (hi8 h) (lo8 h)) =
     Some (V6 0 0 0 0 0 0xffff g h, [])"
proof -
  have f: "''ffff'' = hex16 0xffff" by (simp add: hex16_def radix.simps digit_eval)
  have t: "closed (CHR '':'' # s)" "stops 16 (CHR '':'' # s)" for s
    by (auto simp: closed_def)
  let ?v4 = "display_v4 (hi8 g) (lo8 g) (hi8 h) (lo8 h)"
  have v4: "read_ipv4 ?v4 = Some ((hi8 g, lo8 g, hi8 h, lo8 h), [])"
    using read_ipv4_display [of "[]"] by simp
  have "read_groups 0 (Suc (Suc k)) (hex16 0xffff @ CHR '':'' # ?v4) = ([0xffff, g, h], True, [])"
    if "k > 0" for k
    using that read_ipv4_group [OF t(1)] read_number_hex16 [OF t(2)]
    by (simp add: read_separator_def read_char_def v4 pair16_bytes)
  from this [of 5] have tail: "read_groups 0 (8 - (length ([]::u16 list) + 1)) (''ffff:'' @ ?v4) =
      ([0xffff, g, h], True, [])"
    by (simp add: f [symmetric])
  have head: "read_groups 0 8 (''::ffff:'' @ ?v4) = ([], False, ''::ffff:'' @ ?v4)"
    by (rule read_groups_end) simp
  have "[] @ replicate (8 - length ([]::u16 list) - length [0xffff, g, h]) 0 @ [0xffff, g, h] =
      [0, 0, 0, 0, 0, 0xffff, g, h]"
    by (simp add: numeral_eq_Suc)
  from read_ipv6_split [OF _ _ tail this, of "''::ffff:'' @ ?v4"] head show ?thesis
    by simp
qed

lemma ip_parse_v6:
  assumes "read_ipv4 s = None" and "read_ipv6 s = Some (a, [])"
  shows "ip_parse s = Some a"
  using assms by (simp add: ip_parse_def)

lemma read_ipv4_subslice: "closed r \<Longrightarrow> read_ipv4 (subslice xs @ r) = None"
proof (cases xs)
  case Nil
  then show "closed r \<Longrightarrow> ?thesis" by (cases r) (auto simp: subslice_def closed_def)
next
  case (Cons x ys)
  then show "closed r \<Longrightarrow> ?thesis" by (simp add: subslice_Cons read_ipv4_group closed_sep_groups)
qed

lemma read_ipv6_display:
  assumes "length xs = 8"
  shows "read_ipv6 (display_v6 xs) = map_option (\<lambda>a. (a, [])) (v6_of xs) \<and> read_ipv4 (display_v6 xs) = None"
proof (cases "take 6 xs = [0, 0, 0, 0, 0, 0xffff]")
  case True
  have "xs = take 6 xs @ [xs ! 6, xs ! 7]"
    using assms by (intro nth_equalityI) (auto simp: nth_append less_Suc_eq numeral_eq_Suc)
  with True have "xs = [0, 0, 0, 0, 0, 0xffff, xs ! 6, xs ! 7]" by simp
  then show ?thesis
    using True read_ipv6_mapped [of "xs ! 6" "xs ! 7"] by (metis (no_types, lifting) append_Cons
        display_v6_def option.map(2) read_ipv4_colon v6_of_segments)
next
  case False
  obtain s l where run: "zero_run xs 0 0 0 0 0 = (s, l)" by fastforce
  have c: "closed (''::'' @ r)" "closed []" for r by (auto simp: closed_def)
  show ?thesis
    using False run read_ipv6_run [OF assms zero_run_spec [OF run]] read_ipv6_plain [OF assms]
      read_ipv4_subslice [OF c(1)] read_ipv4_subslice [OF c(2), of xs]
    by (auto simp: display_v6_def)
qed

theorem ip_parse_to_string: "ip_parse (ip_to_string a) = Some a"
proof (cases a)
  case (V4 a b c d)
  then show ?thesis using read_ipv4_display [of "[]"] by (simp add: ip_parse_def)
next
  case (V6 a b c d e f g h)
  then show ?thesis
    using read_ipv6_display [of "[a, b, c, d, e, f, g, h]"] by (simp add: ip_parse_v6)
qed

lemma ip_to_string_inject [simp]: "ip_to_string a = ip_to_string b \<longleftrightarrow> a = b"
  by (metis ip_parse_to_string option.inject)

end
