(* ===== verification/Site_Config.thy ===== *)
theory Site_Config
  imports Ip_Addr "HOL-Library.Char_ord" "HOL-Library.List_Lexorder"
begin

text \<open>
  \<open>nekoguard/src/config.rs\<close>: the configuration as it stands on disk, the defaults that
  deserialisation fills in, the expansion into the flat list of sites, and the two host lookups.

  The TOML parser is a parameter: it yields a value of the \<open>_doc\<close> records, in which a field that the
  file does not mention is \<^const>\<open>None\<close>. The functions \<open>de_\<dots>\<close> are the \<open>Deserialize\<close>
  instances: they put in the \<open>#[serde(default)]\<close> values. The regular-expression engine is a
  parameter too; a compiled expression is the set of texts it matches.
\<close>

section \<open>Definitions\<close>

subsection \<open>Leaf tables and their defaults\<close>

type_synonym regex = "string \<Rightarrow> bool"

definition DEFAULT_PORT :: u16 where
  "DEFAULT_PORT = 443"

definition DEFAULT_CONFIG_PATH :: string where
  "DEFAULT_CONFIG_PATH = ''nekoguard.toml''"

record RateLimitConfig =
  enabled :: bool
  rps :: u32
  rpm :: u32
  burst :: u32

record RateLimitConfig_doc =
  doc_enabled :: "bool option"
  doc_rps :: "u32 option"
  doc_rpm :: "u32 option"
  doc_burst :: "u32 option"

definition default_rps :: u32 where "default_rps = 10"
definition default_rpm :: u32 where "default_rpm = 600"
definition default_burst :: u32 where "default_burst = 20"

definition default_RateLimitConfig :: RateLimitConfig where
  "default_RateLimitConfig =
     \<lparr>enabled = False, rps = default_rps, rpm = default_rpm, burst = default_burst\<rparr>"

text \<open>\<open>unwrap_or d o\<close> is the value of a field with \<open>#[serde(default = d)]\<close>, and \<open>Option::unwrap_or\<close>.\<close>

definition unwrap_or :: "'a \<Rightarrow> 'a option \<Rightarrow> 'a" where
  "unwrap_or d x = (case x of None \<Rightarrow> d | Some v \<Rightarrow> v)"

definition de_RateLimitConfig :: "RateLimitConfig_doc \<Rightarrow> RateLimitConfig" where
  "de_RateLimitConfig d =
     \<lparr>enabled = unwrap_or False (doc_enabled d), rps = unwrap_or default_rps (doc_rps d),
      rpm = unwrap_or default_rpm (doc_rpm d), burst = unwrap_or default_burst (doc_burst d)\<rparr>"

record LogConfig =
  level :: string
  log_file :: "string option"
  max_size :: u64
  requests :: bool

record LogConfig_doc =
  doc_level :: "string option"
  doc_file :: "string option"
  doc_max_size :: "u64 option"
  doc_requests :: "bool option"

definition default_log_level :: string where "default_log_level = ''info''"
definition default_max_size :: u64 where "default_max_size = 10 * 1024 * 1024"

text \<open>The derived \<open>Default\<close> instance, which does not use the field defaults.\<close>

definition default_LogConfig :: LogConfig where
  "default_LogConfig = \<lparr>level = '''', log_file = None, max_size = 0, requests = False\<rparr>"

definition de_LogConfig :: "LogConfig_doc \<Rightarrow> LogConfig" where
  "de_LogConfig d =
     \<lparr>level = unwrap_or default_log_level (doc_level d), log_file = doc_file d,
      max_size = unwrap_or default_max_size (doc_max_size d),
      requests = unwrap_or True (doc_requests d)\<rparr>"

record SessionConfig =
  cfg_cookie_name :: string
  cfg_ttl :: u64

record SessionConfig_doc =
  doc_cookie_name :: "string option"
  doc_ttl :: "u64 option"

definition default_cookie_name :: string where "default_cookie_name = ''nekoguard_session''"
definition default_session_ttl :: u64 where "default_session_ttl = 1800"

definition default_SessionConfig :: SessionConfig where
  "default_SessionConfig = \<lparr>cfg_cookie_name = default_cookie_name, cfg_ttl = default_session_ttl\<rparr>"

definition de_SessionConfig :: "SessionConfig_doc \<Rightarrow> SessionConfig" where
  "de_SessionConfig d =
     \<lparr>cfg_cookie_name = unwrap_or default_cookie_name (doc_cookie_name d),
      cfg_ttl = unwrap_or default_session_ttl (doc_ttl d)\<rparr>"

definition default_redis_url :: string where "default_redis_url = ''redis://127.0.0.1:6379''"

record RedisConfig =
  redis_url :: string

definition default_RedisConfig :: RedisConfig where
  "default_RedisConfig = \<lparr>redis_url = ''''\<rparr>"

definition de_RedisConfig :: "string option \<Rightarrow> RedisConfig" where
  "de_RedisConfig u = \<lparr>redis_url = unwrap_or default_redis_url u\<rparr>"

subsection \<open>Sites, catch-all and the whole file\<close>

record CatchallConfig =
  catchall_upstream :: string
  catchall_patterns :: "string list"
  catchall_rate_limit :: "RateLimitConfig option"

record CatchallConfig_doc =
  doc_catchall_upstream :: string
  doc_catchall_bypass :: "string list option"
  doc_catchall_rate_limit :: "RateLimitConfig_doc option"

definition de_CatchallConfig :: "CatchallConfig_doc \<Rightarrow> CatchallConfig" where
  "de_CatchallConfig d =
     \<lparr>catchall_upstream = doc_catchall_upstream d,
      catchall_patterns = unwrap_or [] (doc_catchall_bypass d),
      catchall_rate_limit = map_option de_RateLimitConfig (doc_catchall_rate_limit d)\<rparr>"

record SubSiteToml =
  sub_name :: string
  sub_upstream :: "string option"
  sub_bypass :: "string list option"
  sub_rate_limit :: "RateLimitConfig option"

record SubSiteToml_doc =
  doc_sub_name :: string
  doc_sub_upstream :: "string option"
  doc_sub_bypass :: "string list option"
  doc_sub_rate_limit :: "RateLimitConfig_doc option"

definition de_SubSiteToml :: "SubSiteToml_doc \<Rightarrow> SubSiteToml" where
  "de_SubSiteToml d =
     \<lparr>sub_name = doc_sub_name d, sub_upstream = doc_sub_upstream d, sub_bypass = doc_sub_bypass d,
      sub_rate_limit = map_option de_RateLimitConfig (doc_sub_rate_limit d)\<rparr>"

record SiteToml =
  toml_domain :: string
  toml_upstream :: string
  toml_bypass :: "string list"
  toml_rate_limit :: "RateLimitConfig option"
  toml_sub :: "SubSiteToml list"

record SiteToml_doc =
  doc_domain :: string
  doc_upstream :: "string option"
  doc_bypass :: "string list option"
  doc_rate_limit :: "RateLimitConfig_doc option"
  doc_sub :: "SubSiteToml_doc list option"

definition de_SiteToml :: "SiteToml_doc \<Rightarrow> SiteToml" where
  "de_SiteToml d =
     \<lparr>toml_domain = doc_domain d, toml_upstream = unwrap_or '''' (doc_upstream d),
      toml_bypass = unwrap_or [] (doc_bypass d),
      toml_rate_limit = map_option de_RateLimitConfig (doc_rate_limit d),
      toml_sub = map de_SubSiteToml (unwrap_or [] (doc_sub d))\<rparr>"

record NekoguardSub =
  ng_port :: u16
  ng_port_http :: "u16 option"
  ng_whitelist :: "string list"
  ng_session :: SessionConfig
  ng_catchall :: "CatchallConfig option"

record NekoguardSub_doc =
  doc_port :: "u16 option"
  doc_port_http :: "u16 option"
  doc_ng_whitelist :: "string list option"
  doc_session :: "SessionConfig_doc option"
  doc_ng_catchall :: "CatchallConfig_doc option"

definition default_port :: u16 where
  "default_port = DEFAULT_PORT"

text \<open>Again a derived \<open>Default\<close>: an integer field is zero.\<close>

definition default_NekoguardSub :: NekoguardSub where
  "default_NekoguardSub =
     \<lparr>ng_port = 0, ng_port_http = None, ng_whitelist = [], ng_session = default_SessionConfig,
      ng_catchall = None\<rparr>"

definition de_NekoguardSub :: "NekoguardSub_doc \<Rightarrow> NekoguardSub" where
  "de_NekoguardSub d =
     \<lparr>ng_port = unwrap_or default_port (doc_port d), ng_port_http = doc_port_http d,
      ng_whitelist = unwrap_or [] (doc_ng_whitelist d),
      ng_session = (case doc_session d of None \<Rightarrow> default_SessionConfig | Some s \<Rightarrow> de_SessionConfig s),
      ng_catchall = map_option de_CatchallConfig (doc_ng_catchall d)\<rparr>"

record CertdSub =
  certd_port :: "u16 option"
  certd_renewal_interval :: "u64 option"

definition default_CertdSub :: CertdSub where
  "default_CertdSub = \<lparr>certd_port = None, certd_renewal_interval = None\<rparr>"

record ConfigToml =
  toml_sites :: "SiteToml list"
  toml_redis :: RedisConfig
  toml_global_rl :: RateLimitConfig
  toml_log :: LogConfig
  toml_whitelist :: "string list"
  toml_catchall :: "CatchallConfig option"
  toml_nekoguard :: NekoguardSub
  toml_certd :: CertdSub

record ConfigToml_doc =
  doc_sites :: "SiteToml_doc list option"
  doc_redis :: "string option option"
  doc_global_rl :: "RateLimitConfig_doc option"
  doc_log :: "LogConfig_doc option"
  doc_whitelist :: "string list option"
  doc_catchall :: "CatchallConfig_doc option"
  doc_nekoguard :: "NekoguardSub_doc option"
  doc_certd :: "CertdSub option"

definition de_ConfigToml :: "ConfigToml_doc \<Rightarrow> ConfigToml" where
  "de_ConfigToml d =
     \<lparr>toml_sites = map de_SiteToml (unwrap_or [] (doc_sites d)),
      toml_redis = (case doc_redis d of None \<Rightarrow> default_RedisConfig | Some u \<Rightarrow> de_RedisConfig u),
      toml_global_rl =
        (case doc_global_rl d of None \<Rightarrow> default_RateLimitConfig | Some r \<Rightarrow> de_RateLimitConfig r),
      toml_log = (case doc_log d of None \<Rightarrow> default_LogConfig | Some l \<Rightarrow> de_LogConfig l),
      toml_whitelist = unwrap_or [] (doc_whitelist d),
      toml_catchall = map_option de_CatchallConfig (doc_catchall d),
      toml_nekoguard =
        (case doc_nekoguard d of None \<Rightarrow> default_NekoguardSub | Some n \<Rightarrow> de_NekoguardSub n),
      toml_certd = unwrap_or default_CertdSub (doc_certd d)\<rparr>"

record Site =
  domain :: string
  upstream :: string
  bypass :: "regex list"
  rate_limit :: RateLimitConfig

record Config =
  sites :: "Site list"
  global_rate_limit :: RateLimitConfig
  log :: LogConfig
  whitelist :: "ipaddr list"
  catchall :: "CatchallConfig option"
  catchall_bypass :: "regex list"
  port :: u16
  port_http :: "u16 option"
  cfg_session :: SessionConfig
  redis :: RedisConfig

subsection \<open>Host names\<close>

definition normalize_host :: "string \<Rightarrow> string" where
  "normalize_host host =
     to_ascii_lowercase (trim_end_matches (CHR ''.'')
       (case split_on (CHR '':'') host of [] \<Rightarrow> host | p # _ \<Rightarrow> p))"

definition site_for_host :: "Config \<Rightarrow> string \<Rightarrow> Site option" where
  "site_for_host self host =
     (let want = normalize_host host in find (\<lambda>s. domain s = want) (sites self))"

definition is_known_domain :: "Config \<Rightarrow> string \<Rightarrow> bool" where
  "is_known_domain self name =
     (let want = normalize_host name in list_ex (\<lambda>s. domain s = want) (sites self))"

subsection \<open>Expansion\<close>

definition quoted :: "string \<Rightarrow> string" where
  "quoted s = [CHR 0x27] @ s @ [CHR 0x27]"

type_synonym regex_new = "string \<Rightarrow> string + regex"

definition compile_bypass ::
  "regex_new \<Rightarrow> string \<Rightarrow> string list \<Rightarrow> string \<Rightarrow> regex list outcome" where
  "compile_bypass rx site_dom patterns path =
     map_outcome_list
       (\<lambda>p. case rx p of
              Inr r \<Rightarrow> Done r
            | Inl e \<Rightarrow> Panic (''config '' @ quoted path @ '': site '' @ quoted site_dom @ '': bad bypass regex '' @ quoted p @ '': '' @ e))
       patterns"

definition merge_rl :: "RateLimitConfig \<Rightarrow> RateLimitConfig \<Rightarrow> RateLimitConfig" where
  "merge_rl glob ovr =
     \<lparr>enabled = (enabled glob \<or> enabled ovr),
      rps = (if rps ovr > 0 then rps ovr else rps glob),
      rpm = (if rpm ovr > 0 then rpm ovr else rpm glob),
      burst = (if burst ovr > 0 then burst ovr else burst glob)\<rparr>"

definition effective_rl :: "RateLimitConfig \<Rightarrow> RateLimitConfig option \<Rightarrow> RateLimitConfig" where
  "effective_rl glob ov = (case ov of Some r \<Rightarrow> merge_rl glob r | None \<Rightarrow> glob)"

text \<open>The closure \<open>push\<close>: its captured state is the site list, in push order, and the set of names
  seen.\<close>

type_synonym expansion = "Site list \<times> string set"

definition push_site ::
  "string \<Rightarrow> string \<Rightarrow> string \<Rightarrow> regex list \<Rightarrow> RateLimitConfig \<Rightarrow> expansion \<Rightarrow> expansion outcome" where
  "push_site path dom0 ups bys rl st =
     (let site_dom = normalize_host dom0 in
      case st of (sts, seen) \<Rightarrow>
        if site_dom \<in> seen then Panic (''config '' @ quoted path @ '': duplicate site '' @ quoted site_dom)
        else Done (sts @ [\<lparr>domain = site_dom, upstream = ups, bypass = bys, rate_limit = rl\<rparr>],
                   insert site_dom seen))"

definition expand_sub ::
  "regex_new \<Rightarrow> string \<Rightarrow> RateLimitConfig \<Rightarrow> SiteToml \<Rightarrow> SubSiteToml \<Rightarrow> expansion \<Rightarrow> expansion outcome" where
  "expand_sub rx path glob s sub st =
     (let ups = unwrap_or (toml_upstream s) (sub_upstream sub) in
      if ups = [] then Done st
      else (let full = sub_name sub @ ''.'' @ toml_domain s in
        bind_outcome
          (case sub_bypass sub of
             Some ps \<Rightarrow> compile_bypass rx full ps path
           | None \<Rightarrow> compile_bypass rx full (toml_bypass s) path)
          (\<lambda>bys. push_site path full ups bys (effective_rl glob (sub_rate_limit sub)) st)))"

fun expand_subs ::
  "regex_new \<Rightarrow> string \<Rightarrow> RateLimitConfig \<Rightarrow> SiteToml \<Rightarrow> SubSiteToml list \<Rightarrow> expansion \<Rightarrow> expansion outcome" where
  "expand_subs rx path glob s [] st = Done st"
| "expand_subs rx path glob s (sub # subs) st =
     bind_outcome (expand_sub rx path glob s sub st) (expand_subs rx path glob s subs)"

definition expand_site ::
  "regex_new \<Rightarrow> string \<Rightarrow> RateLimitConfig \<Rightarrow> SiteToml \<Rightarrow> expansion \<Rightarrow> expansion outcome" where
  "expand_site rx path glob s st =
     bind_outcome
       (if toml_upstream s \<noteq> [] then
          bind_outcome (compile_bypass rx (toml_domain s) (toml_bypass s) path) (\<lambda>bys.
            push_site path (toml_domain s) (toml_upstream s) bys
              (effective_rl glob (toml_rate_limit s)) st)
        else Done st)
       (expand_subs rx path glob s (toml_sub s))"

fun expand_sites ::
  "regex_new \<Rightarrow> string \<Rightarrow> RateLimitConfig \<Rightarrow> SiteToml list \<Rightarrow> expansion \<Rightarrow> expansion outcome" where
  "expand_sites rx path glob [] st = Done st"
| "expand_sites rx path glob (s # ss) st =
     bind_outcome (expand_site rx path glob s st) (expand_sites rx path glob ss)"

definition compile_catchall :: "regex_new \<Rightarrow> CatchallConfig option \<Rightarrow> regex list outcome" where
  "compile_catchall rx ca =
     (case ca of
        None \<Rightarrow> Done []
      | Some c \<Rightarrow> map_outcome_list
          (\<lambda>p. case rx p of
                 Inr r \<Rightarrow> Done r
               | Inl e \<Rightarrow> Panic (''bad catchall bypass '' @ quoted p @ '': '' @ e))
          (catchall_patterns c))"

definition expand :: "regex_new \<Rightarrow> ConfigToml \<Rightarrow> string \<Rightarrow> Config outcome" where
  "expand rx raw path =
     bind_outcome (expand_sites rx path (toml_global_rl raw) (toml_sites raw) ([], {})) (\<lambda>(sts, _).
       if sts = [] then
         Panic (''config '' @ quoted path @ '': no usable sites '' @ [CHR 0xE2, CHR 0x80, CHR 0x94] @
                '' every [[sites]] entry needs a non-empty upstream'')
       else
         bind_outcome (compile_catchall rx (toml_catchall raw)) (\<lambda>cb.
           Done \<lparr>sites = sort_key domain sts,
                 global_rate_limit = toml_global_rl raw,
                 log = toml_log raw,
                 whitelist = List.map_filter ip_parse (toml_whitelist raw),
                 catchall = toml_catchall raw,
                 catchall_bypass = cb,
                 port = ng_port (toml_nekoguard raw),
                 port_http = ng_port_http (toml_nekoguard raw),
                 cfg_session = ng_session (toml_nekoguard raw),
                 redis = toml_redis raw\<rparr>))"

text \<open>\<open>CONFIG\<close>, evaluated on first use: the environment variable \<open>NG_CONFIG\<close>, the contents of the
  file it names, and the parser.\<close>

definition load_config ::
  "regex_new \<Rightarrow> string option \<Rightarrow> (string \<Rightarrow> string + string) \<Rightarrow> (string \<Rightarrow> string + ConfigToml_doc) \<Rightarrow>
   Config outcome" where
  "load_config rx env_path read_file toml_parse =
     (let path = unwrap_or DEFAULT_CONFIG_PATH env_path in
      case read_file path of
        Inl e \<Rightarrow> Panic (''failed to read config '' @ quoted path @ '': '' @ e)
      | Inr raw \<Rightarrow>
          (case toml_parse raw of
             Inl e \<Rightarrow> Panic (''failed to parse config '' @ quoted path @ '': '' @ e)
           | Inr doc \<Rightarrow> expand rx (de_ConfigToml doc) path))"

section \<open>Host names\<close>

lemma split_by_hd: "hd (split_by P s) = takeWhile (\<lambda>c. \<not> P c) s \<and> split_by P s \<noteq> []"
  by (induction s) (auto split: list.splits)

lemma normalize_host_eq:
  "normalize_host h =
     to_ascii_lowercase (trim_end_matches (CHR ''.'') (takeWhile (\<lambda>c. c \<noteq> CHR '':'') h))"
  using split_by_hd [of "\<lambda>c. c = CHR '':''" h]
  by (auto simp: normalize_host_def split_on_def split: list.splits)

lemma ascii_lower_punct [simp]:
  "ascii_lower c = CHR '':'' \<longleftrightarrow> c = CHR '':''" "ascii_lower c = CHR ''.'' \<longleftrightarrow> c = CHR ''.''"
proof -
  have "ascii_lower c = d \<longleftrightarrow> c = d" if "code d < 65" for d
    using that code_inject [of "ascii_lower c" d] code_inject [of c d]
    by (auto simp: ascii_lower_def split: if_splits)
  then show "ascii_lower c = CHR '':'' \<longleftrightarrow> c = CHR '':''" "ascii_lower c = CHR ''.'' \<longleftrightarrow> c = CHR ''.''"
    by (simp_all add: code_def)
qed

lemma dropWhile_map_lower:
  "dropWhile (\<lambda>c. c = CHR ''.'') (map ascii_lower s) = map ascii_lower (dropWhile (\<lambda>c. c = CHR ''.'') s)"
  by (induction s) auto

lemma set_trim_end_matches: "set (trim_end_matches d s) \<subseteq> set s"
  by (auto simp: trim_end_matches_def dest: set_dropWhileD)

lemma normalize_host_chars: "c \<in> set (normalize_host h) \<Longrightarrow> c \<noteq> CHR '':''"
proof -
  assume "c \<in> set (normalize_host h)"
  then obtain x where x: "c = ascii_lower x"
    "x \<in> set (trim_end_matches (CHR ''.'') (takeWhile (\<lambda>c. c \<noteq> CHR '':'') h))"
    by (auto simp: normalize_host_eq to_ascii_lowercase_def)
  then have "x \<in> set (takeWhile (\<lambda>c. c \<noteq> CHR '':'') h)"
    using set_trim_end_matches by blast
  then have "x \<noteq> CHR '':''" by (auto dest: set_takeWhileD)
  with x(1) show ?thesis by simp
qed

lemma trim_end_lower:
  "trim_end_matches (CHR ''.'') (to_ascii_lowercase s) =
     to_ascii_lowercase (trim_end_matches (CHR ''.'') s)"
  by (simp add: trim_end_matches_def to_ascii_lowercase_def rev_map dropWhile_map_lower)

lemma trim_end_idem [simp]: "trim_end_matches d (trim_end_matches d s) = trim_end_matches d s"
  by (simp add: trim_end_matches_def)

lemma normalize_host_idem [simp]: "normalize_host (normalize_host h) = normalize_host h"
proof -
  have "takeWhile (\<lambda>c. c \<noteq> CHR '':'') (normalize_host h) = normalize_host h"
    using normalize_host_chars by (auto simp: takeWhile_eq_all_conv)
  then have "normalize_host (normalize_host h) =
      to_ascii_lowercase (trim_end_matches (CHR ''.'') (normalize_host h))"
    using normalize_host_eq [of "normalize_host h"] by metis
  also have "\<dots> = normalize_host h"
    by (simp add: normalize_host_eq trim_end_lower)
  finally show ?thesis .
qed

section \<open>Expansion as one pass over a flat list\<close>

text \<open>
  The specification of \<open>expand\<close>: the configured names as a flat list of entries (name, upstream,
  bypass patterns, limits), the parent before its subdomains.
\<close>

type_synonym entry = "string \<times> string \<times> string list \<times> RateLimitConfig"

definition sub_entries :: "RateLimitConfig \<Rightarrow> SiteToml \<Rightarrow> SubSiteToml \<Rightarrow> entry list" where
  "sub_entries glob s sub =
     (let u = unwrap_or (toml_upstream s) (sub_upstream sub) in
      if u = [] then []
      else [(sub_name sub @ ''.'' @ toml_domain s, u, unwrap_or (toml_bypass s) (sub_bypass sub),
             effective_rl glob (sub_rate_limit sub))])"

definition site_entries :: "RateLimitConfig \<Rightarrow> SiteToml \<Rightarrow> entry list" where
  "site_entries glob s =
     (if toml_upstream s = [] then []
      else [(toml_domain s, toml_upstream s, toml_bypass s, effective_rl glob (toml_rate_limit s))]) @
     concat (map (sub_entries glob s) (toml_sub s))"

definition config_entries :: "ConfigToml \<Rightarrow> entry list" where
  "config_entries raw = concat (map (site_entries (toml_global_rl raw)) (toml_sites raw))"

definition compiles :: "regex_new \<Rightarrow> string list \<Rightarrow> bool" where
  "compiles rx ps = list_all (\<lambda>p. \<not> isl (rx p)) ps"

definition entry_site :: "regex_new \<Rightarrow> entry \<Rightarrow> Site" where
  "entry_site rx e =
     (case e of (d, u, ps, rl) \<Rightarrow>
        \<lparr>domain = normalize_host d, upstream = u, bypass = map (\<lambda>p. projr (rx p)) ps, rate_limit = rl\<rparr>)"

fun push_all :: "regex_new \<Rightarrow> string \<Rightarrow> entry list \<Rightarrow> expansion \<Rightarrow> expansion outcome" where
  "push_all rx path [] st = Done st"
| "push_all rx path ((d, u, ps, rl) # es) st =
     bind_outcome
       (bind_outcome (compile_bypass rx d ps path) (\<lambda>bys. push_site path d u bys rl st))
       (push_all rx path es)"

lemma push_all_append:
  "push_all rx path (es @ fs) st = bind_outcome (push_all rx path es st) (push_all rx path fs)"
  by (induction rx path es st rule: push_all.induct) (auto simp: bind_outcome_assoc intro!: bind_outcome_ext)

lemma push_all_single [simp]:
  "push_all rx path [(d, u, ps, rl)] st =
     bind_outcome (compile_bypass rx d ps path) (\<lambda>bys. push_site path d u bys rl st)"
proof -
  have "push_all rx path [] = Done" by (rule ext) simp
  then show ?thesis by simp
qed

lemma expand_sub_push_all:
  "expand_sub rx path glob s sub st = push_all rx path (sub_entries glob s sub) st"
  by (simp add: expand_sub_def sub_entries_def Let_def unwrap_or_def split: option.splits
      del: push_all.simps(2))

lemma expand_subs_push_all:
  "expand_subs rx path glob s subs st =
     push_all rx path (concat (map (sub_entries glob s) subs)) st"
  by (induction subs arbitrary: st) (auto simp: expand_sub_push_all push_all_append intro!: bind_outcome_ext)

lemma expand_site_push_all:
  "expand_site rx path glob s st = push_all rx path (site_entries glob s) st"
  by (auto simp: expand_site_def site_entries_def expand_subs_push_all intro!: bind_outcome_ext)

lemma expand_sites_push_all:
  "expand_sites rx path glob ss st = push_all rx path (concat (map (site_entries glob) ss)) st"
  by (induction ss arbitrary: st) (auto simp: expand_site_push_all push_all_append intro!: bind_outcome_ext)

lemma compile_all_eq:
  fixes rx :: regex_new
  shows "compiles rx ps \<Longrightarrow>
         map_outcome_list (\<lambda>p. case rx p of Inr r \<Rightarrow> Done r | Inl e \<Rightarrow> Panic (msg p e)) ps =
           Done (map (\<lambda>p. projr (rx p)) ps)"
  by (induction ps) (auto simp: compiles_def split: sum.splits)

lemma compile_all_Done:
  fixes rx :: regex_new
  shows "map_outcome_list (\<lambda>p. case rx p of Inr r \<Rightarrow> Done r | Inl e \<Rightarrow> Panic (msg p e)) ps = Done bys \<Longrightarrow>
         compiles rx ps \<and> bys = map (\<lambda>p. projr (rx p)) ps"
  by (induction ps arbitrary: bys) (auto simp: compiles_def bind_outcome_Done split: sum.splits)

lemma compile_bypass_Done:
  "compile_bypass rx d ps path = Done bys \<longleftrightarrow> compiles rx ps \<and> bys = map (\<lambda>p. projr (rx p)) ps"
  unfolding compile_bypass_def
  by (auto simp: compile_all_eq dest: compile_all_Done)

lemma push_all_Done:
  "push_all rx path es (sts, seen) = Done st' \<longleftrightarrow>
     distinct (map (normalize_host \<circ> fst) es) \<and> (normalize_host \<circ> fst) ` set es \<inter> seen = {} \<and>
     (\<forall>(d, u, ps, rl) \<in> set es. compiles rx ps) \<and>
     st' = (sts @ map (entry_site rx) es, seen \<union> (normalize_host \<circ> fst) ` set es)"
proof (induction es arbitrary: sts seen)
  case Nil
  then show ?case by auto
next
  case (Cons e es)
  obtain d u ps rl where e: "e = (d, u, ps, rl)" by (cases e)
  show ?case
    unfolding e
    by (auto simp: bind_outcome_Done compile_bypass_Done push_site_def Let_def Cons.IH entry_site_def)
qed

lemma entries_upstream: "(d, u, ps, rl) \<in> set (config_entries raw) \<Longrightarrow> u \<noteq> []"
  by (auto simp: config_entries_def site_entries_def sub_entries_def Let_def split: if_splits)

lemma compile_catchall_Done:
  "compile_catchall rx ca = Done cb \<longleftrightarrow>
     (case ca of None \<Rightarrow> cb = []
      | Some c \<Rightarrow> compiles rx (catchall_patterns c) \<and> cb = map (\<lambda>p. projr (rx p)) (catchall_patterns c))"
  unfolding compile_catchall_def
  by (cases ca) (auto simp: compile_all_eq dest: compile_all_Done)

lemma expand_Done:
  "expand rx raw path = Done c \<longleftrightarrow>
     config_entries raw \<noteq> [] \<and> distinct (map (normalize_host \<circ> fst) (config_entries raw)) \<and>
     (\<forall>(d, u, ps, rl) \<in> set (config_entries raw). compiles rx ps) \<and>
     compile_catchall rx (toml_catchall raw) = Done (catchall_bypass c) \<and>
     c = \<lparr>sites = sort_key domain (map (entry_site rx) (config_entries raw)),
          global_rate_limit = toml_global_rl raw, log = toml_log raw,
          whitelist = List.map_filter ip_parse (toml_whitelist raw), catchall = toml_catchall raw,
          catchall_bypass = catchall_bypass c, port = ng_port (toml_nekoguard raw),
          port_http = ng_port_http (toml_nekoguard raw), cfg_session = ng_session (toml_nekoguard raw),
          redis = toml_redis raw\<rparr>"
  unfolding expand_def expand_sites_push_all config_entries_def [symmetric]
  by (auto simp: bind_outcome_Done push_all_Done split: if_splits)

section \<open>Lookup\<close>

text \<open>The invariant of a loaded configuration.\<close>

definition wf_config :: "Config \<Rightarrow> bool" where
  "wf_config c \<longleftrightarrow>
     sites c \<noteq> [] \<and> sorted (map domain (sites c)) \<and> distinct (map domain (sites c)) \<and>
     list_all (\<lambda>s. normalize_host (domain s) = domain s \<and> upstream s \<noteq> []) (sites c)"

lemma wf_expand [wf_intros]:
  assumes "expand rx raw path = Done c"
  shows "wf_config c"
proof -
  from assms have e: "config_entries raw \<noteq> []" "distinct (map (normalize_host \<circ> fst) (config_entries raw))"
    "sites c = sort_key domain (map (entry_site rx) (config_entries raw))"
    by (auto simp: expand_Done) (metis Config.select_convs(1))
  have "domain \<circ> entry_site rx = normalize_host \<circ> fst"
    by (auto simp: entry_site_def fun_eq_iff)
  then have "distinct (map domain (map (entry_site rx) (config_entries raw)))"
    using e(2) by simp
  then have "distinct (map domain (sites c))"
    unfolding e(3) by (auto simp: distinct_map intro: inj_on_imageI inj_on_imageI2)
  moreover have "sites c \<noteq> []"
    using e(1) arg_cong [OF e(3), of set] by auto
  ultimately show ?thesis
    using entries_upstream e(3)
    by (fastforce simp: wf_config_def list_all_iff entry_site_def)
qed

lemma site_for_host_iff:
  assumes "wf_config c"
  shows "site_for_host c h = Some s \<longleftrightarrow> s \<in> set (sites c) \<and> domain s = normalize_host h"
proof
  assume "site_for_host c h = Some s"
  then show "s \<in> set (sites c) \<and> domain s = normalize_host h"
    by (auto simp: site_for_host_def Let_def find_Some_iff)
next
  assume s: "s \<in> set (sites c) \<and> domain s = normalize_host h"
  then obtain t where t: "site_for_host c h = Some t"
    by (cases "site_for_host c h") (auto simp: site_for_host_def Let_def find_None_iff)
  then have "t \<in> set (sites c) \<and> domain t = normalize_host h"
    by (auto simp: site_for_host_def Let_def find_Some_iff)
  with s assms have "t = s"
    by (auto simp: wf_config_def distinct_map inj_on_def)
  with t show "site_for_host c h = Some s" by simp
qed

lemma is_known_domain_iff: "is_known_domain c h \<longleftrightarrow> site_for_host c h \<noteq> None"
  by (auto simp: is_known_domain_def site_for_host_def Let_def find_None_iff list_ex_iff)

lemma entry_of_site:
  assumes "expand rx raw path = Done c"
  shows "s \<in> set (sites c) \<longleftrightarrow> s \<in> entry_site rx ` set (config_entries raw)"
proof -
  have "sites c = sort_key domain (map (entry_site rx) (config_entries raw))"
    using assms by (auto simp: expand_Done) (metis Config.select_convs(1))
  then show ?thesis by simp
qed

text \<open>A file with one site, an alias that inherits the upstream, and a subdomain that is switched off.\<close>

definition sample_toml :: ConfigToml where
  "sample_toml = de_ConfigToml
     \<lparr>doc_sites = Some
        [\<lparr>doc_domain = ''Ex.org'', doc_upstream = Some ''http://a:80'', doc_bypass = Some [''^/api''],
          doc_rate_limit = None,
          doc_sub = Some
            [\<lparr>doc_sub_name = ''www'', doc_sub_upstream = None, doc_sub_bypass = None,
              doc_sub_rate_limit = None\<rparr>,
             \<lparr>doc_sub_name = ''off'', doc_sub_upstream = Some '''', doc_sub_bypass = None,
              doc_sub_rate_limit = None\<rparr>]\<rparr>],
      doc_redis = None, doc_global_rl = None, doc_log = None,
      doc_whitelist = Some [''::1'', ''no address''], doc_catchall = None, doc_nekoguard = None,
      doc_certd = None\<rparr>"

definition any_regex :: regex_new where
  "any_regex p = Inr (\<lambda>s. True)"

lemma sample_entries:
  "config_entries sample_toml =
     [(''Ex.org'', ''http://a:80'', [''^/api''], default_RateLimitConfig),
      (''www.Ex.org'', ''http://a:80'', [''^/api''], default_RateLimitConfig)]"
  by code_simp

lemma sample_expands: "\<exists>c. expand any_regex sample_toml ''p'' = Done c"
proof -
  have "distinct (map (normalize_host \<circ> fst) (config_entries sample_toml))"
    unfolding sample_entries by code_simp
  moreover have "compile_catchall any_regex (toml_catchall sample_toml) = Done []"
    by (simp add: compile_catchall_def sample_toml_def de_ConfigToml_def)
  ultimately show ?thesis
    unfolding expand_Done
    by (intro exI [where x = "\<lparr>sites = sort_key domain (map (entry_site any_regex) (config_entries sample_toml)),
          global_rate_limit = toml_global_rl sample_toml, log = toml_log sample_toml,
          whitelist = List.map_filter ip_parse (toml_whitelist sample_toml),
          catchall = toml_catchall sample_toml,
          catchall_bypass = [], port = ng_port (toml_nekoguard sample_toml),
          port_http = ng_port_http (toml_nekoguard sample_toml),
          cfg_session = ng_session (toml_nekoguard sample_toml),
          redis = toml_redis sample_toml\<rparr>"])
      (simp add: sample_entries compiles_def any_regex_def)
qed

section \<open>Properties\<close>

text \<open>
  C33. \<open>expand\<close> starts the server exactly when the file names at least one site with an upstream, no
  two names agree after normalisation, and every bypass pattern compiles; otherwise it panics.
\<close>

theorem expand_correct:
  "(\<exists>c. expand rx raw path = Done c) \<longleftrightarrow>
     config_entries raw \<noteq> [] \<and> distinct (map (normalize_host \<circ> fst) (config_entries raw)) \<and>
     list_all (\<lambda>(d, u, ps, rl). compiles rx ps) (config_entries raw) \<and>
     (case toml_catchall raw of None \<Rightarrow> True | Some c \<Rightarrow> compiles rx (catchall_patterns c))"
  (is "?lhs \<longleftrightarrow> ?rhs")
proof
  show ?rhs if ?lhs
    using that by (auto simp: expand_Done list_all_iff compile_catchall_Done split: option.splits)
next
  assume r: ?rhs
  then obtain cb where cb: "compile_catchall rx (toml_catchall raw) = Done cb"
    by (auto simp: compile_catchall_Done split: option.splits)
  from r obtain st where "expand_sites rx path (toml_global_rl raw) (toml_sites raw) ([], {}) = Done st"
      "fst st \<noteq> []"
    by (auto simp: expand_sites_push_all push_all_Done config_entries_def [symmetric] list_all_iff)
  then show ?lhs
    using cb by (cases st) (simp add: expand_def)
qed



text \<open>
  Leaving out a whole table is not the same as leaving out its fields: without \<open>[nekoguard]\<close> the
  listener port is 0 and not 443, without \<open>[redis]\<close> the URL is empty, and without \<open>[log]\<close> the level is
  empty and the log file is never truncated, while an empty table gives the documented defaults.
\<close>

theorem missing_tables:
  "ng_port (toml_nekoguard (de_ConfigToml (d\<lparr>doc_nekoguard := None\<rparr>))) = 0 \<and>
   redis_url (toml_redis (de_ConfigToml (d\<lparr>doc_redis := None\<rparr>))) = '''' \<and>
   toml_log (de_ConfigToml (d\<lparr>doc_log := None\<rparr>)) =
     \<lparr>level = '''', log_file = None, max_size = 0, requests = False\<rparr> \<and>
   ng_port (de_NekoguardSub
     \<lparr>doc_port = None, doc_port_http = None, doc_ng_whitelist = None, doc_session = None,
      doc_ng_catchall = None\<rparr>) = 443 \<and>
   redis_url (toml_redis (de_ConfigToml (d\<lparr>doc_redis := Some None\<rparr>))) = ''redis://127.0.0.1:6379'' \<and>
   de_LogConfig \<lparr>doc_level = None, doc_file = None, doc_max_size = None, doc_requests = None\<rparr> =
     \<lparr>level = ''info'', log_file = None, max_size = 10485760, requests = True\<rparr>"
  by (simp add: de_ConfigToml_def default_NekoguardSub_def default_RedisConfig_def de_RedisConfig_def
      default_LogConfig_def de_LogConfig_def de_NekoguardSub_def default_port_def DEFAULT_PORT_def
      unwrap_or_def default_redis_url_def default_log_level_def default_max_size_def)

text \<open>The white list and the catch-all of the \<open>[nekoguard]\<close> table are read and then dropped.\<close>

lemma nekoguard_lists_ignored:
  "expand rx (raw\<lparr>toml_nekoguard := (toml_nekoguard raw)\<lparr>ng_whitelist := w, ng_catchall := ca\<rparr>\<rparr>) path =
   expand rx raw path"
  unfolding expand_def by (simp, intro bind_outcome_ext) (auto split: prod.splits)

text \<open>A per-site table that leaves a field out does not inherit the global value of that field.\<close>

lemma override_not_inherited:
  "doc_rps d = None \<Longrightarrow> rps (effective_rl glob (Some (de_RateLimitConfig d))) = 10"
  "doc_rpm d = None \<Longrightarrow> rpm (effective_rl glob (Some (de_RateLimitConfig d))) = 600"
  "doc_burst d = None \<Longrightarrow> burst (effective_rl glob (Some (de_RateLimitConfig d))) = 20"
  by (simp_all add: effective_rl_def merge_rl_def de_RateLimitConfig_def unwrap_or_def
      default_rps_def default_rpm_def default_burst_def)

end
