(* ===== verification/Embed_Cache.thy ===== *)
theory Embed_Cache
  imports Embed_Scrape Http_Lib Site_Config "HOL-Library.Countable"
begin

text \<open>
  The two cache tiers and the fetching of \<open>nekoguard/src/embed.rs\<close>: \<open>load\<close>, \<open>fetch\<close>, \<open>favicon\<close> and
  \<open>inline_into\<close> with everything they call. Redis, the JSON codec, SHA-256, the hexadecimal and base64
  codecs and the HTTP crates are parameters, collected in \<open>embed_env\<close>. Instants are nanoseconds of the
  monotonic clock; \<open>clk i\<close> is the \<open>i\<close>-th reading that a call makes. A timeout of a request or of a body
  is a failed request or chunk.
\<close>

section \<open>Definitions\<close>

subsection \<open>State and environment\<close>

definition CACHE_TTL :: nat where "CACHE_TTL = 300"

definition secs :: "nat \<Rightarrow> nat" where "secs n = n * 1000000000"

record CachedMeta =
  c_title :: "string option"
  c_tags :: "string list"
  c_icon :: "string option"
  c_icon_mime :: "string option"

record Cached =
  c_meta :: Meta
  fetched :: nat

record ('h, 'r) embed_env =
  e_http :: "'h http_lib"
  e_regex :: head_regexes
  e_net :: "'h net"
  e_sha :: "string \<Rightarrow> u8 list"
  e_hex :: "u8 list \<Rightarrow> string"
  e_b64 :: "string \<Rightarrow> string option"
  e_get :: "string \<Rightarrow> 'r \<Rightarrow> string option option \<times> 'r"
  e_set_ex :: "string \<Rightarrow> string \<Rightarrow> nat \<Rightarrow> 'r \<Rightarrow> bool \<times> 'r"
  e_to_json :: "CachedMeta \<Rightarrow> string option"
  e_from_json :: "string \<Rightarrow> CachedMeta option"

record ('h, 'r) embed_state =
  local_tier :: "string \<rightharpoonup> Cached"
  inflight :: "string set"
  e_redis :: 'r
  sent :: "'h Request list"

subsection \<open>Keys and entries\<close>

definition path_digest :: "('h, 'r) embed_env \<Rightarrow> string \<Rightarrow> string" where
  "path_digest E path = e_hex E (take 8 (e_sha E path))"

definition cache_key :: "('h, 'r) embed_env \<Rightarrow> string \<Rightarrow> string \<Rightarrow> string" where
  "cache_key E host path0 =
     (let path = normalize_path path0 in
      if path = ''/'' then ''nekoguard:embed:'' @ host
      else ''nekoguard:embed:'' @ host @ '':p:'' @ path_digest E path)"

definition cached_of_meta :: "Meta \<Rightarrow> CachedMeta" where
  "cached_of_meta meta =
     (case m_icon meta of
        Some (bytes, mime) \<Rightarrow>
          \<lparr>c_title = m_title meta, c_tags = m_tags meta, c_icon = Some bytes, c_icon_mime = Some mime\<rparr>
      | None \<Rightarrow>
          \<lparr>c_title = m_title meta, c_tags = m_tags meta, c_icon = None, c_icon_mime = None\<rparr>)"

definition into_meta :: "CachedMeta \<Rightarrow> Meta" where
  "into_meta self =
     \<lparr>m_title = c_title self, m_tags = c_tags self, m_icon_url = None,
      m_icon = (case (c_icon self, c_icon_mime self) of
          (Some bytes, Some mime) \<Rightarrow> map_option (\<lambda>m. (bytes, m)) (icon_mime mime)
        | _ \<Rightarrow> None)\<rparr>"

definition redis_get ::
  "('h, 'r) embed_env \<Rightarrow> string \<Rightarrow> string \<Rightarrow> ('h, 'r) embed_state \<Rightarrow> Meta option \<times> ('h, 'r) embed_state" where
  "redis_get E host path st =
     (case e_get E (cache_key E host path) (e_redis st) of (reply, r) \<Rightarrow>
        (case reply of
           Some (Some raw) \<Rightarrow> map_option into_meta (e_from_json E raw)
         | _ \<Rightarrow> None,
         st\<lparr>e_redis := r\<rparr>))"

definition redis_set ::
  "('h, 'r) embed_env \<Rightarrow> string \<Rightarrow> string \<Rightarrow> Meta \<Rightarrow> ('h, 'r) embed_state \<Rightarrow> ('h, 'r) embed_state" where
  "redis_set E host path meta st =
     (case e_to_json E (cached_of_meta meta) of
        None \<Rightarrow> st
      | Some payload \<Rightarrow>
          st\<lparr>e_redis := snd (e_set_ex E (cache_key E host path) payload CACHE_TTL (e_redis st))\<rparr>)"

definition local_get ::
  "('h, 'r) embed_env \<Rightarrow> nat \<Rightarrow> string \<Rightarrow> string \<Rightarrow> ('h, 'r) embed_state \<Rightarrow> Meta option \<times> ('h, 'r) embed_state" where
  "local_get E now host path st =
     (let k = cache_key E host path in
      case local_tier st k of
        Some entry \<Rightarrow>
          if now - fetched entry < secs CACHE_TTL then (Some (c_meta entry), st)
          else (None, st\<lparr>local_tier := (local_tier st)(k := None)\<rparr>)
      | None \<Rightarrow> (None, st))"

definition local_put ::
  "('h, 'r) embed_env \<Rightarrow> nat \<Rightarrow> string \<Rightarrow> string \<Rightarrow> Meta \<Rightarrow> ('h, 'r) embed_state \<Rightarrow> ('h, 'r) embed_state" where
  "local_put E now host path meta st =
     st\<lparr>local_tier := (local_tier st)(cache_key E host path \<mapsto> \<lparr>c_meta = meta, fetched = now\<rparr>)\<rparr>"

definition inflight_lock ::
  "('h, 'r) embed_env \<Rightarrow> string \<Rightarrow> string \<Rightarrow> ('h, 'r) embed_state \<Rightarrow> ('h, 'r) embed_state" where
  "inflight_lock E host path st = st\<lparr>inflight := insert (cache_key E host path) (inflight st)\<rparr>"

subsection \<open>Fetching\<close>

definition build_get :: "'h http_lib \<Rightarrow> string \<Rightarrow> string \<Rightarrow> string \<Rightarrow> 'h Request option" where
  "build_get H host ups path =
     (case parse_uri H ups of
        None \<Rightarrow> None
      | Some up \<Rightarrow>
          (case authority up of
             None \<Rightarrow> None
           | Some auth \<Rightarrow>
               (let scheme = unwrap_or ''https'' (scheme_str up) in
                case parse_uri H (scheme @ ''://'' @ auth @ path) of
                  None \<Rightarrow> None
                | Some uri \<Rightarrow>
                    (let h1 = hm_append H ''cache-control'' ''no-cache'' (hm_empty H);
                         h2 = (case from_str H host of
                            None \<Rightarrow> h1
                          | Some public \<Rightarrow>
                              hm_append H ''x-forwarded-host'' public
                                (hm_append H ''x-forwarded-proto'' ''https'' (hm_append H ''host'' public h1)))
                     in Some \<lparr>req_method = ''GET'', req_uri = uri, req_headers = h2, req_body = []\<rparr>))))"

definition embed_is_html :: "'h http_lib \<Rightarrow> string option \<Rightarrow> bool" where
  "embed_is_html H content_type =
     (let ct = to_ascii_lowercase (trim (unwrap_or '''' (Option.bind content_type (to_str H)))) in
      starts_with ''text/html'' ct \<or> starts_with ''application/xhtml+xml'' ct)"

primrec fetch_loop ::
  "nat \<Rightarrow> ('h, 'r) embed_env \<Rightarrow> string \<Rightarrow> string \<Rightarrow> string \<Rightarrow> ('h, 'r) embed_state \<Rightarrow> string option \<times> ('h, 'r) embed_state" where
  "fetch_loop 0 E host ups path st = (None, st)"
| "fetch_loop (Suc n) E host ups path st =
     (case build_get (e_http E) host ups path of
        None \<Rightarrow> (None, st)
      | Some req \<Rightarrow>
          (case client_request (e_net E) req (sent st) of (reply, tr) \<Rightarrow>
             let st' = st\<lparr>sent := tr\<rparr> in
             case reply of
               None \<Rightarrow> (None, st')
             | Some resp \<Rightarrow>
                 if 300 \<le> status resp \<and> status resp < 400 then
                   (case get_str (e_http E) (headers resp) ''location'' of
                      None \<Rightarrow> (None, st')
                    | Some location \<Rightarrow>
                        (case same_origin_path location host of
                           None \<Rightarrow> (None, st')
                         | Some path' \<Rightarrow> fetch_loop n E host ups path' st'))
                 else if status resp \<noteq> 200 then (None, st')
                 else if \<not> embed_is_html (e_http E) (hm_get (e_http E) (headers resp) ''content-type'')
                   then (None, st')
                 else (read_head (body resp), st')))"

definition fetch_html ::
  "('h, 'r) embed_env \<Rightarrow> string \<Rightarrow> string \<Rightarrow> string \<Rightarrow> ('h, 'r) embed_state \<Rightarrow> string option \<times> ('h, 'r) embed_state" where
  "fetch_html E host ups path st = fetch_loop MAX_HOPS E host ups (normalize_path path) st"

definition fetch_icon ::
  "('h, 'r) embed_env \<Rightarrow> string \<Rightarrow> string \<Rightarrow> string \<Rightarrow> ('h, 'r) embed_state \<Rightarrow>
   (string \<times> string) option \<times> ('h, 'r) embed_state" where
  "fetch_icon E host ups url st =
     (case strip_prefix ''data:'' url of
        Some rest \<Rightarrow> (decode_data_uri (e_b64 E) rest, st)
      | None \<Rightarrow>
          (case Option.bind (same_origin_path url host) (build_get (e_http E) host ups) of
             None \<Rightarrow> (None, st)
           | Some req \<Rightarrow>
               (case client_request (e_net E) req (sent st) of (reply, tr) \<Rightarrow>
                  (case reply of
                     None \<Rightarrow> None
                   | Some resp \<Rightarrow>
                       if status resp \<noteq> 200 then None
                       else (case icon_mime (unwrap_or '''' (get_str (e_http E) (headers resp) ''content-type'')) of
                          None \<Rightarrow> None
                        | Some mime \<Rightarrow> map_option (\<lambda>b. (b, mime)) (collect_limited MAX_ICON (body resp))),
                   st\<lparr>sent := tr\<rparr>))))"

definition fetch ::
  "('h, 'r) embed_env \<Rightarrow> string \<Rightarrow> string \<Rightarrow> string \<Rightarrow> ('h, 'r) embed_state \<Rightarrow> Meta option \<times> ('h, 'r) embed_state" where
  "fetch E host ups path st =
     (case fetch_html E host ups path st of
        (None, st1) \<Rightarrow> (None, st1)
      | (Some document, st1) \<Rightarrow>
          (let meta = scrape (e_regex E) document in
           case m_icon_url meta of
             None \<Rightarrow> (Some meta, st1)
           | Some url \<Rightarrow>
               (let meta' = meta\<lparr>m_icon_url := None\<rparr> in
                case fetch_icon E host ups url st1 of
                  (Some icon, st2) \<Rightarrow> (Some (meta'\<lparr>m_icon := Some icon\<rparr>), st2)
                | (None, st2) \<Rightarrow> (Some meta', st2))))"

subsection \<open>Loading\<close>

text \<open>The read-through of both tiers, which \<open>load\<close> does before and again after taking the lock.\<close>

definition lookup ::
  "('h, 'r) embed_env \<Rightarrow> nat \<Rightarrow> nat \<Rightarrow> string \<Rightarrow> string \<Rightarrow> bool \<Rightarrow> ('h, 'r) embed_state \<Rightarrow>
   Meta option \<times> ('h, 'r) embed_state" where
  "lookup E t t' host path ctx st =
     (case local_get E t host path st of
        (Some meta, st1) \<Rightarrow> (Some meta, st1)
      | (None, st1) \<Rightarrow>
          if \<not> ctx then (None, st1)
          else (case redis_get E host path st1 of
             (Some meta, st2) \<Rightarrow> (Some meta, local_put E t' host path meta st2)
           | (None, st2) \<Rightarrow> (None, st2)))"

definition load ::
  "('h, 'r) embed_env \<Rightarrow> (nat \<Rightarrow> nat) \<Rightarrow> string \<Rightarrow> string \<Rightarrow> bool \<Rightarrow> string \<Rightarrow> bool \<Rightarrow>
   ('h, 'r) embed_state \<Rightarrow> Meta option \<times> ('h, 'r) embed_state" where
  "load E clk host path0 ctx ups fetch_on_miss st =
     (let path = normalize_path path0 in
      case lookup E (clk 0) (clk 1) host path ctx st of
        (Some meta, st1) \<Rightarrow> (Some meta, st1)
      | (None, st1) \<Rightarrow>
          if \<not> fetch_on_miss then (None, st1)
          else (case lookup E (clk 2) (clk 3) host path ctx (inflight_lock E host path st1) of
             (Some meta, st2) \<Rightarrow> (Some meta, st2)
           | (None, st2) \<Rightarrow>
               (case fetch E host ups path st2 of
                  (None, st3) \<Rightarrow> (None, st3)
                | (Some meta, st3) \<Rightarrow>
                    (let st4 = local_put E (clk 4) host path meta st3
                     in (Some meta, if ctx then redis_set E host path meta st4 else st4)))))"

definition favicon ::
  "('h, 'r) embed_env \<Rightarrow> (nat \<Rightarrow> nat) \<Rightarrow> string \<Rightarrow> string \<Rightarrow> string \<Rightarrow> bool \<Rightarrow>
   ('h, 'r) embed_state \<Rightarrow> (string \<times> string) option \<times> ('h, 'r) embed_state" where
  "favicon E clk host0 ups path0 ctx st =
     (let host = normalize_host host0; path = normalize_path path0 in
      case load E clk host path ctx ups False st of
        (m1, st1) \<Rightarrow>
          (case Option.bind m1 m_icon of
             Some icon \<Rightarrow> (Some icon, st1)
           | None \<Rightarrow>
               if path \<noteq> ''/'' then
                 (case load E (\<lambda>i. clk (i + 5)) host ''/'' ctx ups False st1 of
                    (m2, st2) \<Rightarrow> (Option.bind m2 m_icon, st2))
               else (None, st1)))"

definition inline_into ::
  "('h, 'r) embed_env \<Rightarrow> (nat \<Rightarrow> nat) \<Rightarrow> string \<Rightarrow> bool \<Rightarrow> string \<Rightarrow> string \<Rightarrow> string \<Rightarrow>
   ('h, 'r) embed_state \<Rightarrow> string \<times> ('h, 'r) embed_state" where
  "inline_into E clk page ctx host0 ups path st =
     (let host = normalize_host host0 in
      case load E clk host path ctx ups True st of
        (meta, st1) \<Rightarrow> (inline_meta (e_regex E) page host meta, st1))"

subsection \<open>Single flight\<close>

text \<open>
  The visitors of one instance that load the same key, interleaved at the await points of \<open>load\<close>:
  \<open>cached\<close> stands for the two tiers, \<open>holder\<close> for the task that holds the per-key lock, and the
  counters record how often an origin fetch was begun, how often one failed and how often an entry
  expired. Another replica may fill the cache at any time.
\<close>

datatype task = Arrived | Waiting | Locked | Fetching | Finished "Meta option"

record flight =
  cached :: "Meta option"
  holder :: "nat option"
  task_of :: "nat \<Rightarrow> task"
  begun :: nat
  failed :: nat
  expired :: nat

inductive flight_step :: "flight \<Rightarrow> flight \<Rightarrow> bool" where
  hit: "task_of f i = Arrived \<Longrightarrow> cached f = Some m \<Longrightarrow>
    flight_step f (f\<lparr>task_of := (task_of f)(i := Finished (Some m))\<rparr>)"
| miss: "task_of f i = Arrived \<Longrightarrow> cached f = None \<Longrightarrow>
    flight_step f (f\<lparr>task_of := (task_of f)(i := Waiting)\<rparr>)"
| acquire: "task_of f i = Waiting \<Longrightarrow> holder f = None \<Longrightarrow>
    flight_step f (f\<lparr>holder := Some i, task_of := (task_of f)(i := Locked)\<rparr>)"
| peer_done: "task_of f i = Locked \<Longrightarrow> cached f = Some m \<Longrightarrow>
    flight_step f (f\<lparr>holder := None, task_of := (task_of f)(i := Finished (Some m))\<rparr>)"
| begin_fetch: "task_of f i = Locked \<Longrightarrow> cached f = None \<Longrightarrow>
    flight_step f (f\<lparr>begun := Suc (begun f), task_of := (task_of f)(i := Fetching)\<rparr>)"
| fetch_ok: "task_of f i = Fetching \<Longrightarrow>
    flight_step f (f\<lparr>cached := Some m, holder := None, task_of := (task_of f)(i := Finished (Some m))\<rparr>)"
| fetch_failed: "task_of f i = Fetching \<Longrightarrow>
    flight_step f (f\<lparr>failed := Suc (failed f), holder := None, task_of := (task_of f)(i := Finished None)\<rparr>)"
| expire: "cached f = Some m \<Longrightarrow> flight_step f (f\<lparr>cached := None, expired := Suc (expired f)\<rparr>)"
| other_replica: "flight_step f (f\<lparr>cached := Some m\<rparr>)"

definition flight_start :: "flight \<Rightarrow> bool" where
  "flight_start f \<longleftrightarrow>
     cached f = None \<and> holder f = None \<and> task_of f = (\<lambda>_. Arrived) \<and> begun f = 0 \<and> failed f = 0 \<and> expired f = 0"

section \<open>Requests stay on the origin\<close>

text \<open>A request the cache may send: a GET for a path of the configured upstream.\<close>

definition on_origin :: "'h http_lib \<Rightarrow> string \<Rightarrow> string \<Rightarrow> 'h Request \<Rightarrow> bool" where
  "on_origin H host ups req \<longleftrightarrow>
     (\<exists>path. (prefix ''/'' path \<or> path = ''?'') \<and> build_get H host ups path = Some req)"

text \<open>What a call may change of the state besides the caches: it sends at most \<open>n\<close> such requests.\<close>

definition sends :: "('h, 'r) embed_env \<Rightarrow> string \<Rightarrow> string \<Rightarrow> nat \<Rightarrow> ('h, 'r) embed_state \<Rightarrow> ('h, 'r) embed_state \<Rightarrow> bool" where
  "sends E host ups n st st' \<longleftrightarrow>
     (\<exists>new. sent st' = sent st @ new \<and> length new \<le> n \<and> list_all (on_origin (e_http E) host ups) new)"

lemma sends_refl: "sent st' = sent st \<Longrightarrow> sends E host ups n st st'"
  by (simp add: sends_def)

lemma sends_trans:
  assumes "sends E host ups a st st1" and "sends E host ups b st1 st2" and "a + b \<le> n"
  shows "sends E host ups n st st2"
proof -
  obtain x y where "sent st1 = sent st @ x" "length x \<le> a" "list_all (on_origin (e_http E) host ups) x"
    "sent st2 = sent st1 @ y" "length y \<le> b" "list_all (on_origin (e_http E) host ups) y"
    using assms(1,2) by (auto simp: sends_def)
  with assms(3) show ?thesis
    unfolding sends_def by (intro exI [of _ "x @ y"]) auto
qed

lemma same_origin_path_slash: "same_origin_path u host = Some p \<Longrightarrow> prefix ''/'' p \<or> p = ''?''"
  by (auto simp: same_origin_path_eq Let_def split: option.splits if_splits)

lemma fetch_loop_sends:
  "prefix ''/'' path \<or> path = ''?'' \<Longrightarrow> sends E host ups n st (snd (fetch_loop n E host ups path st))"
proof (induction n arbitrary: path st)
  case 0
  then show ?case by (simp add: sends_refl)
next
  case (Suc n)
  show ?case
  proof (cases "build_get (e_http E) host ups path")
    case None
    then show ?thesis by (simp add: sends_refl)
  next
    case (Some req)
    let ?st = "st\<lparr>sent := sent st @ [req]\<rparr>"
    have one: "sends E host ups 1 st ?st"
      using Suc.prems Some by (auto simp: sends_def on_origin_def)
    have rest: "sends E host ups n ?st (snd (fetch_loop n E host ups p ?st))"
      if "same_origin_path l host = Some p" for l p
      using Suc.IH same_origin_path_slash [OF that] by blast
    have "sends E host ups (Suc n) st ?st"
      using sends_trans [OF one, of 0 ?st] by (simp add: sends_refl)
    moreover have "sends E host ups (Suc n) st (snd (fetch_loop n E host ups p ?st))"
      if "same_origin_path l host = Some p" for l p
      using sends_trans [OF one rest [OF that]] by simp
    ultimately show ?thesis
      using Some by (auto simp: client_request_def Let_def split: option.splits)
  qed
qed

lemma fetch_icon_sends: "sends E host ups 1 st (snd (fetch_icon E host ups u st))"
proof (cases "strip_prefix ''data:'' u")
  case (Some r)
  then show ?thesis by (simp add: fetch_icon_def sends_refl)
next
  case None
  then show ?thesis
    using same_origin_path_slash [of u host]
    by (cases "same_origin_path u host")
      (auto simp: fetch_icon_def client_request_def sends_def on_origin_def split: option.splits prod.splits)
qed

lemma fetch_sends: "sends E host ups 4 st (snd (fetch E host ups path st))"
proof -
  have html: "sends E host ups 3 st (snd (fetch_html E host ups path st))"
    using fetch_loop_sends [of "normalize_path path" E host ups MAX_HOPS st] normalize_path_shape [of path]
    by (simp add: fetch_html_def MAX_HOPS_def)
  obtain d st1 where d: "fetch_html E host ups path st = (d, st1)" by fastforce
  have "sends E host ups 4 st (snd (fetch_icon E host ups u st1))" for u
    using sends_trans [OF html fetch_icon_sends] d by simp
  moreover have "sends E host ups 4 st st1"
    using sends_trans [OF html, of 0 st1] d by (simp add: sends_refl)
  ultimately show ?thesis
    using d by (auto simp: fetch_def Let_def split: option.splits prod.splits)
      (metis snd_conv)+
qed

lemma lookup_sent: "sent (snd (lookup E t t' host path ctx st)) = sent st"
  by (auto simp: lookup_def local_get_def redis_get_def local_put_def Let_def
      split: option.splits prod.splits if_splits)

lemma load_sends:
  "sends E host ups (if fetch_on_miss then 4 else 0) st (snd (load E clk host path ctx ups fetch_on_miss st))"
proof -
  let ?p = "normalize_path path"
  obtain r1 st1 where l1: "lookup E (clk 0) (clk 1) host ?p ctx st = (r1, st1)" by fastforce
  obtain r2 st2 where l2: "lookup E (clk 2) (clk 3) host ?p ctx (inflight_lock E host ?p st1) = (r2, st2)"
    by fastforce
  obtain m st3 where f: "fetch E host ups ?p st2 = (m, st3)" by fastforce
  have s1: "sent st1 = sent st" using lookup_sent [of E "clk 0" "clk 1" host ?p ctx st] l1 by simp
  have s2: "sent st2 = sent st1"
    using lookup_sent [of E "clk 2" "clk 3" host ?p ctx "inflight_lock E host ?p st1"] l2
    by (simp add: inflight_lock_def)
  have s3: "sends E host ups 4 st st3"
    using fetch_sends [of E host ups st2 ?p] f s1 s2 by (simp add: sends_def)
  have s4: "sends E host ups 4 st (local_put E t host q mm st3)"
      "sends E host ups 4 st (redis_set E host q mm (local_put E t host q mm st3))" for t q mm
    using s3 by (auto simp: sends_def local_put_def redis_set_def split: option.splits)
  show ?thesis
    using l1 l2 f s1 s2 s3 s4
    by (auto simp: load_def Let_def sends_refl split: option.splits prod.splits)
qed

section \<open>What the cache holds\<close>

text \<open>Metadata as \<open>fetch\<close> produces it: no pending icon, tags that are safe to emit, a raster icon of
  bounded size.\<close>

definition wf_meta :: "Meta \<Rightarrow> bool" where
  "wf_meta m \<longleftrightarrow>
     m_icon_url m = None \<and> list_all safe_tag (m_tags m) \<and>
     (case m_icon m of
        None \<Rightarrow> True
      | Some (bytes, mime) \<Rightarrow> length bytes \<le> MAX_ICON \<and> icon_mime mime = Some mime)"

lemma icon_mime_idem: "icon_mime ct = Some m \<Longrightarrow> icon_mime m = Some m"
  using icon_mime_raster icon_mime_fixed by blast

lemma decode_data_uri_wf:
  "decode_data_uri b64 r = Some (b, m) \<Longrightarrow> length b \<le> MAX_ICON \<and> icon_mime m = Some m"
  using icon_mime_idem by (auto simp: decode_data_uri_def split: option.splits prod.splits if_splits)

lemma fetch_icon_wf:
  "fetch_icon E host ups u st = (Some (b, m), st') \<Longrightarrow> length b \<le> MAX_ICON \<and> icon_mime m = Some m"
  using decode_data_uri_wf icon_mime_idem
  by (auto simp: fetch_icon_def client_request_def split: option.splits if_splits dest: collect_limited_Some)

lemma fetch_wf:
  assumes "fetch E host ups path st = (Some m, st')"
  shows "wf_meta m"
proof -
  obtain doc st1 where d: "fetch_html E host ups path st = (Some doc, st1)"
    using assms by (auto simp: fetch_def split: option.splits prod.splits)
  show ?thesis
    using assms d scrape_tags [of "e_regex E" doc] scrape_icon [of "e_regex E" doc]
    by (auto simp: fetch_def wf_meta_def Let_def dest: fetch_icon_wf split: option.splits prod.splits)
qed

lemma into_meta_cached: "wf_meta m \<Longrightarrow> into_meta (cached_of_meta m) = m"
  by (auto simp: wf_meta_def into_meta_def cached_of_meta_def split: option.splits)

text \<open>
  What the cache relies on of Redis and of the JSON codec: a value set is read back, other keys keep
  theirs, and a serialised entry parses to itself.
\<close>

definition embed_store_ok :: "('h, 'r) embed_env \<Rightarrow> bool" where
  "embed_store_ok E \<longleftrightarrow>
     (\<forall>k v n r k'. fst (e_get E k' (snd (e_set_ex E k v n r))) =
        (if k' = k then Some (Some v) else fst (e_get E k' r))) \<and>
     (\<forall>c. \<exists>s. e_to_json E c = Some s \<and> e_from_json E s = Some c)"

lemma redis_round_trip:
  assumes "embed_store_ok E" and "wf_meta m"
  shows "fst (redis_get E host path (redis_set E host path m st)) = Some m"
proof -
  obtain s where s: "e_to_json E (cached_of_meta m) = Some s" "e_from_json E s = Some (cached_of_meta m)"
    using assms(1) unfolding embed_store_ok_def by blast
  have "fst (e_get E k (snd (e_set_ex E k s n r))) = Some (Some s)" for k n r
    using assms(1) unfolding embed_store_ok_def by simp
  then show ?thesis
    using s into_meta_cached [OF assms(2)]
    by (simp add: redis_get_def redis_set_def split_beta)
qed

lemma load_stores:
  assumes "load E clk host path ctx ups f st = (Some m, st')"
  shows "\<exists>e. local_tier st' (cache_key E host path) = Some e \<and> c_meta e = m"
proof -
  let ?p = "normalize_path path"
  have key: "cache_key E host ?p = cache_key E host path" by (simp add: cache_key_def)
  have look: "\<exists>e. local_tier s' (cache_key E host path) = Some e \<and> c_meta e = m"
    if "lookup E t t' host ?p ctx s = (Some m, s')" for t t' s s'
    using that by (auto simp: lookup_def local_get_def redis_get_def local_put_def key Let_def
        split: option.splits prod.splits if_splits)
  show ?thesis
    using assms look
    by (auto simp: load_def Let_def local_put_def redis_set_def key split: option.splits prod.splits if_splits)
qed

lemma load_hit:
  assumes "local_tier st (cache_key E host path) = Some e" and "clk 0 - fetched e < secs CACHE_TTL"
  shows "load E clk host path ctx ups f st = (Some (c_meta e), st)"
proof -
  have "cache_key E host (normalize_path path) = cache_key E host path" by (simp add: cache_key_def)
  with assms show ?thesis by (simp add: load_def lookup_def local_get_def)
qed

section \<open>Single flight\<close>

definition flight_inv :: "flight \<Rightarrow> bool" where
  "flight_inv f \<longleftrightarrow>
     (\<forall>i. (task_of f i = Locked \<or> task_of f i = Fetching) \<longleftrightarrow> holder f = Some i) \<and>
     begun f \<le> failed f + expired f +
       (if (\<exists>i. task_of f i = Fetching) \<or> cached f \<noteq> None then 1 else 0)"

lemma flight_inv_start: "flight_start f \<Longrightarrow> flight_inv f"
  by (simp add: flight_start_def flight_inv_def)

lemma holder_only:
  assumes "flight_inv f" and "task_of f i = Locked \<or> task_of f i = Fetching" and "j \<noteq> i"
  shows "task_of f j \<noteq> Locked \<and> task_of f j \<noteq> Fetching"
proof -
  have lock: "(task_of f k = Locked \<or> task_of f k = Fetching) \<longleftrightarrow> holder f = Some k" for k
    using assms(1) by (simp add: flight_inv_def)
  have "holder f = Some i" using lock [of i] assms(2) by simp
  with lock [of j] assms(3) show ?thesis by auto
qed

lemma flight_released:
  assumes "flight_inv f" and "task_of f i = Locked \<or> task_of f i = Fetching"
    and "begun f \<le> failed' + expired f + (if c \<noteq> None then 1 else 0)"
  shows "flight_inv (f\<lparr>cached := c, failed := failed', holder := None, task_of := (task_of f)(i := Finished r)\<rparr>)"
proof -
  have "task_of f j \<noteq> Locked \<and> task_of f j \<noteq> Fetching" if "j \<noteq> i" for j
    using holder_only [OF assms(1,2) that] .
  then have "((task_of f)(i := Finished r)) j \<noteq> Locked \<and> ((task_of f)(i := Finished r)) j \<noteq> Fetching" for j
    by simp
  then show ?thesis using assms(3) unfolding flight_inv_def by simp
qed

lemma flight_moved:
  assumes "flight_inv f" and "task_of f i = Arrived" and "x \<noteq> Locked" and "x \<noteq> Fetching"
  shows "flight_inv (f\<lparr>task_of := (task_of f)(i := x)\<rparr>)"
proof -
  have "((task_of f)(i := x)) j = Locked \<longleftrightarrow> task_of f j = Locked"
    "((task_of f)(i := x)) j = Fetching \<longleftrightarrow> task_of f j = Fetching" for j
    using assms by auto
  then show ?thesis using assms(1) unfolding flight_inv_def by simp
qed

lemma flight_inv_step: "flight_step f g \<Longrightarrow> flight_inv f \<Longrightarrow> flight_inv g"
proof (induction rule: flight_step.induct)
  case (hit f i m)
  then show ?case by (intro flight_moved) auto
next
  case (miss f i)
  then show ?case by (intro flight_moved) auto
next
  case (peer_done f i m)
  then have "begun f \<le> failed f + expired f + (if cached f \<noteq> None then 1 else 0)"
    by (simp add: flight_inv_def)
  from flight_released [OF peer_done(3) _ this, of i] peer_done(1) show ?case by simp
next
  case (begin_fetch f i)
  then have "task_of f j \<noteq> Fetching" for j
    using holder_only [OF begin_fetch(3), of i j] by (cases "j = i") auto
  with begin_fetch show ?case by (auto simp: flight_inv_def)
next
  case (fetch_ok f i m)
  then have "begun f \<le> failed f + expired f + (if Some m \<noteq> None then 1 else 0)"
    by (auto simp: flight_inv_def split: if_splits)
  from flight_released [OF fetch_ok(2) _ this, of i] fetch_ok(1) show ?case by simp
next
  case (fetch_failed f i)
  then have "begun f \<le> Suc (failed f) + expired f + (if cached f \<noteq> None then 1 else 0)"
    by (auto simp: flight_inv_def split: if_splits)
  from flight_released [OF fetch_failed(2) _ this, of i] fetch_failed(1) show ?case by simp
qed (auto simp: flight_inv_def split: if_splits)

lemma flight_inv_reach:
  assumes "flight_start f" and "flight_step\<^sup>*\<^sup>* f g"
  shows "flight_inv g"
  using assms(2,1) by (induction rule: rtranclp_induct) (auto intro: flight_inv_start flight_inv_step)

section \<open>A concrete environment\<close>

text \<open>
  One origin that answers every request with a small page, a Redis that holds texts, and a codec that
  writes an entry as the unary text of its number in an enumeration of all entries.
\<close>

definition sample_page :: "(string \<times> string) list Response" where
  "sample_page = \<lparr>status = 200, headers = [(''content-type'', ''text/html'')], body = [Some ''<head><title>Hi</title>'']\<rparr>"

definition sample_env :: "((string \<times> string) list, string \<rightharpoonup> string) embed_env" where
  "sample_env =
     \<lparr>e_http = alist_http, e_regex = sample_regexes, e_net = (\<lambda>tr q. Some sample_page),
      e_sha = (\<lambda>s. []), e_hex = (\<lambda>s. []), e_b64 = (\<lambda>s. None),
      e_get = (\<lambda>k r. (Some (r k), r)), e_set_ex = (\<lambda>k v n r. (True, r(k \<mapsto> v))),
      e_to_json = (\<lambda>c. Some (replicate (to_nat (c_title c, c_tags c, c_icon c, c_icon_mime c)) (CHR ''x''))),
      e_from_json = (\<lambda>s. case from_nat (length s) of (a, b, c, d) \<Rightarrow>
        Some \<lparr>c_title = a, c_tags = b, c_icon = c, c_icon_mime = d\<rparr>)\<rparr>"

definition sample_state :: "((string \<times> string) list, string \<rightharpoonup> string) embed_state" where
  "sample_state = \<lparr>local_tier = Map.empty, inflight = {}, e_redis = Map.empty, sent = []\<rparr>"

lemma sample_store_ok: "embed_store_ok sample_env"
  by (simp add: embed_store_ok_def sample_env_def)

lemma sample_build: "\<exists>q. build_get alist_http ''h'' ''http://up'' ''/'' = Some q"
  by (simp add: build_get_def alist_http_def plain_uri_def Let_def split: option.splits)

lemma sample_is_html: "embed_is_html alist_http (Some ''text/html'')"
  by code_simp

lemma sample_fetch:
  "\<exists>m st. fetch sample_env ''h'' ''http://up'' ''/'' sample_state = (Some m, st)"
proof -
  obtain q where q: "build_get alist_http ''h'' ''http://up'' ''/'' = Some q"
    using sample_build by blast
  have ct: "hm_get alist_http (headers sample_page) ''content-type'' = Some ''text/html''"
    by (simp add: alist_http_def sample_page_def)
  have "read_head (body sample_page) = Some ''<head><title>Hi</title>''"
  proof -
    have "from_utf8_lossy (head_part ''<head><title>Hi</title>'') = ''<head><title>Hi</title>''"
      by code_simp
    moreover have "first_head [] = None" by (simp add: first_head_def)
    ultimately show ?thesis
      using read_loop_correct [of "[]" "[Some ''<head><title>Hi</title>'']"]
      by (simp add: read_head_def sample_page_def MAX_HTML_def)
  qed
  moreover have "normalize_path ''/'' = ''/''" by code_simp
  ultimately have "fst (fetch_html sample_env ''h'' ''http://up'' ''/'' sample_state) = Some ''<head><title>Hi</title>''"
    using q ct sample_is_html
    by (simp add: fetch_html_def MAX_HOPS_def numeral_3_eq_3 sample_env_def client_request_def Let_def)
      (simp add: sample_page_def)
  then show ?thesis
    by (cases "fetch_html sample_env ''h'' ''http://up'' ''/'' sample_state")
      (auto simp: fetch_def Let_def sample_env_def split: option.splits prod.splits)
qed

section \<open>Properties\<close>


text \<open>
  The favicon route never contacts an origin: whatever the caches hold, answering it sends no
  request.
\<close>

theorem favicon_sends_nothing:
  "sent (snd (favicon E clk host ups path ctx st)) = sent st"
proof -
  have "sent (snd (load E c h p ctx ups False s)) = sent s" for c h p s
    using load_sends [of E h ups False s c p ctx] by (simp add: sends_def)
  then show ?thesis
    by (auto simp: favicon_def Let_def split: option.splits prod.splits) (metis snd_conv)+
qed

text \<open>
  Fetched metadata has no pending icon, only safe tags and at most a bounded raster icon; written to
  Redis by one replica it is read back by another exactly as it was.
\<close>

theorem fetched_meta_shared:
  assumes "embed_store_ok E" and "fetch E host ups path st = (Some m, st')"
  shows "wf_meta m \<and> fst (redis_get E host path (redis_set E host path m st')) = Some m"
  using fetch_wf [OF assms(2)] redis_round_trip [OF assms(1)] by blast

theorem fetched_meta_shared_witness:
  "\<exists>m st. fetch sample_env ''h'' ''http://up'' ''/'' sample_state = (Some m, st) \<and> wf_meta m \<and>
     fst (redis_get sample_env ''h'' ''/'' (redis_set sample_env ''h'' ''/'' m st)) = Some m"
proof -
  obtain m st where f: "fetch sample_env ''h'' ''http://up'' ''/'' sample_state = (Some m, st)"
    using sample_fetch by blast
  with fetched_meta_shared [OF sample_store_ok f] show ?thesis by blast
qed

text \<open>
  A successful load leaves its result in the local tier, and every later load of the same page
  within \<open>CACHE_TTL\<close> of the moment the entry was stored returns that result and changes nothing.
\<close>

theorem load_then_hit:
  assumes "load E clk host path ctx ups f st = (Some m, st')"
  shows "\<exists>stored. \<forall>clk'. clk' 0 - stored < secs CACHE_TTL \<longrightarrow>
     load E clk' host path ctx ups f st' = (Some m, st')"
proof -
  obtain e where e: "local_tier st' (cache_key E host path) = Some e" "c_meta e = m"
    using load_stores [OF assms] by blast
  then have "load E clk' host path ctx ups f st' = (Some m, st')"
    if "clk' 0 - fetched e < secs CACHE_TTL" for clk'
    using load_hit [OF e(1), of clk'] that e(2) by simp
  then show ?thesis by blast
qed

theorem load_then_hit_witness:
  "\<exists>m st. load sample_env (\<lambda>i. i) ''h'' ''/'' True ''http://up'' True
        (sample_state\<lparr>local_tier := [''nekoguard:embed:h'' \<mapsto> \<lparr>c_meta = default_Meta, fetched = 0\<rparr>]\<rparr>) = (Some m, st) \<and>
     (\<exists>stored. \<forall>clk'. clk' 0 - stored < secs CACHE_TTL \<longrightarrow>
        load sample_env clk' ''h'' ''/'' True ''http://up'' True st = (Some m, st))"
proof -
  let ?st = "sample_state\<lparr>local_tier := [''nekoguard:embed:h'' \<mapsto> \<lparr>c_meta = default_Meta, fetched = 0\<rparr>]\<rparr>"
  have "normalize_path ''/'' = ''/''" by code_simp
  then have l: "load sample_env (\<lambda>i. i) ''h'' ''/'' True ''http://up'' True ?st = (Some default_Meta, ?st)"
    by (intro trans [OF load_hit [of _ _ _ _ "\<lparr>c_meta = default_Meta, fetched = 0\<rparr>"]])
      (simp_all add: cache_key_def secs_def CACHE_TTL_def)
  from l load_then_hit [OF l] show ?thesis by blast
qed

text \<open>
  C35. Among any number of visitors that load the same page, in any interleaving, at most one is
  fetching from the origin at a time, and the origin is asked at most once more often than a fetch has
  failed or a stored entry has expired.
\<close>

theorem single_flight:
  assumes "flight_start f" and "flight_step\<^sup>*\<^sup>* f g"
  shows "(\<forall>i j. task_of g i = Fetching \<and> task_of g j = Fetching \<longrightarrow> i = j) \<and>
    begun g \<le> failed g + expired g + 1"
proof -
  have inv: "flight_inv g" by (rule flight_inv_reach [OF assms])
  then have "i = j" if "task_of g i = Fetching" "task_of g j = Fetching" for i j
    using holder_only [OF inv, of i j] that by blast
  moreover have "begun g \<le> failed g + expired g + 1"
    using inv by (auto simp: flight_inv_def split: if_splits)
  ultimately show ?thesis by blast
qed

theorem single_flight_witness:
  "\<exists>f g. flight_start f \<and> flight_step\<^sup>*\<^sup>* f g \<and> task_of g 7 = Fetching \<and> task_of g 8 = Waiting \<and>
     begun g \<le> failed g + expired g + 1"
proof -
  let ?f = "\<lparr>cached = None, holder = None, task_of = (\<lambda>_. Arrived), begun = 0, failed = 0, expired = 0\<rparr>"
  let ?f1 = "?f\<lparr>task_of := (task_of ?f)(8 := Waiting)\<rparr>"
  let ?f2 = "?f1\<lparr>task_of := (task_of ?f1)(7 := Waiting)\<rparr>"
  let ?f3 = "?f2\<lparr>holder := Some 7, task_of := (task_of ?f2)(7 := Locked)\<rparr>"
  let ?f4 = "?f3\<lparr>begun := Suc (begun ?f3), task_of := (task_of ?f3)(7 := Fetching)\<rparr>"
  have st: "flight_start ?f" by (simp add: flight_start_def)
  have "flight_step ?f ?f1" by (rule flight_step.miss) simp_all
  moreover have "flight_step ?f1 ?f2" by (rule flight_step.miss) simp_all
  moreover have "flight_step ?f2 ?f3" by (rule flight_step.acquire) simp_all
  moreover have "flight_step ?f3 ?f4" by (rule flight_step.begin_fetch) simp_all
  ultimately have run: "flight_step\<^sup>*\<^sup>* ?f ?f4"
    by (meson converse_rtranclp_into_rtranclp rtranclp.rtrancl_refl)
  from st run single_flight [OF st run] show ?thesis
    by (intro exI [of _ ?f] exI [of _ ?f4]) simp
qed

end
