(* ===== verification/Inject.thy ===== *)
theory Inject
  imports Rust_Utf8
begin

text \<open>
  \<open>nekoguard/src/inject.rs\<close>: which proxied documents are rewritten, the bounded decoding, and the
  splicing of a script tag. The decoders and encoders (crates \<open>flate2\<close> and \<open>brotli\<close>) are
  parameters: a decoder turns a body into the bytes its reader delivers and whether the reader then
  fails; an encoder may fail.
\<close>

section \<open>Definitions\<close>

definition MAX_DECOMPRESSED :: nat where
  "MAX_DECOMPRESSED = 4 * 1024 * 1024"

datatype Encoding = Identity | Gzip | Deflate | Brotli

record codecs =
  decoder :: "Encoding \<Rightarrow> body \<Rightarrow> body \<times> bool"
  encoder :: "Encoding \<Rightarrow> body \<Rightarrow> body option"

definition from_header :: "string option \<Rightarrow> Encoding option" where
  "from_header value =
     (let raw = trim (case value of None \<Rightarrow> '''' | Some v \<Rightarrow> v) in
      if raw = [] then Some Identity
      else (let l = to_ascii_lowercase raw in
        if l = ''identity'' then Some Identity
        else if l = ''gzip'' \<or> l = ''x-gzip'' then Some Gzip
        else if l = ''deflate'' then Some Deflate
        else if l = ''br'' then Some Brotli
        else None))"

definition is_html :: "string option \<Rightarrow> bool" where
  "is_html content_type =
     (let ct = to_ascii_lowercase (trim (case content_type of None \<Rightarrow> '''' | Some v \<Rightarrow> v)) in
      starts_with ''text/html'' ct \<or> starts_with ''application/xhtml+xml'' ct)"

definition should_inject :: "string option \<Rightarrow> bool \<Rightarrow> bool \<Rightarrow> bool \<Rightarrow> bool \<Rightarrow> bool" where
  "should_inject content_type has_body within_cap encoding_supported site_bypassed \<longleftrightarrow>
     is_html content_type \<and> has_body \<and> within_cap \<and> encoding_supported \<and> \<not> site_bypassed"

text \<open>\<open>Take\<close> stops the reader after \<open>MAX_DECOMPRESSED + 1\<close> bytes, so a failure behind them is not seen.\<close>

definition read_capped :: "body \<times> bool \<Rightarrow> body option" where
  "read_capped reader =
     (case reader of (bytes, fails) \<Rightarrow>
        let limit = MAX_DECOMPRESSED + 1 in
        if length bytes < limit \<and> fails then None
        else (let out = take limit bytes in if length out \<le> MAX_DECOMPRESSED then Some out else None))"

definition decompress :: "codecs \<Rightarrow> body \<Rightarrow> Encoding \<Rightarrow> body option" where
  "decompress K body encoding =
     (if encoding = Identity then (if length body \<le> MAX_DECOMPRESSED then Some body else None)
      else read_capped (decoder K encoding body))"

definition compress :: "codecs \<Rightarrow> body \<Rightarrow> Encoding \<Rightarrow> body option" where
  "compress K body encoding =
     (case encoding of Identity \<Rightarrow> Some body | _ \<Rightarrow> encoder K encoding body)"

definition inject_into_html :: "string \<Rightarrow> string \<Rightarrow> string" where
  "inject_into_html html snippet =
     (let lowered = to_ascii_lowercase html in
      case rfind_sub ''</body>'' lowered of
        Some at \<Rightarrow> take at html @ snippet @ drop at html
      | None \<Rightarrow>
          (case rfind_sub ''</html>'' lowered of
             Some at \<Rightarrow> take at html @ snippet @ drop at html
           | None \<Rightarrow> html @ snippet))"

definition looks_like_html :: "body \<Rightarrow> bool" where
  "looks_like_html body =
     (utf8_valid body \<and>
      (let head = to_ascii_lowercase (trim_start body) in
       starts_with ''<!doctype'' head \<or> starts_with ''<html'' head \<or> starts_with ''<?xml'' head \<or>
       contains ''<'' body))"

definition script_tag :: "string \<Rightarrow> string" where
  "script_tag source =
     (let safe = str_replace ''</script'' (CHR ''<'' # CHR 0x5C # ''/script'') source in ''<script>'' @ safe @ ''</script>'')"

section \<open>Searching from the end\<close>

lemma rfind_sub_None: "rfind_sub p s = None \<Longrightarrow> j \<le> length s \<Longrightarrow> \<not> prefix p (drop j s)"
proof (induction s arbitrary: j)
  case (Cons d s)
  then show ?case by (cases j) (auto split: option.splits if_splits)
qed (auto split: if_splits)

lemma rfind_sub_Some:
  "rfind_sub p s = Some i \<Longrightarrow>
   prefix p (drop i s) \<and> (\<forall>j. i < j \<and> j \<le> length s \<longrightarrow> \<not> prefix p (drop j s))"
proof (induction s arbitrary: i)
  case Nil
  then show ?case by (auto split: if_splits)
next
  case (Cons c s)
  show ?case
  proof (cases "rfind_sub p s")
    case None
    then have "i = 0" "prefix p (c # s)" using Cons.prems by (auto split: if_splits)
    with rfind_sub_None [OF None] show ?thesis by (auto simp: drop_Cons' )
  next
    case (Some k)
    then have k: "i = Suc k" using Cons.prems by simp
    have "\<not> prefix p (drop j (c # s))" if "i < j" "j \<le> length (c # s)" for j
      using that k Cons.IH [OF Some] by (cases j) auto
    with k Cons.IH [OF Some] show ?thesis by simp
  qed
qed

text \<open>The found occurrence is the last one; without one the text does not occur.\<close>

lemma rfind_sub_last:
  assumes "rfind_sub p s = Some i" and "p \<noteq> []"
  shows "prefix p (drop i s)" and "\<not> sublist p (tl (drop i s))" and "sublist p s"
proof -
  show p: "prefix p (drop i s)" using rfind_sub_Some [OF assms(1)] by simp
  then show "sublist p s" by (auto simp: prefix_def sublist_def) (metis append_take_drop_id)
  show "\<not> sublist p (tl (drop i s))"
  proof
    assume "sublist p (tl (drop i s))"
    then obtain u v where uv: "drop (Suc i) s = u @ p @ v"
      by (auto simp: sublist_def drop_Suc tl_drop)
    then have "drop (Suc i + length u) s = p @ v"
      by (metis append_eq_conv_conj drop_drop add.commute)
    moreover have "Suc i + length u \<le> length s"
      using arg_cong [OF uv, of length] assms(2) by (cases p) auto
    ultimately show False
      using rfind_sub_Some [OF assms(1)] by (metis less_add_Suc1 add_Suc prefixI)
  qed
qed

lemma rfind_sub_missing: "rfind_sub p s = None \<Longrightarrow> \<not> sublist p s"
proof
  assume n: "rfind_sub p s = None" and "sublist p s"
  then obtain u v where "s = u @ p @ v" by (auto simp: sublist_def)
  with rfind_sub_None [OF n, of "length u"] show False by simp
qed

section \<open>Replacing\<close>

text \<open>
  Replacing \<open>x p\<close> by \<open>x r\<close>, where the marker \<open>x\<close> does not occur in \<open>p\<close>: a prefix without the marker
  is not affected.
\<close>

lemma str_replace_prefix:
  "x \<notin> set q \<Longrightarrow> prefix q (str_replace (x # p) (x # r) s) \<Longrightarrow> prefix q s"
proof (induction q arbitrary: s)
  case (Cons a q)
  then show ?case by (cases s) (auto split: if_splits)
qed simp

lemma str_replace_none_left:
  assumes "x \<notin> set p" and "\<And>t. \<not> prefix p (r @ t)" and "x \<notin> set r"
  shows "\<not> sublist (x # p) (str_replace (x # p) (x # r) s)"
proof (induction "x # p" "x # r" s rule: str_replace.induct)
  case 1
  then show ?case by simp
next
  case (2 c cs)
  let ?f = "str_replace (x # p) (x # r)"
  show ?case
  proof (cases "prefix (x # p) (c # cs)")
    case True
    have step: "\<not> sublist (x # p) (u @ t)" if "x \<notin> set u" "\<not> sublist (x # p) t" for u t
      using that
    proof (induction u)
      case (Cons a u)
      then show ?case by (auto simp: sublist_Cons_right)
    qed simp
    have "\<not> sublist (x # p) (r @ ?f (drop (length (x # p)) (c # cs)))"
      using step 2(1) True assms(3) by simp
    then show ?thesis
      using True assms(2) by (auto simp: sublist_Cons_right)
  next
    case False
    then have "\<not> sublist (x # p) (?f cs)" using 2(2) by simp
    moreover have "\<not> prefix (x # p) (c # ?f cs)"
      using False str_replace_prefix [OF assms(1)] by auto
    ultimately show ?thesis
      using False by (auto simp: sublist_Cons_right)
  qed
qed

lemma script_payload_safe:
  "\<not> sublist ''</script'' (str_replace ''</script'' (CHR ''<'' # CHR 0x5C # ''/script'') source)"
  by (rule str_replace_none_left) (auto simp: prefix_def)

section \<open>Codec law\<close>

text \<open>What the code relies on: the decoder of an encoding reads back what its encoder wrote.\<close>

definition codecs_ok :: "codecs \<Rightarrow> bool" where
  "codecs_ok K \<longleftrightarrow> (\<forall>e b c. encoder K e b = Some c \<longrightarrow> decoder K e c = (b, False))"

lemma decompress_length: "decompress K b e = Some d \<Longrightarrow> length d \<le> MAX_DECOMPRESSED"
  by (auto simp: decompress_def read_capped_def Let_def split: if_splits prod.splits)

lemma decompress_compress:
  "codecs_ok K \<Longrightarrow> compress K b e = Some c \<Longrightarrow> length b \<le> MAX_DECOMPRESSED \<Longrightarrow> decompress K c e = Some b"
  by (cases e) (auto simp: codecs_ok_def compress_def decompress_def read_capped_def Let_def)

text \<open>A codec that marks each format with one leading byte.\<close>

definition tag_of :: "Encoding \<Rightarrow> char" where
  "tag_of e = (case e of Identity \<Rightarrow> CHR ''i'' | Gzip \<Rightarrow> CHR ''g'' | Deflate \<Rightarrow> CHR ''d'' | Brotli \<Rightarrow> CHR ''b'')"

definition tag_codecs :: codecs where
  "tag_codecs =
     \<lparr>decoder = (\<lambda>e b. case b of [] \<Rightarrow> ([], True) | c # cs \<Rightarrow> if c = tag_of e then (cs, False) else ([], True)),
      encoder = (\<lambda>e b. Some (tag_of e # b))\<rparr>"

lemma tag_codecs_ok: "codecs_ok tag_codecs"
  by (simp add: codecs_ok_def tag_codecs_def)

section \<open>Properties\<close>

text \<open>
  The snippet is inserted once and nothing else changes: the document is split in two, the snippet
  goes between, and the split is right before the last closing body tag (in any case), or else the
  last closing html tag, or else at the end.
\<close>

theorem inject_into_html_splice:
  "\<exists>pre post. html = pre @ post \<and> inject_into_html html snippet = pre @ snippet @ post \<and>
     (let at_last = (\<lambda>tag. prefix tag (to_ascii_lowercase post) \<and>
            \<not> sublist tag (tl (to_ascii_lowercase post)))
      in if sublist ''</body>'' (to_ascii_lowercase html) then at_last ''</body>''
         else if sublist ''</html>'' (to_ascii_lowercase html) then at_last ''</html>''
         else post = [])"
proof -
  let ?l = "to_ascii_lowercase html"
  have d: "to_ascii_lowercase (drop i html) = drop i ?l" for i
    by (simp add: to_ascii_lowercase_def drop_map)
  show ?thesis
  proof (cases "rfind_sub ''</body>'' ?l")
    case (Some i)
    then show ?thesis
      using rfind_sub_last [OF Some]
      by (intro exI [of _ "take i html"] exI [of _ "drop i html"]) (simp add: inject_into_html_def d)
  next
    case None
    note body = None rfind_sub_missing [OF None]
    show ?thesis
    proof (cases "rfind_sub ''</html>'' ?l")
      case (Some i)
      then show ?thesis
        using rfind_sub_last [OF Some] body
        by (intro exI [of _ "take i html"] exI [of _ "drop i html"]) (simp add: inject_into_html_def d)
    next
      case None
      then show ?thesis
        using rfind_sub_missing [OF None] body
        by (intro exI [of _ html] exI [of _ "[]"]) (simp add: inject_into_html_def)
    qed
  qed
qed

text \<open>
  No decoded document exceeds \<open>MAX_DECOMPRESSED\<close> bytes, whatever the decoder delivers, and a
  document within that bound survives encoding and decoding in every supported encoding.
\<close>

theorem decompress_bounded_round_trip:
  "(decompress K b e = Some d \<longrightarrow> length d \<le> MAX_DECOMPRESSED) \<and>
   (codecs_ok K \<and> compress K b e = Some c \<and> length b \<le> MAX_DECOMPRESSED \<longrightarrow> decompress K c e = Some b)"
  using decompress_length decompress_compress by blast

theorem decompress_bounded_round_trip_witness:
  "decompress tag_codecs ''gpage'' Gzip = Some ''page''"
  using decompress_bounded_round_trip [of tag_codecs "''page''" Gzip "''page''" "''gpage''"]
  by (simp add: tag_codecs_ok) (simp add: compress_def tag_codecs_def tag_of_def MAX_DECOMPRESSED_def)

text \<open>
  The text between the tags of \<open>script_tag\<close> never contains the lower-case closing tag
  \<open></script\<close>, so the element ends where it is meant to; the upper-case spelling, which closes the
  element as well, is left as it is.
\<close>

theorem script_tag_closed:
  "(\<exists>safe. script_tag source = ''<script>'' @ safe @ ''</script>'' \<and> \<not> sublist ''</script'' safe) \<and>
   script_tag ''</SCRIPT>'' = ''<script></SCRIPT></script>''"
  using script_payload_safe [of source]
  by (auto simp: script_tag_def Let_def)

end
