(* ===== verification/Pow.thy ===== *)
theory Pow
  imports Prelude
begin

unbundle bit_operations_syntax

text \<open>
  \<open>nekoguard/src/pow.rs\<close>: the store of outstanding proof-of-work challenges and the check of a
  submitted solution. \<open>MAP\<close>, a concurrent map, is modelled by its contents; each operation on it is
  one atomic update. Instants are natural numbers read from the monotonic clock and passed in, and
  so are the sixteen random bytes of a new challenge. The hexadecimal encoder (crate \<open>hex\<close>) and the
  hash (crate \<open>sha2\<close>) are parameters.
\<close>

section \<open>Definitions\<close>

type_synonym challenges = "string \<rightharpoonup> nat"

definition DIFFICULTY :: nat where
  "DIFFICULTY = 14"

text \<open>The loop of \<open>meets_target\<close> from index \<open>i\<close> with \<open>k\<close> rounds left. Indexing past the end of the
  hash panics.\<close>

fun meets_from :: "u8 list \<Rightarrow> nat \<Rightarrow> nat \<Rightarrow> bool outcome" where
  "meets_from hash i 0 = Done True"
| "meets_from hash i (Suc k) =
     (if i div 8 < length hash then
        (if drop_bit (7 - i mod 8) (hash ! (i div 8)) AND 1 \<noteq> 0 then Done False
         else meets_from hash (Suc i) k)
      else Panic ''index out of bounds'')"

definition meets_target :: "u8 list \<Rightarrow> nat \<Rightarrow> bool outcome" where
  "meets_target hash bits = meets_from hash 0 bits"

definition new_challenge ::
  "(u8 list \<Rightarrow> string) \<Rightarrow> u8 list \<Rightarrow> nat \<Rightarrow> nat \<Rightarrow> challenges \<Rightarrow> string \<times> challenges" where
  "new_challenge hex_encode bytes now ttl m =
     (let c = hex_encode bytes in (c, m(c \<mapsto> now + ttl)))"

definition check_pow ::
  "(string \<Rightarrow> u8 list) \<Rightarrow> string \<Rightarrow> string \<Rightarrow> nat \<Rightarrow> challenges \<Rightarrow> (bool \<times> challenges) outcome" where
  "check_pow sha256 challenge nonce now m =
     (case m challenge of
        None \<Rightarrow> Done (False, m)
      | Some expiry \<Rightarrow>
          (let m' = m(challenge := None)
           in if now > expiry then Done (False, m')
              else bind_outcome (meets_target (sha256 (challenge @ nonce)) DIFFICULTY)
                     (\<lambda>b. Done (b, m'))))"

definition sweep :: "nat \<Rightarrow> challenges \<Rightarrow> challenges" where
  "sweep now m =
     (\<lambda>k. case m k of Some ex \<Rightarrow> if now < ex then Some ex else None | None \<Rightarrow> None)"

text \<open>
  The store is shared by all connection tasks. Whatever their interleaving, the map sees one
  sequence of these operations; a run collects the challenges whose solution was accepted.
\<close>

datatype pow_event =
    Issue "u8 list" nat nat
  | Submit string string nat
  | Sweep nat

fun pow_run ::
  "(u8 list \<Rightarrow> string) \<Rightarrow> (string \<Rightarrow> u8 list) \<Rightarrow> pow_event list \<Rightarrow> challenges \<Rightarrow>
   (string list \<times> challenges) outcome" where
  "pow_run hx sha [] m = Done ([], m)"
| "pow_run hx sha (Issue bs now ttl # es) m =
     pow_run hx sha es (snd (new_challenge hx bs now ttl m))"
| "pow_run hx sha (Sweep now # es) m = pow_run hx sha es (sweep now m)"
| "pow_run hx sha (Submit c n now # es) m =
     bind_outcome (check_pow sha c n now m) (\<lambda>(ok, m').
       bind_outcome (pow_run hx sha es m') (\<lambda>(acc, m'').
         Done (if ok then c # acc else acc, m'')))"

text \<open>How often an event list issues the challenge \<open>c\<close>.\<close>

fun issued :: "(u8 list \<Rightarrow> string) \<Rightarrow> pow_event list \<Rightarrow> string \<Rightarrow> nat" where
  "issued hx [] c = 0"
| "issued hx (Issue bs now ttl # es) c = (if hx bs = c then 1 else 0) + issued hx es c"
| "issued hx (Sweep now # es) c = issued hx es c"
| "issued hx (Submit d n now # es) c = issued hx es c"

section \<open>The difficulty target as a number\<close>

text \<open>A digest read as one big-endian number.\<close>

definition be_value :: "u8 list \<Rightarrow> nat" where
  "be_value ws = foldl (\<lambda>a w. a * 256 + unat w) 0 ws"

fun bits_value :: "bool list \<Rightarrow> nat" where
  "bits_value [] = 0"
| "bits_value (b # bs) = of_bool b * 2 ^ length bs + bits_value bs"

definition byte_bits :: "u8 \<Rightarrow> bool list" where
  "byte_bits w = map (\<lambda>j. bit w (7 - j)) [0..<8]"

lemma bits_value_less: "bits_value bs < 2 ^ length bs"
  by (induction bs) (auto simp: of_bool_def)

lemma bits_value_append: "bits_value (as @ bs) = bits_value as * 2 ^ length bs + bits_value bs"
  by (induction as) (auto simp: power_add algebra_simps)

lemma bits_value_leading:
  "k \<le> length bs \<Longrightarrow> (\<forall>i<k. \<not> bs ! i) \<longleftrightarrow> bits_value bs < 2 ^ (length bs - k)"
proof (induction bs arbitrary: k)
  case Nil
  then show ?case by simp
next
  case (Cons b bs)
  show ?case
  proof (cases k)
    case 0
    then show ?thesis using bits_value_less [of "b # bs"] by simp
  next
    case (Suc k')
    have "(2::nat) ^ (length bs - k') \<le> 2 ^ length bs"
      by (rule power_increasing) auto
    then have not_less: "\<not> 2 ^ length bs + bits_value bs < 2 ^ (length bs - k')"
      by linarith
    have "(\<forall>i<k. \<not> (b # bs) ! i) \<longleftrightarrow> \<not> b \<and> (\<forall>i<k'. \<not> bs ! i)"
      using Suc by (auto simp: less_Suc_eq_0_disj)
    also have "\<dots> \<longleftrightarrow> \<not> b \<and> bits_value bs < 2 ^ (length bs - k')"
      using Cons.IH [of k'] Cons.prems Suc by simp
    also have "\<dots> \<longleftrightarrow> bits_value (b # bs) < 2 ^ (length (b # bs) - k)"
      using Suc not_less by (cases b) auto
    finally show ?thesis .
  qed
qed

lemma bits_value_rev: "bits_value (rev bs) = horner_sum of_bool 2 bs"
  by (induction bs) (auto simp: bits_value_append)

lemma length_byte_bits [simp]: "length (byte_bits w) = 8"
  by (simp add: byte_bits_def)

lemma bits_value_byte: "bits_value (byte_bits w) = unat w"
proof -
  have "byte_bits w = rev (map (bit (unat w)) [0..<8])"
    by (rule nth_equalityI) (auto simp: byte_bits_def rev_nth bit_unsigned_iff)
  then have "bits_value (byte_bits w) = take_bit 8 (unat w)"
    by (simp add: bits_value_rev horner_sum_bit_eq_take_bit)
  moreover have "unat w < 2 ^ LENGTH(8)"
    by (rule unsigned_less)
  ultimately show ?thesis
    by (simp add: take_bit_nat_eq_self)
qed

lemma length_concat_byte_bits: "length (concat (map byte_bits ws)) = 8 * length ws"
  by (induction ws) auto

lemma be_value_bits: "be_value ws = bits_value (concat (map byte_bits ws))"
proof (induction ws rule: rev_induct)
  case Nil
  then show ?case by (simp add: be_value_def)
next
  case (snoc w ws)
  then show ?case by (simp add: be_value_def bits_value_append bits_value_byte)
qed

lemma nth_concat_byte_bits:
  "i < 8 * length ws \<Longrightarrow> concat (map byte_bits ws) ! i = bit (ws ! (i div 8)) (7 - i mod 8)"
proof (induction ws arbitrary: i)
  case Nil
  then show ?case by simp
next
  case (Cons w ws)
  show ?case
  proof (cases "i < 8")
    case True
    then show ?thesis by (simp add: nth_append byte_bits_def)
  next
    case False
    then obtain j where "i = j + 8" by (metis add.commute le_Suc_ex not_less)
    moreover from this have "i div 8 = Suc (j div 8)" by simp
    ultimately show ?thesis using Cons by (simp add: nth_append)
  qed
qed

lemma leading_bit_test: "drop_bit n w AND 1 \<noteq> (0::u8) \<longleftrightarrow> bit w n"
  by (simp add: and_one_eq bit_iff_odd_drop_bit mod_2_eq_odd)

lemma meets_from_spec:
  "i + k \<le> 8 * length hash \<Longrightarrow>
   meets_from hash i k = Done (\<forall>j. i \<le> j \<and> j < i + k \<longrightarrow> \<not> bit (hash ! (j div 8)) (7 - j mod 8))"
proof (induction k arbitrary: i)
  case 0
  then show ?case by auto
next
  case (Suc k)
  have "i div 8 < length hash" using Suc.prems by auto
  moreover have "(\<forall>j. i \<le> j \<and> j < i + Suc k \<longrightarrow> P j) \<longleftrightarrow> P i \<and> (\<forall>j. Suc i \<le> j \<and> j < Suc i + k \<longrightarrow> P j)"
    for P by (auto simp: Suc_le_eq) (metis le_neq_implies_less)
  ultimately show ?case
    using Suc.IH [of "Suc i"] Suc.prems by (auto simp: leading_bit_test)
qed

lemma meets_target_value:
  "bits \<le> 8 * length hash \<Longrightarrow>
   meets_target hash bits = Done (be_value hash < 2 ^ (8 * length hash - bits))"
  using bits_value_leading [of bits "concat (map byte_bits hash)"]
  by (simp add: meets_target_def meets_from_spec be_value_bits length_concat_byte_bits
      nth_concat_byte_bits)

section \<open>The challenge store\<close>

text \<open>
  The contract the request handler relies on: a one-time store. Reading the contents after each
  operation gives exactly the entries that are still redeemable.
\<close>

locale one_time_store =
  fixes live :: "'s \<Rightarrow> 'c \<Rightarrow> nat option"
    and issue :: "'c \<Rightarrow> nat \<Rightarrow> 's \<Rightarrow> 's"
    and redeem :: "'c \<Rightarrow> 'n \<Rightarrow> nat \<Rightarrow> 's \<Rightarrow> bool \<times> 's"
    and purge :: "nat \<Rightarrow> 's \<Rightarrow> 's"
  assumes live_issue: "live (issue c e s) d = (if d = c then Some e else live s d)"
    and live_redeem: "live (snd (redeem c n t s)) d = (if d = c then None else live s d)"
    and redeem_live: "fst (redeem c n t s) \<Longrightarrow> \<exists>e. live s c = Some e \<and> t \<le> e"
    and live_purge: "live (purge t s) d = Some e \<longleftrightarrow> live s d = Some e \<and> t < e"
begin

lemma redeem_once: "\<not> fst (redeem c n' t' (snd (redeem c n t s)))"
  using redeem_live live_redeem by fastforce

lemma redeem_other: "c \<noteq> d \<Longrightarrow> live (snd (redeem c n t s)) d = live s d"
  by (simp add: live_redeem)

lemma redeem_unknown: "live s c = None \<Longrightarrow> \<not> fst (redeem c n t s)"
  using redeem_live by fastforce

lemma redeem_purged:
  assumes "t \<le> t'" and "live s c = Some e" and "e \<le> t"
  shows "\<not> fst (redeem c n t' (purge t s))"
  using assms redeem_unknown live_purge by (metis not_less option.exhaust option.inject)

end

text \<open>A digest of 32 bytes is long enough for the fixed difficulty, so the check never panics.\<close>

definition digest32 :: "(string \<Rightarrow> u8 list) \<Rightarrow> bool" where
  "digest32 sha256 \<longleftrightarrow> (\<forall>s. length (sha256 s) = 32)"

lemma check_pow_eq:
  assumes "digest32 sha256"
  shows "check_pow sha256 c n now m =
    Done (case m c of
            None \<Rightarrow> False
          | Some ex \<Rightarrow> now \<le> ex \<and> be_value (sha256 (c @ n)) < 2 ^ 242,
          m(c := None))"
  using assms
  by (auto simp: check_pow_def digest32_def meets_target_value DIFFICULTY_def Let_def split: option.splits)

text \<open>The check, with the fixed-size digest made total: the operation the contract talks about.\<close>

definition redeem_pow ::
  "(string \<Rightarrow> u8 list) \<Rightarrow> string \<Rightarrow> string \<Rightarrow> nat \<Rightarrow> challenges \<Rightarrow> bool \<times> challenges" where
  "redeem_pow sha256 c n now m =
     (case check_pow sha256 c n now m of Done r \<Rightarrow> r | Panic _ \<Rightarrow> (False, m(c := None)))"

interpretation pow: one_time_store
  "\<lambda>m::challenges. m" "\<lambda>c e m. m(c \<mapsto> e)" "redeem_pow sha256" sweep
proof
  fix c n :: string and t :: nat and s :: challenges and d
  show "snd (redeem_pow sha256 c n t s) d = (if d = c then None else s d)"
    by (auto simp: redeem_pow_def check_pow_def bind_outcome_Done Let_def
        split: option.splits outcome.splits if_splits)
  show "\<exists>e. s c = Some e \<and> t \<le> e" if "fst (redeem_pow sha256 c n t s)"
    using that by (auto simp: redeem_pow_def check_pow_def bind_outcome_Done Let_def
        split: option.splits outcome.splits if_splits)
qed (auto simp: sweep_def split: option.splits if_splits)

lemma check_pow_Done:
  "check_pow sha256 c n now m = Done (ok, m') \<Longrightarrow> m' = m(c := None) \<and> (ok \<longrightarrow> m c \<noteq> None)"
  by (auto simp: check_pow_def bind_outcome_Done Let_def split: option.splits if_splits)

lemma pow_run_total: "digest32 sha \<Longrightarrow> \<exists>acc m'. pow_run hx sha es m = Done (acc, m')"
proof (induction hx sha es m rule: pow_run.induct)
  case (4 hx sha c n now es m)
  obtain ok where ok: "check_pow sha c n now m = Done (ok, m(c := None))"
    using check_pow_eq [OF 4(2)] by blast
  moreover obtain acc m' where "pow_run hx sha es (m(c := None)) = Done (acc, m')"
    using 4 by blast
  ultimately show ?case by simp
qed auto

lemma pow_run_bound:
  "pow_run hx sha es m = Done (acc, m') \<Longrightarrow>
   count_list acc c \<le> issued hx es c + (if m c = None then 0 else 1)"
proof (induction hx sha es m arbitrary: acc m' rule: pow_run.induct)
  case (2 hx sha bs now ttl es m)
  then show ?case by (fastforce simp: new_challenge_def Let_def split: if_splits)
next
  case (3 hx sha now es m)
  then show ?case by (fastforce simp: sweep_def split: if_splits option.splits)
next
  case (4 hx sha d n now es m)
  then obtain ok m1 acc1 where
    chk: "check_pow sha d n now m = Done (ok, m1)" and
    run: "pow_run hx sha es m1 = Done (acc1, m')" and
    acc: "acc = (if ok then d # acc1 else acc1)"
    by (auto simp: bind_outcome_Done)
  have "count_list acc1 c \<le> issued hx es c + (if m1 c = None then 0 else 1)"
    by (rule "4.IH" [OF run])
  with check_pow_Done [OF chk] acc show ?case by (auto split: if_splits)
qed auto

section \<open>Properties\<close>

text \<open>
  C6. A submitted solution is accepted exactly when its challenge is outstanding and not yet past
  its expiry and the SHA-256 digest of challenge and nonce, read as one big-endian number, is below
  \<open>2 ^ 242\<close> (fourteen leading zero bits of 256); the check never panics and in every case consumes the
  challenge.
\<close>

theorem check_pow_correct:
  assumes "digest32 sha256"
  shows "check_pow sha256 c n now m =
    Done ((\<exists>ex. m c = Some ex \<and> now \<le> ex) \<and> be_value (sha256 (c @ n)) < 2 ^ 242, m(c := None))"
  by (cases "m c") (auto simp: check_pow_eq [OF assms])

theorem check_pow_correct_witness:
  "check_pow (\<lambda>_. 0 # 3 # replicate 30 255) ''ab'' ''7'' 5 [''ab'' \<mapsto> 9] =
     Done (True, Map.empty)"
proof -
  let ?sha = "\<lambda>_::string. 0 # 3 # replicate 30 255 :: u8 list"
  have "digest32 ?sha" by (simp add: digest32_def)
  moreover have "meets_target (0 # 3 # replicate 30 255) 14 = Done True"
    by code_simp
  then have "be_value (?sha (''ab'' @ ''7'')) < 2 ^ 242"
    by (simp add: meets_target_value)
  ultimately show ?thesis
    using check_pow_correct [of ?sha "''ab''" "''7''" 5 "[''ab'' \<mapsto> 9]"] by simp
qed

text \<open>
  Challenges are single use whatever the interleaving: over any sequence of issuing, submitting
  and sweeping that starts from an empty store, the run completes, and no challenge is accepted more
  often than it was issued. In particular a challenge the server never issued is never accepted.
\<close>

theorem pow_single_use:
  assumes "digest32 sha256"
  shows "\<exists>acc m'. pow_run hx sha256 es Map.empty = Done (acc, m') \<and>
           (\<forall>c. count_list acc c \<le> issued hx es c)"
proof -
  obtain acc m' where run: "pow_run hx sha256 es Map.empty = Done (acc, m')"
    using pow_run_total [OF assms] by blast
  have "count_list acc c \<le> issued hx es c" for c
    using pow_run_bound [OF run, of c] by simp
  with run show ?thesis by blast
qed

theorem pow_single_use_witness:
  "pow_run (\<lambda>_. ''ab'') (\<lambda>_. replicate 32 0)
     [Issue [] 0 10, Submit ''ab'' ''1'' 3, Submit ''ab'' ''1'' 4] Map.empty = Done ([''ab''], Map.empty) \<and>
   issued (\<lambda>_. ''ab'') [Issue [] 0 10, Submit ''ab'' ''1'' 3, Submit ''ab'' ''1'' 4] ''ab'' = 1"
proof -
  let ?sha = "\<lambda>_::string. replicate 32 0 :: u8 list"
  let ?es = "[Issue [] 0 10, Submit ''ab'' ''1'' 3, Submit ''ab'' ''1'' 4]"
  have sha: "digest32 ?sha" by (simp add: digest32_def)
  have "meets_target (replicate 32 0) 14 = Done True" by code_simp
  then have "be_value (replicate 32 0) < 2 ^ 242" by (simp add: meets_target_value)
  then have "pow_run (\<lambda>_. ''ab'') ?sha ?es Map.empty = Done ([''ab''], Map.empty)"
    by (simp add: new_challenge_def Let_def check_pow_eq [OF sha])
  then show ?thesis
    using pow_single_use [OF sha, of "\<lambda>_. ''ab''" ?es] by simp
qed

text \<open>
  The periodic sweep is transparent: dropping the challenges that have expired at time \<open>t\<close> changes
  neither the verdict nor the remaining contents, as later sweeps leave them, for any submission made
  after \<open>t\<close>.
\<close>

theorem sweep_transparent:
  assumes "digest32 sha256" and "t < now"
  shows "\<exists>ok m1 m2. check_pow sha256 c n now (sweep t m) = Done (ok, m1) \<and>
           check_pow sha256 c n now m = Done (ok, m2) \<and> sweep t m2 = m1"
  using assms(2) by (auto simp: check_pow_eq [OF assms(1)] sweep_def split: option.splits)

theorem sweep_transparent_witness:
  "\<exists>ok m1 m2. check_pow (\<lambda>_. replicate 32 0) ''a'' ''1'' 8 (sweep 7 [''a'' \<mapsto> 9, ''b'' \<mapsto> 3]) = Done (ok, m1) \<and>
     check_pow (\<lambda>_. replicate 32 0) ''a'' ''1'' 8 [''a'' \<mapsto> 9, ''b'' \<mapsto> 3] = Done (ok, m2) \<and> sweep 7 m2 = m1"
  by (rule sweep_transparent) (simp_all add: digest32_def)

end
