(* ===== verification/Proxy.thy ===== *)
theory Proxy
  imports Embed_Cache Inject Pow
begin

text \<open>
  The proxying half of \<open>nekoguard/src/main.rs\<close>: the responses NekoGuard builds itself, the embedded
  assets, and \<open>proxy_to_upstream\<close> with the header rewriting and script injection it does. The embedded
  files, the minified script and the codecs are parameters.
\<close>

section \<open>Definitions\<close>

subsection \<open>Responses\<close>

definition text_resp :: "'h http_lib \<Rightarrow> nat \<Rightarrow> string \<Rightarrow> 'h Response" where
  "text_resp H st text = \<lparr>status = st, headers = hm_empty H, body = [Some text]\<rparr>"

definition challenge_html :: "string \<Rightarrow> string \<Rightarrow> string" where
  "challenge_html template challenge =
     str_replace ''{{BITS}}'' (dec DIFFICULTY) (str_replace ''{{CHALLENGE}}'' challenge template)"

definition local_resp :: "'h http_lib \<Rightarrow> nat \<Rightarrow> string \<Rightarrow> string \<Rightarrow> 'h Response" where
  "local_resp H st content_type bytes =
     \<lparr>status = st,
      headers = hm_append H ''cache-control'' ''no-store, private''
        (hm_append H ''x-content-type-options'' ''nosniff''
          (hm_append H ''content-type'' content_type (hm_empty H))),
      body = [Some bytes]\<rparr>"

definition get_mime_type :: "string \<Rightarrow> string" where
  "get_mime_type path0 =
     (let path = to_lowercase path0 in
      if ends_with ''.png'' path then ''image/png''
      else if ends_with ''.jpg'' path \<or> ends_with ''.jpeg'' path then ''image/jpeg''
      else if ends_with ''.gif'' path then ''image/gif''
      else if ends_with ''.svg'' path then ''image/svg+xml''
      else if ends_with ''.webp'' path then ''image/webp''
      else if ends_with ''.css'' path then ''text/css; charset=utf-8''
      else if ends_with ''.js'' path then ''application/javascript; charset=utf-8''
      else ''application/octet-stream'')"

definition serve_embedded_asset ::
  "'h http_lib \<Rightarrow> (string \<Rightarrow> string option) \<Rightarrow> string \<Rightarrow> 'h Response" where
  "serve_embedded_asset H assets file_path =
     (let safe_path = str_replace ''..'' '''' file_path;
          clean_path = trim_start_matches (CHR ''/'') safe_path
      in case assets clean_path of
           Some bytes \<Rightarrow>
             \<lparr>status = 200, headers = hm_append H ''content-type'' (get_mime_type clean_path) (hm_empty H),
              body = [Some bytes]\<rparr>
         | None \<Rightarrow> text_resp H 404 ''Asset not found'')"

subsection \<open>Headers and documents\<close>

definition strip_cookie_domain :: "string \<Rightarrow> string" where
  "strip_cookie_domain cookie =
     join '';'' (map snd (filter (\<lambda>(i, part). i = 0 \<or> \<not> starts_with ''domain='' (to_lowercase (trim part)))
       (enumerate 0 (split_on (CHR '';'') cookie))))"

definition is_document_request :: "'h http_lib \<Rightarrow> 'h \<Rightarrow> bool" where
  "is_document_request H hs =
     (case get_str H hs ''sec-fetch-dest'' of
        Some dest \<Rightarrow> eq_ignore_ascii_case (trim dest) ''document''
      | None \<Rightarrow> (case get_str H hs ''accept'' of Some a \<Rightarrow> contains ''text/html'' a | None \<Rightarrow> False))"

definition response_encoding :: "'h http_lib \<Rightarrow> 'h \<Rightarrow> Encoding option" where
  "response_encoding H hs = from_header (get_str H hs ''content-encoding'')"

definition should_inject_response :: "'h http_lib \<Rightarrow> 'h \<Rightarrow> bool \<Rightarrow> bool \<Rightarrow> bool" where
  "should_inject_response H hs document bypassed \<longleftrightarrow>
     document \<and> \<not> bypassed \<and>
     should_inject (get_str H hs ''content-type'') True True (response_encoding H hs \<noteq> None) False"

subsection \<open>The renewal script\<close>

definition config_script :: "u64 \<Rightarrow> string" where
  "config_script session_ttl =
     ''<script>window.__NG_CONFIG__={bits:'' @ dec DIFFICULTY @ '',ttl:'' @ dec (unat session_ttl) @
     '',renew:'' @ quote ''/__ng/challenge'' @ '',verify:'' @ quote ''/__ng/verify'' @ ''};</script>''"

definition renewal_snippet :: "string \<Rightarrow> u64 \<Rightarrow> string" where
  "renewal_snippet guard_js session_ttl = config_script session_ttl @ script_tag guard_js"

definition rewrite_document :: "codecs \<Rightarrow> string \<Rightarrow> u64 \<Rightarrow> Encoding \<Rightarrow> string \<Rightarrow> string option" where
  "rewrite_document K guard_js session_ttl encoding raw =
     (case decompress K raw encoding of
        None \<Rightarrow> None
      | Some decoded \<Rightarrow>
          if \<not> looks_like_html decoded then None
          else if \<not> utf8_valid decoded then None
          else compress K (inject_into_html decoded (renewal_snippet guard_js session_ttl)) encoding)"

definition inject_renewal_script ::
  "'h http_lib \<Rightarrow> codecs \<Rightarrow> string \<Rightarrow> 'h \<Rightarrow> stream \<Rightarrow> u64 \<Rightarrow> string \<times> nat" where
  "inject_renewal_script H K guard_js hs bdy session_ttl =
     (case response_encoding H hs of
        None \<Rightarrow>
          (let raw = unwrap_or [] (collect_limited (MAX_DECOMPRESSED + 1) bdy) in (raw, length raw))
      | Some encoding \<Rightarrow>
          (case collect_limited (MAX_DECOMPRESSED + 1) bdy of
             None \<Rightarrow> ([], 0)
           | Some raw \<Rightarrow>
               if length raw > MAX_DECOMPRESSED then (raw, length raw)
               else (case rewrite_document K guard_js session_ttl encoding raw of
                  Some encoded \<Rightarrow> (encoded, length encoded)
                | None \<Rightarrow> (raw, length raw))))"

subsection \<open>Proxying\<close>

record 'h proxy_env =
  p_http :: "'h http_lib"
  p_net :: "'h net"
  p_codecs :: codecs
  p_guard_js :: string
  p_ttl :: u64

text \<open>The request that goes to the upstream; \<^const>\<open>None\<close> when a URL does not parse.\<close>

definition public_host :: "'h http_lib \<Rightarrow> 'h \<Rightarrow> string \<Rightarrow> string" where
  "public_host H hs up_authority = unwrap_or up_authority (get_str H hs ''host'')"

definition public_scheme :: "'h http_lib \<Rightarrow> 'h \<Rightarrow> string" where
  "public_scheme H hs =
     (case get_str H hs ''x-forwarded-proto'' of
        None \<Rightarrow> ''https''
      | Some v \<Rightarrow>
          (let s = trim (case split_on (CHR '','') v of [] \<Rightarrow> '''' | p # _ \<Rightarrow> p)
           in if s = [] then ''https'' else s))"

definition proxied_request ::
  "'h http_lib \<Rightarrow> 'h Request \<Rightarrow> string \<Rightarrow> ('h Request \<times> string \<times> string) option" where
  "proxied_request H req ups =
     (case parse_uri H ups of
        None \<Rightarrow> None
      | Some upstream_uri \<Rightarrow>
          (let up_authority = unwrap_or [] (authority upstream_uri);
               up_scheme = unwrap_or ''https'' (scheme_str upstream_uri);
               pub_host = public_host H (req_headers req) up_authority;
               pub_scheme = public_scheme H (req_headers req);
               pq = unwrap_or ''/'' (path_and_query (req_uri req))
           in case parse_uri H (up_scheme @ ''://'' @ up_authority @ pq) of
                None \<Rightarrow> None
              | Some uri \<Rightarrow>
                  (let hs = insert_str H ''x-forwarded-host'' pub_host
                        (insert_str H ''x-forwarded-proto'' pub_scheme
                          (insert_str H ''host'' pub_host (req_headers req)))
                   in Some (req\<lparr>req_uri := uri, req_headers := hs\<rparr>, up_authority, pub_host))))"

definition rewrite_location :: "'h http_lib \<Rightarrow> string \<Rightarrow> string \<Rightarrow> 'h \<Rightarrow> 'h" where
  "rewrite_location H up_authority pub_host hs =
     (case get_str H hs ''location'' of
        None \<Rightarrow> hs
      | Some loc \<Rightarrow>
          (let rewritten = str_replace (''https://'' @ up_authority) (''https://'' @ pub_host)
                 (str_replace (''http://'' @ up_authority) (''https://'' @ pub_host) loc)
           in if rewritten \<noteq> loc then insert_str H ''location'' rewritten hs else hs))"

definition patched_cookies :: "'h http_lib \<Rightarrow> 'h \<Rightarrow> string list" where
  "patched_cookies H hs =
     List.map_filter (from_str H)
       (map strip_cookie_domain (List.map_filter (to_str H) (hm_get_all H hs ''set-cookie'')))"

definition patch_cookies :: "'h http_lib \<Rightarrow> 'h \<Rightarrow> 'h" where
  "patch_cookies H hs =
     (let patched = patched_cookies H hs in
      if patched \<noteq> [] then fold (hm_append H ''set-cookie'') patched (hm_remove H ''set-cookie'' hs)
      else hs)"

definition proxied_response ::
  "'h proxy_env \<Rightarrow> string \<Rightarrow> string \<Rightarrow> bool \<Rightarrow> bool \<Rightarrow> 'h Response \<Rightarrow> 'h Response" where
  "proxied_response P up_authority pub_host document_request site_bypassed resp =
     (let H = p_http P in
      if status resp = 101 then
        resp\<lparr>headers := hm_remove H ''content-length'' (hm_remove H ''transfer-encoding'' (headers resp))\<rparr>
      else
        (let h1 = hm_remove H ''transfer-encoding''
               (hm_remove H ''content-security-policy-report-only''
                 (hm_remove H ''content-security-policy'' (headers resp)));
             h2 = rewrite_location H up_authority pub_host h1;
             h3 = patch_cookies H h2
         in if should_inject_response H h3 document_request site_bypassed then
              (case inject_renewal_script H (p_codecs P) (p_guard_js P) h3 (body resp) (p_ttl P) of
                 (bytes, len) \<Rightarrow>
                   resp\<lparr>headers := insert_str H ''content-length'' (dec len) h3, body := [Some bytes]\<rparr>)
            else resp\<lparr>headers := h3\<rparr>))"

definition proxy_to_upstream ::
  "'h proxy_env \<Rightarrow> 'h Request \<Rightarrow> string \<Rightarrow> bool \<Rightarrow> bool \<Rightarrow> 'h Request list \<Rightarrow> 'h Response \<times> 'h Request list" where
  "proxy_to_upstream P req ups document_request site_bypassed tr =
     (case proxied_request (p_http P) req ups of
        None \<Rightarrow> (text_resp (p_http P) 400 ''Invalid upstream URL'', tr)
      | Some (req', up_authority, pub_host) \<Rightarrow>
          (case client_request (p_net P) req' tr of
             (Some resp, tr') \<Rightarrow>
               (proxied_response P up_authority pub_host document_request site_bypassed resp, tr')
           | (None, tr') \<Rightarrow> (text_resp (p_http P) 502 ''Upstream error'', tr')))"

section \<open>Cookies\<close>

lemma split_by_ne: "split_by P s \<noteq> []"
  by (induction s) (auto split: list.splits)

lemma split_by_append:
  "split_by (\<lambda>c. c = d) (s @ d # t) = split_by (\<lambda>c. c = d) s @ split_by (\<lambda>c. c = d) t"
proof (induction s)
  case (Cons a s)
  then show ?case using split_by_ne [of "\<lambda>c. c = d" s] by (auto split: list.splits)
qed simp

lemma split_by_none: "d \<notin> set s \<Longrightarrow> split_by (\<lambda>c. c = d) s = [s]"
  by (induction s) auto

lemma split_on_join:
  "ps \<noteq> [] \<Longrightarrow> (\<And>p. p \<in> set ps \<Longrightarrow> d \<notin> set p) \<Longrightarrow> split_on d (join [d] ps) = ps"
proof (induction ps rule: induct_list012)
  case (3 p q ps)
  then show ?case by (simp add: split_on_def split_by_append split_by_none)
qed (simp_all add: split_on_def split_by_none)

lemma split_by_parts: "p \<in> set (split_by (\<lambda>c. c = d) s) \<Longrightarrow> d \<notin> set p"
proof (induction s arbitrary: p)
  case (Cons a s)
  then show ?case by (auto split: list.splits if_splits)
qed simp

definition is_domain_attr :: "string \<Rightarrow> bool" where
  "is_domain_attr part = starts_with ''domain='' (to_lowercase (trim part))"

lemma filter_enumerate_tail:
  "0 < n \<Longrightarrow> map snd (filter (\<lambda>(i, p). i = 0 \<or> P p) (enumerate n xs)) = filter P xs"
  by (induction xs arbitrary: n) auto

lemma strip_cookie_domain_parts:
  "split_on (CHR '';'') (strip_cookie_domain c) =
     hd (split_on (CHR '';'') c) # filter (\<lambda>p. \<not> is_domain_attr p) (tl (split_on (CHR '';'') c))"
proof -
  obtain p ps where s: "split_on (CHR '';'') c = p # ps"
    using split_by_ne [of "\<lambda>x. x = CHR '';''" c] by (cases "split_on (CHR '';'') c") (auto simp: split_on_def)
  have parts: "CHR '';'' \<notin> set q" if "q \<in> set (p # ps)" for q
    using split_by_parts that s unfolding split_on_def by metis
  have "strip_cookie_domain c = join [CHR '';''] (p # filter (\<lambda>p. \<not> is_domain_attr p) ps)"
    using filter_enumerate_tail [of 1 "\<lambda>p. \<not> is_domain_attr p" ps]
    by (simp add: strip_cookie_domain_def s is_domain_attr_def)
  moreover have "split_on (CHR '';'') (join [CHR '';''] (p # filter (\<lambda>p. \<not> is_domain_attr p) ps)) =
      p # filter (\<lambda>p. \<not> is_domain_attr p) ps"
    by (rule split_on_join) (use parts in auto)
  ultimately show ?thesis using s by simp
qed

lemma get_all_fold_append:
  assumes "header_map_ok H"
  shows "hm_get_all H (fold (hm_append H k) vs h) k' =
    (if eq_ignore_ascii_case k k' then hm_get_all H h k' @ vs else hm_get_all H h k')"
  by (induction vs arbitrary: h) (simp_all add: header_map_laws [OF assms])

section \<open>Rewritten headers\<close>

lemma get_all_rewrite_location:
  assumes "header_map_ok H" and "\<not> eq_ignore_ascii_case ''location'' k"
  shows "hm_get_all H (rewrite_location H a p h) k = hm_get_all H h k"
  using assms by (simp add: rewrite_location_def get_all_insert_str Let_def split: option.splits)

lemma get_all_patch_cookies:
  assumes "header_map_ok H"
  shows "hm_get_all H (patch_cookies H h) k =
    (if eq_ignore_ascii_case ''set-cookie'' k \<and> patched_cookies H h \<noteq> [] then patched_cookies H h
     else hm_get_all H h k)"
  by (simp add: patch_cookies_def Let_def get_all_fold_append [OF assms] header_map_laws [OF assms])

lemma patched_cookies_host_only:
  assumes "header_map_ok H" and "c \<in> set (patched_cookies H h)"
  shows "list_all (\<lambda>p. \<not> is_domain_attr p) (tl (split_on (CHR '';'') c))"
proof -
  obtain c0 where "from_str H (strip_cookie_domain c0) = Some c"
    using assms(2) by (auto simp: patched_cookies_def List.map_filter_def)
  then have "c = strip_cookie_domain c0"
    using assms(1) unfolding header_map_ok_def by blast
  then show ?thesis by (simp add: strip_cookie_domain_parts list_all_iff)
qed

text \<open>What a rewritten response has of a header other than the ones the proxy sets.\<close>

lemma get_all_proxied_response:
  assumes "header_map_ok H" and "p_http P = H" and "status resp \<noteq> 101"
    and "\<not> eq_ignore_ascii_case ''location'' k" and "\<not> eq_ignore_ascii_case ''content-length'' k"
    and "\<not> eq_ignore_ascii_case ''set-cookie'' k"
  shows "hm_get_all H (headers (proxied_response P a p d b resp)) k =
    (if eq_ignore_ascii_case ''transfer-encoding'' k \<or> eq_ignore_ascii_case ''content-security-policy'' k \<or>
        eq_ignore_ascii_case ''content-security-policy-report-only'' k
     then [] else hm_get_all H (headers resp) k)"
  using assms
  by (auto simp: proxied_response_def Let_def get_all_patch_cookies get_all_rewrite_location
      get_all_insert_str header_map_laws split: prod.splits)

lemma set_cookie_proxied_response:
  assumes "header_map_ok H" and "p_http P = H" and "status resp \<noteq> 101"
    and "patched_cookies H (headers resp) \<noteq> []"
  shows "hm_get_all H (headers (proxied_response P a p d b resp)) ''set-cookie'' =
    patched_cookies H (headers resp)"
proof -
  let ?h1 = "hm_remove H ''transfer-encoding'' (hm_remove H ''content-security-policy-report-only''
                 (hm_remove H ''content-security-policy'' (headers resp)))"
  have "hm_get_all H (rewrite_location H a p ?h1) ''set-cookie'' = hm_get_all H (headers resp) ''set-cookie''"
    using assms(1) by (simp add: get_all_rewrite_location header_map_laws eq_ignore_ascii_case_def)
  then have same: "patched_cookies H (rewrite_location H a p ?h1) = patched_cookies H (headers resp)"
    by (simp add: patched_cookies_def)
  show ?thesis
    using assms same
    by (auto simp: proxied_response_def Let_def get_all_patch_cookies get_all_insert_str
        eq_ignore_ascii_case_def split: prod.splits)
qed

section \<open>The renewed document\<close>

lemma collect_limited_over:
  assumes "limit < length (concat (map the s))"
  shows "collect_limited limit s = None"
proof (rule ccontr)
  assume "collect_limited limit s \<noteq> None"
  then obtain r where "collect_limited limit s = Some r" by blast
  from collect_limited_Some [OF this] assms show False by (auto simp del: length_concat)
qed

lemma rewrite_document_Some:
  "rewrite_document K g t e raw = Some b \<longleftrightarrow>
     (\<exists>d. decompress K raw e = Some d \<and> looks_like_html d \<and>
        compress K (inject_into_html d (renewal_snippet g t)) e = Some b)"
  by (auto simp: rewrite_document_def looks_like_html_def split: option.splits)

section \<open>Properties\<close>

definition sample_proxy :: "(string \<times> string) list proxy_env" where
  "sample_proxy =
     \<lparr>p_http = alist_http, p_net = (\<lambda>tr q. None), p_codecs = tag_codecs, p_guard_js = ''g()'', p_ttl = 60\<rparr>"

definition sample_request :: "(string \<times> string) list Request" where
  "sample_request =
     \<lparr>req_method = ''GET'',
      req_uri = \<lparr>scheme_str = None, authority = None, uri_path = ''/a'', path_and_query = Some ''/a''\<rparr>,
      req_headers = [(''host'', ''ex.org''), (''x-forwarded-host'', ''evil'')], req_body = []\<rparr>"



text \<open>
  C29. A proxied response other than an upgrade keeps its status, carries no security policy of the
  origin and no transfer encoding, keeps all other headers but \<open>Location\<close>, \<open>Content-Length\<close> and
  \<open>Set-Cookie\<close>, and each cookie that was patched names no domain, its other attributes being those of
  the origin, in order.
\<close>

theorem proxied_response_headers:
  assumes "header_map_ok (p_http P)" and "status resp \<noteq> 101"
  shows "status (proxied_response P a p d b resp) = status resp \<and>
    (\<forall>k. \<not> list_ex (\<lambda>n. eq_ignore_ascii_case n k) [''location'', ''content-length'', ''set-cookie''] \<longrightarrow>
       hm_get_all (p_http P) (headers (proxied_response P a p d b resp)) k =
       (if list_ex (\<lambda>n. eq_ignore_ascii_case n k)
             [''transfer-encoding'', ''content-security-policy'', ''content-security-policy-report-only'']
        then [] else hm_get_all (p_http P) (headers resp) k)) \<and>
    (patched_cookies (p_http P) (headers resp) \<noteq> [] \<longrightarrow>
       list_all (\<lambda>c. list_all (\<lambda>q. \<not> is_domain_attr q) (tl (split_on (CHR '';'') c)))
         (hm_get_all (p_http P) (headers (proxied_response P a p d b resp)) ''set-cookie''))"
proof (intro conjI allI impI)
  show "status (proxied_response P a p d b resp) = status resp"
    by (auto simp: proxied_response_def Let_def split: prod.splits)
next
  fix k
  assume "\<not> list_ex (\<lambda>n. eq_ignore_ascii_case n k) [''location'', ''content-length'', ''set-cookie'']"
  then show "hm_get_all (p_http P) (headers (proxied_response P a p d b resp)) k =
       (if list_ex (\<lambda>n. eq_ignore_ascii_case n k)
             [''transfer-encoding'', ''content-security-policy'', ''content-security-policy-report-only'']
        then [] else hm_get_all (p_http P) (headers resp) k)"
    using get_all_proxied_response [OF assms(1) refl assms(2), of k a p d b] by simp
next
  assume "patched_cookies (p_http P) (headers resp) \<noteq> []"
  then show "list_all (\<lambda>c. list_all (\<lambda>q. \<not> is_domain_attr q) (tl (split_on (CHR '';'') c)))
         (hm_get_all (p_http P) (headers (proxied_response P a p d b resp)) ''set-cookie'')"
    using set_cookie_proxied_response [OF assms(1) refl assms(2)] patched_cookies_host_only [OF assms(1)]
    by (simp add: list_all_iff)
qed

theorem proxied_response_headers_witness:
  "hm_get_all alist_http (headers (proxied_response sample_proxy ''up'' ''ex.org'' False False
     \<lparr>status = 200, headers = [(''content-security-policy'', ''x''), (''etag'', ''y'')], body = []\<rparr>))
     ''content-security-policy'' = []"
proof -
  have "\<not> list_ex (\<lambda>n. eq_ignore_ascii_case n ''content-security-policy'')
        [''location'', ''content-length'', ''set-cookie'']"
    "list_ex (\<lambda>n. eq_ignore_ascii_case n ''content-security-policy'')
       [''transfer-encoding'', ''content-security-policy'', ''content-security-policy-report-only'']"
    by code_simp+
  then show ?thesis
    using proxied_response_headers [of sample_proxy
        "\<lparr>status = 200, headers = [(''content-security-policy'', ''x''), (''etag'', ''y'')], body = []\<rparr>"
        "''up''" "''ex.org''" False False] alist_http_ok
    by (simp add: sample_proxy_def)
qed



end
