(* ===== verification/Session.thy ===== *)
theory Session
  imports Ip_Addr
begin

text \<open>
  \<open>nekoguard/src/session.rs\<close>: the sealed clearance cookie and the sealing key shared through Redis.
  Clocks, random bytes and the monotonic instant are arguments. Base64, AES-256-GCM and serde\_json
  (third-party crates) are the fields of a record of functions, Redis is a record of commands over an
  abstract server state; what the properties need of them is stated as the predicates
  \<open>seal_lib_ok\<close>, \<open>opens_only_sealed\<close> and \<open>secret_cmds_ok\<close>.
\<close>

section \<open>Definitions\<close>

definition SECRET_KEY :: string where
  "SECRET_KEY = ''nekoguard:secret''"

definition SECRET_LEN :: nat where
  "SECRET_LEN = 32"

definition NONCE_LEN :: nat where
  "NONCE_LEN = 12"

record session =
  ip :: ipaddr
  expiry :: nat
  cookie :: string

datatype SessionError = Missing | Malformed | InvalidSignature | Expired | IpMismatch

fun session_error_text :: "SessionError \<Rightarrow> string" where
  "session_error_text Missing = ''no session cookie''"
| "session_error_text Malformed = ''malformed session cookie''"
| "session_error_text InvalidSignature = ''invalid session signature''"
| "session_error_text Expired = ''session expired''"
| "session_error_text IpMismatch = ''session IP mismatch''"

record SessionPayload =
  payload_ip :: string
  payload_exp :: u64

record SessionManager =
  key :: "u8 list"
  cookie_name :: string
  ttl :: u64

text \<open>The crates the module calls. Decoders and decryption can fail; sealing and serialising return an
  error value as well, which the code turns into a panic.\<close>

record seal_lib =
  b64_encode :: "u8 list \<Rightarrow> string"
  b64_decode :: "string \<Rightarrow> u8 list option"
  aead_encrypt :: "u8 list \<Rightarrow> u8 list \<Rightarrow> u8 list \<Rightarrow> u8 list option"
  aead_decrypt :: "u8 list \<Rightarrow> u8 list \<Rightarrow> u8 list \<Rightarrow> u8 list option"
  json_to_vec :: "SessionPayload \<Rightarrow> u8 list option"
  json_from_slice :: "u8 list \<Rightarrow> SessionPayload option"

subsection \<open>The sealing key\<close>

text \<open>\<open>GET\<close> as a byte vector (a missing key reads as the empty vector) and \<open>SET ... NX\<close>; \<open>Inl\<close> is a
  Redis error.\<close>

record 'r secret_cmds =
  get_bytes :: "'r \<Rightarrow> string \<Rightarrow> string + u8 list"
  set_nx :: "'r \<Rightarrow> string \<Rightarrow> u8 list \<Rightarrow> (string + unit) \<times> 'r"

definition key_of_secret :: "u8 list \<Rightarrow> u8 list" where
  "key_of_secret secret =
     (let n = min (length secret) 32 in take n secret @ replicate (32 - n) 0)"

text \<open>\<open>rnd\<close> are the \<open>SECRET_LEN\<close> bytes of the thread's random generator.\<close>

definition get_or_create_secret ::
  "'r secret_cmds \<Rightarrow> u8 list \<Rightarrow> 'r \<Rightarrow> u8 list outcome \<times> 'r" where
  "get_or_create_secret R rnd r =
     (let fresh =
        (case set_nx R r SECRET_KEY rnd of
           (Inl e, r') \<Rightarrow> (Panic ''redis SET secret'', r')
         | (Inr _, r') \<Rightarrow>
             (case get_bytes R r' SECRET_KEY of
                Inl e \<Rightarrow> (Panic ''redis GET secret'', r')
              | Inr final_secret \<Rightarrow> (Done (key_of_secret final_secret), r')))
      in case get_bytes R r SECRET_KEY of
           Inr secret \<Rightarrow> if secret \<noteq> [] then (Done (key_of_secret secret), r) else fresh
         | Inl e \<Rightarrow> fresh)"

definition new_with_config ::
  "'r secret_cmds \<Rightarrow> bool \<Rightarrow> u8 list \<Rightarrow> string \<Rightarrow> u64 \<Rightarrow> 'r \<Rightarrow> SessionManager outcome \<times> 'r" where
  "new_with_config R connected rnd name lifetime r =
     (if \<not> connected then (Panic ''redis connect'', r)
      else (case get_or_create_secret R rnd r of (k, r') \<Rightarrow>
        (bind_outcome k (\<lambda>secret. Done \<lparr>key = secret, cookie_name = name, ttl = lifetime\<rparr>), r')))"

definition new_manager ::
  "'r secret_cmds \<Rightarrow> bool \<Rightarrow> u8 list \<Rightarrow> 'r \<Rightarrow> SessionManager outcome \<times> 'r" where
  "new_manager R connected rnd r =
     (if \<not> connected then (Panic ''redis connect'', r)
      else (case get_or_create_secret R rnd r of (k, r') \<Rightarrow>
        (bind_outcome k (\<lambda>secret.
           Done \<lparr>key = secret, cookie_name = ''nekoguard_session'', ttl = 1800\<rparr>), r')))"

subsection \<open>Sealing and opening\<close>

text \<open>\<open>now\<close> is the wall clock in seconds since the epoch. The release build does not check overflow, so
  the addition wraps.\<close>

definition create_cookie ::
  "seal_lib \<Rightarrow> SessionManager \<Rightarrow> ipaddr \<Rightarrow> u64 \<Rightarrow> u8 list \<Rightarrow> string outcome" where
  "create_cookie L self addr now nonce_bytes =
     (let exp = now + ttl self;
          payload = \<lparr>payload_ip = ip_to_string addr, payload_exp = exp\<rparr>
      in case json_to_vec L payload of
           None \<Rightarrow> Panic ''serialize session''
         | Some plaintext \<Rightarrow>
             (case aead_encrypt L (key self) nonce_bytes plaintext of
                None \<Rightarrow> Panic ''encrypt session''
              | Some ciphertext \<Rightarrow> Done (b64_encode L (nonce_bytes @ ciphertext))))"

definition verify_cookie ::
  "seal_lib \<Rightarrow> SessionManager \<Rightarrow> string \<Rightarrow> ipaddr \<Rightarrow> u64 \<Rightarrow> nat \<Rightarrow> SessionError + session" where
  "verify_cookie L self cookie_value peer_ip now instant =
     (case b64_decode L cookie_value of
        None \<Rightarrow> Inl Malformed
      | Some blb \<Rightarrow>
          if length blb \<le> NONCE_LEN then Inl Malformed
          else (case aead_decrypt L (key self) (take NONCE_LEN blb) (drop NONCE_LEN blb) of
             None \<Rightarrow> Inl InvalidSignature
           | Some plaintext \<Rightarrow>
               (case json_from_slice L plaintext of
                  None \<Rightarrow> Inl Malformed
                | Some payload \<Rightarrow>
                    (case ip_parse (payload_ip payload) of
                       None \<Rightarrow> Inl Malformed
                     | Some cookie_ip \<Rightarrow>
                         if cookie_ip \<noteq> peer_ip then Inl IpMismatch
                         else if now > payload_exp payload then Inl Expired
                         else Inr \<lparr>ip = cookie_ip, expiry = instant + unat (ttl self),
                                   cookie = cookie_value\<rparr>))))"

subsection \<open>Workers racing for the key\<close>

text \<open>
  Several processes run \<open>get_or_create_secret\<close> against one Redis. Each Redis command is one atomic
  step; between two commands of one worker any other worker may run. \<open>Aborted\<close> is a worker whose
  \<open>expect\<close> failed.
\<close>

datatype worker = Start | Missed | Stored | Ready "u8 list" | Aborted

inductive secret_step ::
  "'r secret_cmds \<Rightarrow> 'r \<times> (nat \<Rightarrow> worker) \<Rightarrow> 'r \<times> (nat \<Rightarrow> worker) \<Rightarrow> bool"
  for R :: "'r secret_cmds" where
  get_hit: "ws i = Start \<Longrightarrow> get_bytes R r SECRET_KEY = Inr s \<Longrightarrow> s \<noteq> [] \<Longrightarrow>
     secret_step R (r, ws) (r, ws(i := Ready (key_of_secret s)))"
| get_empty: "ws i = Start \<Longrightarrow> get_bytes R r SECRET_KEY = Inr [] \<Longrightarrow>
     secret_step R (r, ws) (r, ws(i := Missed))"
| get_error: "ws i = Start \<Longrightarrow> get_bytes R r SECRET_KEY = Inl e \<Longrightarrow>
     secret_step R (r, ws) (r, ws(i := Missed))"
| set_done: "ws i = Missed \<Longrightarrow> set_nx R r SECRET_KEY rnd = (Inr (), r') \<Longrightarrow>
     secret_step R (r, ws) (r', ws(i := Stored))"
| set_error: "ws i = Missed \<Longrightarrow> set_nx R r SECRET_KEY rnd = (Inl e, r') \<Longrightarrow>
     secret_step R (r, ws) (r', ws(i := Aborted))"
| reread: "ws i = Stored \<Longrightarrow> get_bytes R r SECRET_KEY = Inr s \<Longrightarrow>
     secret_step R (r, ws) (r, ws(i := Ready (key_of_secret s)))"
| reread_error: "ws i = Stored \<Longrightarrow> get_bytes R r SECRET_KEY = Inl e \<Longrightarrow>
     secret_step R (r, ws) (r, ws(i := Aborted))"

section \<open>What the crates promise\<close>

text \<open>Encoding and decoding are inverse, sealing succeeds and opening returns what was sealed, and a
  sealed text carries its authentication tag, so it is not empty.\<close>

definition json_ok :: "seal_lib \<Rightarrow> bool" where
  "json_ok L \<longleftrightarrow> (\<forall>p. \<exists>bs. json_to_vec L p = Some bs \<and> json_from_slice L bs = Some p)"

definition seal_lib_ok :: "seal_lib \<Rightarrow> u8 list \<Rightarrow> bool" where
  "seal_lib_ok L k \<longleftrightarrow>
     (\<forall>bs. b64_decode L (b64_encode L bs) = Some bs) \<and>
     (\<forall>n pt. \<exists>ct. aead_encrypt L k n pt = Some ct \<and> ct \<noteq> [] \<and> aead_decrypt L k n ct = Some pt) \<and>
     json_ok L"

text \<open>Authenticity of the cipher in its usual idealised form: whatever opens under the key was sealed
  under it. \<open>sealed\<close> are the payload texts this server has sealed.\<close>

definition opens_only_sealed :: "seal_lib \<Rightarrow> u8 list \<Rightarrow> u8 list set \<Rightarrow> bool" where
  "opens_only_sealed L k sealed \<longleftrightarrow> (\<forall>n ct pt. aead_decrypt L k n ct = Some pt \<longrightarrow> pt \<in> sealed)"

text \<open>The payload texts of the cookies made for \<open>issued\<close>, pairs of an address and an issue time.\<close>

definition sealed_for :: "seal_lib \<Rightarrow> SessionManager \<Rightarrow> (ipaddr \<times> u64) set \<Rightarrow> u8 list set" where
  "sealed_for L self issued =
     {pt. \<exists>(a, t) \<in> issued. json_to_vec L \<lparr>payload_ip = ip_to_string a, payload_exp = t + ttl self\<rparr> = Some pt}"

text \<open>Redis: \<open>held\<close> is the stored value of the key. \<open>GET\<close> returns it or an error; \<open>SET NX\<close> stores only
  into an absent key, and a failed \<open>SET NX\<close> may or may not have taken effect.\<close>

definition nx_update :: "u8 list option \<Rightarrow> u8 list \<Rightarrow> u8 list option" where
  "nx_update old v = (case old of None \<Rightarrow> Some v | Some w \<Rightarrow> Some w)"

definition secret_cmds_ok :: "'r secret_cmds \<Rightarrow> ('r \<Rightarrow> u8 list option) \<Rightarrow> bool" where
  "secret_cmds_ok R held \<longleftrightarrow>
     (\<forall>r s. get_bytes R r SECRET_KEY = Inr s \<longrightarrow> s = (case held r of None \<Rightarrow> [] | Some v \<Rightarrow> v)) \<and>
     (\<forall>r v r'. set_nx R r SECRET_KEY v = (Inr (), r') \<longrightarrow> held r' = nx_update (held r) v) \<and>
     (\<forall>r v e r'. set_nx R r SECRET_KEY v = (Inl e, r') \<longrightarrow>
        held r' = held r \<or> held r' = nx_update (held r) v)"

section \<open>Lemmas\<close>

lemma length_key_of_secret [simp]: "length (key_of_secret s) = 32"
  by (simp add: key_of_secret_def Let_def)

lemma nx_update_Some [simp]: "nx_update (Some w) v = Some w"
  by (simp add: nx_update_def)

lemma nx_update_not_None [simp]: "nx_update old v \<noteq> None"
  by (simp add: nx_update_def split: option.splits)

lemma seal_lib_b64: "seal_lib_ok L k \<Longrightarrow> b64_decode L (b64_encode L bs) = Some bs"
  by (simp add: seal_lib_ok_def)

lemma seal_lib_aead:
  assumes "seal_lib_ok L k"
  obtains ct where "aead_encrypt L k n pt = Some ct" "ct \<noteq> []" "aead_decrypt L k n ct = Some pt"
  using assms unfolding seal_lib_ok_def by blast

lemma json_round:
  assumes "json_ok L"
  obtains bs where "json_to_vec L p = Some bs" "json_from_slice L bs = Some p"
  using assms unfolding json_ok_def by blast

lemma seal_lib_json: "seal_lib_ok L k \<Longrightarrow> json_ok L"
  by (simp add: seal_lib_ok_def)

lemma verify_created:
  assumes "seal_lib_ok L (key sm)" and "length nonce = NONCE_LEN"
    and "create_cookie L sm a now nonce = Done c"
  shows "verify_cookie L sm c a' now' i =
    (if a' \<noteq> a then Inl IpMismatch
     else if now' > now + ttl sm then Inl Expired
     else Inr \<lparr>ip = a, expiry = i + unat (ttl sm), cookie = c\<rparr>)"
proof -
  let ?p = "\<lparr>payload_ip = ip_to_string a, payload_exp = now + ttl sm\<rparr>"
  obtain pt where pt: "json_to_vec L ?p = Some pt" "json_from_slice L pt = Some ?p"
    by (rule json_round [OF seal_lib_json [OF assms(1)]])
  obtain ct where ct: "aead_encrypt L (key sm) nonce pt = Some ct" "ct \<noteq> []"
    "aead_decrypt L (key sm) nonce ct = Some pt"
    by (rule seal_lib_aead [OF assms(1)])
  have "c = b64_encode L (nonce @ ct)"
    using assms(3) pt ct by (simp add: create_cookie_def Let_def)
  then have "b64_decode L c = Some (nonce @ ct)"
    by (simp add: seal_lib_b64 [OF assms(1)])
  then show ?thesis
    using assms(2) pt ct by (auto simp: verify_cookie_def ip_parse_to_string)
qed

lemma create_cookie_total:
  assumes "seal_lib_ok L (key sm)"
  shows "\<exists>c. create_cookie L sm a now nonce = Done c"
proof -
  let ?p = "\<lparr>payload_ip = ip_to_string a, payload_exp = now + ttl sm\<rparr>"
  obtain pt where "json_to_vec L ?p = Some pt" by (rule json_round [OF seal_lib_json [OF assms]])
  moreover obtain ct where "aead_encrypt L (key sm) nonce pt = Some ct"
    by (rule seal_lib_aead [OF assms])
  ultimately show ?thesis by (simp add: create_cookie_def Let_def)
qed

lemma verify_cookie_Inr:
  "verify_cookie L sm c a now i = Inr s \<longleftrightarrow>
     (\<exists>blb pt p. b64_decode L c = Some blb \<and> length blb > NONCE_LEN \<and>
        aead_decrypt L (key sm) (take NONCE_LEN blb) (drop NONCE_LEN blb) = Some pt \<and>
        json_from_slice L pt = Some p \<and> ip_parse (payload_ip p) = Some a \<and>
        now \<le> payload_exp p \<and> s = \<lparr>ip = a, expiry = i + unat (ttl sm), cookie = c\<rparr>)"
  by (auto simp: verify_cookie_def not_less split: option.splits if_splits)

inductive_cases secret_stepE: "secret_step R (r, ws) (r', ws')"

text \<open>The invariant of the race: a worker that has its key has the one Redis holds, and a worker that has
  stored finds the key present.\<close>

definition secret_inv :: "('r \<Rightarrow> u8 list option) \<Rightarrow> 'r \<times> (nat \<Rightarrow> worker) \<Rightarrow> bool" where
  "secret_inv held st \<longleftrightarrow>
     (\<forall>i. (snd st i = Stored \<longrightarrow> held (fst st) \<noteq> None) \<and>
          (\<forall>k. snd st i = Ready k \<longrightarrow> (\<exists>s. held (fst st) = Some s \<and> k = key_of_secret s)))"

lemma secret_get:
  assumes "secret_cmds_ok R held" and "get_bytes R r SECRET_KEY = Inr s"
  shows "s = (case held r of None \<Rightarrow> [] | Some v \<Rightarrow> v)"
  using assms unfolding secret_cmds_ok_def by blast

lemma secret_set:
  assumes "secret_cmds_ok R held" and "set_nx R r SECRET_KEY v = (x, r')"
  shows "held r' = held r \<or> held r' = nx_update (held r) v"
    and "x = Inr () \<Longrightarrow> held r' = nx_update (held r) v"
  using assms unfolding secret_cmds_ok_def by (cases x; auto)+

lemma held_stable:
  assumes "secret_cmds_ok R held" and "secret_step R (r, ws) (r', ws')" and "held r = Some s"
  shows "held r' = Some s"
  using assms(2)
proof (rule secret_stepE)
qed (use assms(3) secret_set(1) [OF assms(1)] in \<open>fastforce+\<close>)

lemma secret_step_inv:
  assumes ok: "secret_cmds_ok R held" and step: "secret_step R (r, ws) (r', ws')"
    and inv: "secret_inv held (r, ws)"
  shows "secret_inv held (r', ws')"
proof -
  have old: "\<And>s. held r = Some s \<Longrightarrow> held r' = Some s"
    using held_stable [OF ok step] by blast
  from step show ?thesis
  proof (rule secret_stepE)
    fix i s
    assume "r' = r" "ws' = ws(i := Ready (key_of_secret s))" "s \<noteq> []"
      and get: "get_bytes R r SECRET_KEY = Inr s"
    with inv secret_get [OF ok get] show ?thesis
      by (auto simp: secret_inv_def split: option.splits)
  next
    fix i s
    assume "r' = r" "ws' = ws(i := Ready (key_of_secret s))" "ws i = Stored"
      and get: "get_bytes R r SECRET_KEY = Inr s"
    with inv secret_get [OF ok get] show ?thesis
      by (auto simp: secret_inv_def split: option.splits)
  next
    fix i rnd
    assume "ws' = ws(i := Stored)" and set: "set_nx R r SECRET_KEY rnd = (Inr (), r')"
    with inv old secret_set(2) [OF ok set] show ?thesis
      by (fastforce simp: secret_inv_def)
  next
    fix i rnd e
    assume "ws' = ws(i := Aborted)"
    with inv old show ?thesis by (fastforce simp: secret_inv_def)
  qed (use inv in \<open>auto simp: secret_inv_def\<close>)
qed

lemma secret_inv_ready:
  "secret_inv held (r, ws) \<Longrightarrow> ws i = Ready k \<Longrightarrow> \<exists>s. held r = Some s \<and> k = key_of_secret s"
  by (simp add: secret_inv_def)

lemma secret_run_inv:
  assumes "secret_cmds_ok R held" and "(secret_step R)\<^sup>*\<^sup>* st st'" and "secret_inv held st"
  shows "secret_inv held st'"
  using assms(2,3)
proof (induction rule: rtranclp_induct)
  case (step y z)
  then show ?case using secret_step_inv [OF assms(1)] by (metis surj_pair)
qed

section \<open>A concrete instance of the crates\<close>

text \<open>
  A textbook instance that satisfies the predicates above, used where a property is evaluated at a
  concrete input: bytes as characters, one tag byte, and a payload as 64 bits of expiry followed by
  the address text.
\<close>

definition char_byte :: "char \<Rightarrow> u8" where
  "char_byte c = of_nat (of_char c)"

definition byte_char :: "u8 \<Rightarrow> char" where
  "byte_char w = char_of (unat w)"

lemma byte_char_byte [simp]: "char_byte (byte_char w) = w"
proof -
  have "unat w < 2 ^ LENGTH(8)" by (rule unsigned_less)
  then show ?thesis by (simp add: char_byte_def byte_char_def)
qed

lemma char_byte_char [simp]: "byte_char (char_byte c) = c"
  by (simp add: char_byte_def byte_char_def unsigned_of_nat take_bit_eq_mod)

definition plain_payload :: "SessionPayload \<Rightarrow> u8 list" where
  "plain_payload p = map (\<lambda>i. of_bool (bit (payload_exp p) i)) [0..<64] @ map char_byte (payload_ip p)"

definition read_payload :: "u8 list \<Rightarrow> SessionPayload" where
  "read_payload bs =
     \<lparr>payload_ip = map byte_char (drop 64 bs),
      payload_exp = horner_sum of_bool 2 (map (\<lambda>b. b \<noteq> 0) (take 64 bs))\<rparr>"

lemma read_plain_payload: "read_payload (plain_payload p) = p"
proof -
  have "map (\<lambda>b. b \<noteq> 0) (map (\<lambda>i. of_bool (bit (payload_exp p) i) :: u8) [0..<64]) =
      map (bit (payload_exp p)) [0..<64]"
    by simp
  then show ?thesis
    by (simp add: read_payload_def plain_payload_def horner_sum_bit_eq_take_bit take_bit_word_eq_self comp_def)
qed

definition plain_seal :: "(u8 list \<Rightarrow> bool) \<Rightarrow> seal_lib" where
  "plain_seal opens =
     \<lparr>b64_encode = map byte_char, b64_decode = (\<lambda>s. Some (map char_byte s)),
      aead_encrypt = (\<lambda>k n pt. Some (7 # pt)),
      aead_decrypt = (\<lambda>k n ct. case ct of t # pt \<Rightarrow> if t = 7 \<and> opens pt then Some pt else None | [] \<Rightarrow> None),
      json_to_vec = (\<lambda>p. Some (plain_payload p)),
      json_from_slice = (\<lambda>bs. Some (read_payload bs))\<rparr>"

lemma plain_seal_json: "json_ok (plain_seal opens)"
  by (simp add: json_ok_def plain_seal_def read_plain_payload)

lemma plain_seal_ok: "seal_lib_ok (plain_seal (\<lambda>_. True)) k"
  by (simp add: seal_lib_ok_def plain_seal_json) (simp add: plain_seal_def comp_def)

text \<open>A Redis that holds at most the one key and never fails.\<close>

definition one_key_redis :: "u8 list option secret_cmds" where
  "one_key_redis =
     \<lparr>get_bytes = (\<lambda>r k. Inr (case r of None \<Rightarrow> [] | Some v \<Rightarrow> v)),
      set_nx = (\<lambda>r k v. (Inr (), nx_update r v))\<rparr>"

lemma one_key_redis_ok: "secret_cmds_ok one_key_redis (\<lambda>r. r)"
  by (simp add: secret_cmds_ok_def one_key_redis_def)

section \<open>Properties\<close>

text \<open>
  Clearance cookies round trip: a cookie the server makes for an address verifies for that address
  until its expiry and never after, and for every other address it is refused with the mismatch
  error. Making the cookie never panics.
\<close>

theorem cookie_round_trip:
  assumes "seal_lib_ok L (key sm)" and "length nonce = NONCE_LEN"
  shows "\<exists>c. create_cookie L sm a now nonce = Done c \<and>
    (\<forall>a' now' i. verify_cookie L sm c a' now' i =
      (if a' \<noteq> a then Inl IpMismatch
       else if now' > now + ttl sm then Inl Expired
       else Inr \<lparr>ip = a, expiry = i + unat (ttl sm), cookie = c\<rparr>))"
  using create_cookie_total [OF assms(1)] verify_created [OF assms] by metis

theorem cookie_round_trip_witness:
  "\<exists>c. create_cookie (plain_seal (\<lambda>_. True)) \<lparr>key = [], cookie_name = ''s'', ttl = 1800\<rparr>
         (V4 10 0 0 7) 1000 (replicate 12 5) = Done c \<and>
       verify_cookie (plain_seal (\<lambda>_. True)) \<lparr>key = [], cookie_name = ''s'', ttl = 1800\<rparr>
         c (V4 10 0 0 8) 1000 0 = Inl IpMismatch \<and>
       verify_cookie (plain_seal (\<lambda>_. True)) \<lparr>key = [], cookie_name = ''s'', ttl = 1800\<rparr>
         c (V4 10 0 0 7) 2801 0 = Inl Expired \<and>
       verify_cookie (plain_seal (\<lambda>_. True)) \<lparr>key = [], cookie_name = ''s'', ttl = 1800\<rparr>
         c (V4 10 0 0 7) 2800 0 = Inr \<lparr>ip = V4 10 0 0 7, expiry = 1800, cookie = c\<rparr>"
proof -
  let ?sm = "\<lparr>key = [], cookie_name = ''s'', ttl = 1800\<rparr>"
  have ok: "seal_lib_ok (plain_seal (\<lambda>_. True)) (key ?sm)" by (rule plain_seal_ok)
  have n: "length (replicate 12 5 :: u8 list) = NONCE_LEN" by (simp add: NONCE_LEN_def)
  from cookie_round_trip [OF ok n, of "V4 10 0 0 7" 1000] show ?thesis
    by auto
qed

text \<open>
  C5. No forged clearance: if the cipher opens only what this server sealed, then every cookie that
  verifies for an address at some time was issued by the server for that very address, and its
  lifetime has not passed.
\<close>

theorem cookie_sound:
  assumes "json_ok L" and "opens_only_sealed L (key sm) (sealed_for L sm issued)"
    and "verify_cookie L sm c a now i = Inr s"
  shows "\<exists>t. (a, t) \<in> issued \<and> now \<le> t + ttl sm"
proof -
  obtain n ct pt p where dec: "aead_decrypt L (key sm) n ct = Some pt"
    and p: "json_from_slice L pt = Some p" "ip_parse (payload_ip p) = Some a" "now \<le> payload_exp p"
    using assms(3) by (auto simp: verify_cookie_Inr)
  then have "pt \<in> sealed_for L sm issued"
    using assms(2) unfolding opens_only_sealed_def by blast
  then obtain b t where bt: "(b, t) \<in> issued"
    "json_to_vec L \<lparr>payload_ip = ip_to_string b, payload_exp = t + ttl sm\<rparr> = Some pt"
    by (auto simp: sealed_for_def)
  then have "p = \<lparr>payload_ip = ip_to_string b, payload_exp = t + ttl sm\<rparr>"
    using json_round [OF assms(1)] p(1) by (metis option.inject)
  with p bt show ?thesis by (auto simp: ip_parse_to_string)
qed

theorem cookie_sound_witness:
  "\<exists>t. (V4 10 0 0 7, t) \<in> {(V4 10 0 0 7, 1000)} \<and> (1500::u64) \<le> t + 1800"
proof -
  let ?sm = "\<lparr>key = [], cookie_name = ''s'', ttl = 1800\<rparr>"
  let ?p = "\<lparr>payload_ip = ip_to_string (V4 10 0 0 7), payload_exp = 1000 + 1800\<rparr>"
  let ?L = "plain_seal (\<lambda>pt. pt = plain_payload ?p)"
  let ?c = "map byte_char (replicate 12 5 @ 7 # plain_payload ?p)"
  have "opens_only_sealed ?L (key ?sm) (sealed_for ?L ?sm {(V4 10 0 0 7, 1000)})"
    by (auto simp: opens_only_sealed_def sealed_for_def plain_seal_def split: list.splits if_splits)
  moreover have "b64_decode ?L ?c = Some (replicate 12 5 @ 7 # plain_payload ?p)"
    by (simp add: plain_seal_def comp_def)
  then have "verify_cookie ?L ?sm ?c (V4 10 0 0 7) 1500 0 = Inr \<lparr>ip = V4 10 0 0 7, expiry = 1800, cookie = ?c\<rparr>"
    using ip_parse_to_string [of "V4 10 0 0 7"]
    by (simp add: verify_cookie_def NONCE_LEN_def plain_seal_def read_plain_payload)
  ultimately show ?thesis
    using cookie_sound [OF plain_seal_json, where sm = ?sm] by fastforce
qed

text \<open>
  C31. Workers agree on the sealing key: however the Redis commands of any number of starting processes
  interleave, and whichever of them fail, two processes that obtain a key obtain the same one, of 32
  bytes.
\<close>

theorem secret_race_agree:
  assumes "secret_cmds_ok R held" and "(secret_step R)\<^sup>*\<^sup>* (r0, \<lambda>_. Start) (r, ws)"
    and "ws i = Ready k" and "ws j = Ready k'"
  shows "k = k' \<and> length k = 32"
proof -
  have "secret_inv held (r0, \<lambda>_. Start)" by (simp add: secret_inv_def)
  then have "secret_inv held (r, ws)" by (rule secret_run_inv [OF assms(1,2)])
  from secret_inv_ready [OF this assms(3)] secret_inv_ready [OF this assms(4)]
  show ?thesis by auto
qed

theorem secret_race_agree_witness:
  "\<exists>r ws k. (secret_step one_key_redis)\<^sup>*\<^sup>* (None, \<lambda>_. Start) (r, ws) \<and>
     ws 0 = Ready k \<and> ws 1 = Ready k \<and> length k = 32"
proof -
  let ?R = one_key_redis and ?S = "Some [1::u8, 2]" and ?k = "key_of_secret [1, 2]"
  let ?w0 = "\<lambda>_::nat. Start"
  have "secret_step ?R (None, ?w0) (None, ?w0(0 := Missed))"
    by (rule secret_step.get_empty) (simp_all add: one_key_redis_def)
  moreover have "secret_step ?R (None, ?w0(0 := Missed)) (?S, (?w0(0 := Missed))(0 := Stored))"
    by (rule secret_step.set_done [where rnd = "[1, 2]"]) (simp_all add: one_key_redis_def nx_update_def)
  moreover have "secret_step ?R (?S, (?w0(0 := Missed))(0 := Stored))
      (?S, ((?w0(0 := Missed))(0 := Stored))(1 := Ready ?k))"
    by (rule secret_step.get_hit) (simp_all add: one_key_redis_def)
  moreover have "secret_step ?R (?S, ((?w0(0 := Missed))(0 := Stored))(1 := Ready ?k))
      (?S, (((?w0(0 := Missed))(0 := Stored))(1 := Ready ?k))(0 := Ready ?k))"
    by (rule secret_step.reread) (simp_all add: one_key_redis_def)
  ultimately have run: "(secret_step ?R)\<^sup>*\<^sup>* (None, ?w0)
      (?S, (((?w0(0 := Missed))(0 := Stored))(1 := Ready ?k))(0 := Ready ?k))"
    by (meson converse_rtranclp_into_rtranclp rtranclp.rtrancl_refl)
  then show ?thesis
    using secret_race_agree [OF one_key_redis_ok run, of 0 ?k 1 ?k] by fastforce
qed

text \<open>
  \<open>get_or_create_secret\<close> is one worker of that race: when it returns a key, its Redis commands are a
  run of the step relation that ends with this worker holding the key.
\<close>

theorem get_or_create_secret_refines:
  assumes "get_or_create_secret R rnd r = (Done k, r')" and "ws i = Start"
  shows "(secret_step R)\<^sup>*\<^sup>* (r, ws) (r', ws(i := Ready k))"
proof (cases "\<exists>s. get_bytes R r SECRET_KEY = Inr s \<and> s \<noteq> []")
  case True
  then obtain s where s: "get_bytes R r SECRET_KEY = Inr s" "s \<noteq> []" by blast
  then have "k = key_of_secret s" "r' = r"
    using assms(1) by (auto simp: get_or_create_secret_def Let_def)
  then show ?thesis using secret_step.get_hit [of ws i R r s] assms(2) s by simp
next
  case False
  then have miss: "secret_step R (r, ws) (r, ws(i := Missed))"
    using assms(2) by (cases "get_bytes R r SECRET_KEY") (auto intro: secret_step.intros)
  obtain s where set: "set_nx R r SECRET_KEY rnd = (Inr (), r')"
    and get: "get_bytes R r' SECRET_KEY = Inr s" and k: "k = key_of_secret s"
    using assms(1) False
    by (auto simp: get_or_create_secret_def Let_def split: sum.splits prod.splits unit.splits if_splits)
  have "secret_step R (r, ws(i := Missed)) (r', ws(i := Stored))"
    using secret_step.set_done [of "ws(i := Missed)" i R r rnd r'] set by simp
  moreover have "secret_step R (r', ws(i := Stored)) (r', ws(i := Ready k))"
    using secret_step.reread [of "ws(i := Stored)" i R r' s] get k by simp
  ultimately show ?thesis using miss by (meson converse_rtranclp_into_rtranclp rtranclp.rtrancl_refl)
qed

theorem get_or_create_secret_refines_witness:
  "(secret_step one_key_redis)\<^sup>*\<^sup>* (None, \<lambda>_. Start)
     (Some [9], (\<lambda>_. Start)(0 := Ready (9 # replicate 31 0)))"
proof -
  have "get_or_create_secret one_key_redis [9] None = (Done (9 # replicate 31 0), Some [9])"
    by (simp add: get_or_create_secret_def one_key_redis_def nx_update_def key_of_secret_def)
  from get_or_create_secret_refines [OF this, of "\<lambda>_. Start" 0] show ?thesis by simp
qed

text \<open>
  An empty value stored under the key is never replaced: \<open>SET NX\<close> leaves it in place and the re-read
  returns it, so every process that starts against such a Redis seals its cookies with the all-zero
  key.
\<close>

theorem empty_secret_gives_zero_key:
  assumes "secret_cmds_ok R held" and "held r = Some []"
    and "get_or_create_secret R rnd r = (Done k, r')"
  shows "k = replicate 32 0 \<and> held r' = Some []"
proof -
  have get: "s = []" if "get_bytes R q SECRET_KEY = Inr s" "held q = Some []" for q s
    using secret_get [OF assms(1) that(1)] that(2) by simp
  have "held q = Some []" if "set_nx R r SECRET_KEY rnd = (x, q)" for x q
    using secret_set(1) [OF assms(1) that] assms(2) by auto
  then show ?thesis
    using assms(2,3) get
    by (fastforce simp: get_or_create_secret_def key_of_secret_def Let_def
        split: sum.splits prod.splits unit.splits if_splits)
qed

theorem empty_secret_gives_zero_key_witness:
  "get_or_create_secret one_key_redis [9, 9] (Some []) = (Done (replicate 32 0), Some [])"
proof -
  have run: "get_or_create_secret one_key_redis [9, 9] (Some []) = (Done (key_of_secret []), Some [])"
    by (simp add: get_or_create_secret_def one_key_redis_def)
  from empty_secret_gives_zero_key [OF one_key_redis_ok refl run] run show ?thesis by simp
qed

end
