(* ===== verification/Rust_F64.thy ===== *)
theory Rust_F64
  imports Complex_Main "HOL-Library.Log_Nat"
begin

text \<open>
  The \<open>f64\<close> arithmetic of the rate limiter. A finite non-negative double is the rational number it
  denotes; each operation computes the exact result and rounds it to 53 significant bits, ties to
  even. The limiter's values lie between \<open>1/1000\<close> and \<open>2 ^ 97\<close> or are zero, so neither overflow nor
  subnormal numbers occur.
\<close>

section \<open>Definitions\<close>

text \<open>The exponent of a positive rational: \<open>2 powi binade x \<le> x < 2 powi (binade x + 1)\<close>.\<close>

definition binade :: "rat \<Rightarrow> int" where
  "binade x =
     (case quotient_of x of (p, q) \<Rightarrow>
        let k = bitlen p - bitlen q in if 2 powi k \<le> x then k else k - 1)"

definition round_even :: "rat \<Rightarrow> int" where
  "round_even x =
     (let f = \<lfloor>x\<rfloor>; d = x - of_int f
      in if d < 1/2 then f else if d > 1/2 then f + 1 else if even f then f else f + 1)"

definition rnd :: "rat \<Rightarrow> rat" where
  "rnd x =
     (if x = 0 then 0
      else (let e = binade x - 52 in of_int (round_even (x / 2 powi e)) * 2 powi e))"

definition f64_of_nat :: "nat \<Rightarrow> rat" where
  "f64_of_nat n = rnd (of_nat n)"

definition f64_div :: "rat \<Rightarrow> rat \<Rightarrow> rat" where
  "f64_div x y = rnd (x / y)"

definition f64_mul :: "rat \<Rightarrow> rat \<Rightarrow> rat" where
  "f64_mul x y = rnd (x * y)"

definition f64_add :: "rat \<Rightarrow> rat \<Rightarrow> rat" where
  "f64_add x y = rnd (x + y)"

section \<open>Rounding\<close>

lemma binade_bounds:
  assumes "0 < x"
  shows "2 powi binade x \<le> x" and "x < 2 powi (binade x + 1)"
proof -
  obtain p q where pq: "quotient_of x = (p, q)" by fastforce
  have q: "0 < q" using quotient_of_denom_pos [OF pq] .
  have x: "x = of_int p / of_int q" using quotient_of_div [OF pq] .
  have p: "0 < p" using assms q x by (simp add: zero_less_divide_iff)
  have len: "1 \<le> bitlen p" "1 \<le> bitlen q"
    using p q by (auto simp: bitlen_alt_def)
  have P: "2 powi (bitlen p - 1) \<le> (of_int p :: rat)" "(of_int p :: rat) < 2 powi bitlen p"
    using bitlen_bounds [OF p] len
    by (auto simp: power_int_def of_int_le_iff [symmetric] of_int_less_iff [symmetric]
        simp del: of_int_le_iff of_int_less_iff)
  have Q: "2 powi (bitlen q - 1) \<le> (of_int q :: rat)" "(of_int q :: rat) < 2 powi bitlen q"
    using bitlen_bounds [OF q] len
    by (auto simp: power_int_def of_int_le_iff [symmetric] of_int_less_iff [symmetric]
        simp del: of_int_le_iff of_int_less_iff)
  let ?k = "bitlen p - bitlen q"
  have "2 powi (bitlen p - 1) / 2 powi bitlen q \<le> x"
    unfolding x using P Q q p by (intro frac_le) auto
  then have lo: "2 powi (?k - 1) \<le> x"
    by (simp add: power_int_diff)
  have "x < 2 powi bitlen p / 2 powi (bitlen q - 1)"
    unfolding x using P Q q p by (intro frac_less) (auto intro: less_imp_le)
  then have hi: "x < 2 powi (?k + 1)"
    by (simp add: power_int_diff power_int_add)
  show "2 powi binade x \<le> x" "x < 2 powi (binade x + 1)"
    using lo hi pq by (auto simp: binade_def Let_def)
qed

lemma round_even_bounds: "\<lfloor>x\<rfloor> \<le> round_even x" "round_even x \<le> \<lfloor>x\<rfloor> + 1"
  by (auto simp: round_even_def Let_def)

lemma round_even_int [simp]: "round_even (of_int i) = i"
  by (simp add: round_even_def)

lemma round_even_mono:
  assumes "x \<le> y"
  shows "round_even x \<le> round_even y"
proof (cases "\<lfloor>x\<rfloor> = \<lfloor>y\<rfloor>")
  case True
  then show ?thesis using assms by (auto simp: round_even_def Let_def)
next
  case False
  then have "\<lfloor>x\<rfloor> < \<lfloor>y\<rfloor>" using floor_mono [OF assms] by simp
  then show ?thesis using round_even_bounds(2) [of x] round_even_bounds(1) [of y] by linarith
qed

lemma round_even_err: "of_int (round_even x) \<le> x + 1/2"
  by (simp add: round_even_def Let_def)
    (intro conjI impI; use of_int_floor_le [of x] in linarith)

lemma rnd_0 [simp]: "rnd 0 = 0"
  by (simp add: rnd_def)

lemma rnd_range:
  assumes "0 < x"
  shows "2 powi binade x \<le> rnd x" and "rnd x \<le> 2 powi (binade x + 1)"
proof -
  let ?e = "binade x - 52"
  have e: "(2::rat) powi (binade x) = 2 ^ 52 * 2 powi ?e" "(2::rat) powi (binade x + 1) = 2 ^ 53 * 2 powi ?e"
    by (simp_all add: power_int_diff power_int_add)
  have pos: "(0::rat) < 2 powi ?e" by simp
  have "2 ^ 52 \<le> x / 2 powi ?e" "x / 2 powi ?e \<le> 2 ^ 53"
    using binade_bounds [OF assms] pos unfolding e by (simp_all add: field_simps)
  then have "round_even (of_int (2 ^ 52)) \<le> round_even (x / 2 powi ?e)"
    "round_even (x / 2 powi ?e) \<le> round_even (of_int (2 ^ 53))"
    by (auto intro!: round_even_mono)
  then have "2 ^ 52 \<le> round_even (x / 2 powi ?e)" "round_even (x / 2 powi ?e) \<le> 2 ^ 53"
    by (simp_all only: round_even_int)
  then have "rat_of_int (2 ^ 52) \<le> of_int (round_even (x / 2 powi ?e))"
    "of_int (round_even (x / 2 powi ?e)) \<le> rat_of_int (2 ^ 53)"
    by (simp_all only: of_int_le_iff)
  then have "(2 ^ 52 :: rat) \<le> of_int (round_even (x / 2 powi ?e))"
    "of_int (round_even (x / 2 powi ?e)) \<le> (2 ^ 53 :: rat)"
    by simp_all
  then show "2 powi binade x \<le> rnd x" "rnd x \<le> 2 powi (binade x + 1)"
    using assms pos unfolding e rnd_def by (simp_all add: Let_def)
qed

lemma binade_mono: "0 < x \<Longrightarrow> x \<le> y \<Longrightarrow> binade x \<le> binade y"
  by (rule ccontr)
    (use binade_bounds(1) [of x] binade_bounds(2) [of y]
        power_int_increasing [of "binade y + 1" "binade x" "2::rat"] in auto)

lemma rnd_nonneg [simp]: "0 \<le> x \<Longrightarrow> 0 \<le> rnd x"
  using order_trans [OF zero_le_power_int [of "2::rat" "binade x"] rnd_range(1) [of x]]
  by (cases "x = 0") auto

lemma rnd_mono:
  assumes "0 \<le> x" and "x \<le> y"
  shows "rnd x \<le> rnd y"
proof (cases "x = 0")
  case True
  then show ?thesis using assms by simp
next
  case False
  then have x: "0 < x" "0 < y" using assms by auto
  show ?thesis
  proof (cases "binade x = binade y")
    case True
    have "round_even (x / 2 powi (binade y - 52)) \<le> round_even (y / 2 powi (binade y - 52))"
      using assms by (intro round_even_mono divide_right_mono) auto
    then show ?thesis using x True by (simp add: rnd_def Let_def)
  next
    case False
    then have "binade x + 1 \<le> binade y" using binade_mono [OF x(1) assms(2)] by simp
    then have "(2::rat) powi (binade x + 1) \<le> 2 powi binade y"
      by (intro power_int_increasing) auto
    then show ?thesis using rnd_range(2) [OF x(1)] rnd_range(1) [OF x(2)] by linarith
  qed
qed

lemma rnd_upper:
  assumes "0 \<le> x"
  shows "rnd x \<le> x * (1 + 1 / 2 ^ 53)"
proof (cases "x = 0")
  case True
  then show ?thesis by simp
next
  case False
  then have x: "0 < x" using assms by simp
  let ?e = "binade x - 52"
  have pos: "(0::rat) < 2 powi ?e" by simp
  have "2 ^ 52 * 2 powi ?e \<le> x"
    using binade_bounds(1) [OF x] by (simp add: power_int_diff)
  then have half: "2 powi ?e / 2 \<le> x / 2 ^ 53" by (simp add: field_simps)
  have "of_int (round_even (x / 2 powi ?e)) * 2 powi ?e \<le> (x / 2 powi ?e + 1/2) * 2 powi ?e"
    using round_even_err pos by (intro mult_right_mono) auto
  also have "\<dots> = x + 2 powi ?e / 2" using pos by (simp add: field_simps)
  finally show ?thesis using x half by (simp add: rnd_def Let_def distrib_left)
qed

lemma rnd_nat:
  assumes "n \<le> 2 ^ 53"
  shows "rnd (of_nat n) = of_nat n"
proof (cases "n = 0 \<or> n = 2 ^ 53")
  case True
  moreover have "quotient_of (2 ^ 53) = (2 ^ 53, 1)" by (simp add: quotient_of_int)
  then have "binade (2 ^ 53) = 53"
    using bitlen_pow2 [of 1 53] by (simp add: binade_def bitlen_def floorlog_def)
  ultimately show ?thesis
    using round_even_int [of "2 ^ 52"] by (auto simp: rnd_def Let_def)
next
  case False
  then have n: "0 < n" "n < 2 ^ 53" using assms by auto
  have "(of_nat n :: rat) < 2 powi 53"
    using n by (simp add: of_nat_less_iff [symmetric] del: of_nat_less_iff)
  then have "\<not> 53 \<le> binade (of_nat n)"
    using binade_bounds(1) [of "of_nat n"] power_int_increasing [of 53 "binade (of_nat n)" "2::rat"] n
    by fastforce
  then have "0 \<le> 52 - binade (of_nat n)" by simp
  then obtain k where "52 - binade (of_nat n) = int k" by (rule nonneg_int_cases)
  then have k: "binade (of_nat n) - 52 = - int k" by simp
  have "(of_nat n :: rat) / 2 powi (- int k) = of_int (int n * 2 ^ k)"
    by (simp add: power_int_minus field_simps)
  then have "round_even (of_nat n / 2 powi (- int k)) = int n * 2 ^ k"
    by (simp only: round_even_int)
  then show ?thesis
    unfolding rnd_def Let_def k using n by (simp add: power_int_minus field_simps)
qed

lemma rnd_ge_nat: "n \<le> 2 ^ 53 \<Longrightarrow> of_nat n \<le> x \<Longrightarrow> of_nat n \<le> rnd x"
  using rnd_mono [of "of_nat n" x] rnd_nat [of n] by simp

end
