(* ===== verification/Rate_Limit.thy ===== *)
theory Rate_Limit
  imports Site_Config Rust_F64
begin

text \<open>
  \<open>nekoguard/src/ratelimit.rs\<close>: the token bucket kept in Redis per client address. The Redis
  commands are parameters over an abstract server state \<open>'r\<close>; the clock is read once per call and
  passed in, in milliseconds since the epoch. The reply of \<open>HMGET\<close> is \<^const>\<open>None\<close> when the
  command fails or a field is missing or is not a number, which is what \<open>.ok()\<close> makes of it; the
  replies of \<open>HMSET\<close> and \<open>EXPIRE\<close> are ignored by the code.
\<close>

section \<open>Definitions\<close>

definition KEY_PREFIX :: string where
  "KEY_PREFIX = ''nekoguard:rl:''"

type_synonym bucket = "u64 \<times> u64"

record 'r rl_cmds =
  hmget :: "string \<Rightarrow> 'r \<Rightarrow> bucket option \<times> 'r"
  hmset :: "string \<Rightarrow> u64 \<Rightarrow> u64 \<Rightarrow> 'r \<Rightarrow> 'r"
  expire :: "string \<Rightarrow> nat \<Rightarrow> 'r \<Rightarrow> 'r"

definition rl_key :: "ipaddr \<Rightarrow> string" where
  "rl_key a = KEY_PREFIX @ ip_to_string a"

definition saturating_sub :: "u64 \<Rightarrow> u64 \<Rightarrow> u64" where
  "saturating_sub a b = (if a \<le> b then 0 else a - b)"

text \<open>The number of tokens after the refill, computed in \<open>f64\<close>.\<close>

definition refilled :: "RateLimitConfig \<Rightarrow> u64 \<Rightarrow> bucket \<Rightarrow> u64" where
  "refilled config now_ms b =
     (case b of (tokens, last_refill_ms) \<Rightarrow>
       let elapsed_ms = saturating_sub now_ms last_refill_ms;
           refill = f64_mul (f64_div (f64_of_nat (unat elapsed_ms)) 1000) (f64_of_nat (unat (rps config)))
       in of_nat (nat \<lfloor>min (f64_add (f64_of_nat (unat tokens)) refill) (f64_of_nat (unat (burst config)))\<rfloor>))"

definition max_rpm_tokens :: "RateLimitConfig \<Rightarrow> u64" where
  "max_rpm_tokens config = (if rpm config > 0 then ucast (rpm config) else - 1)"

text \<open>The verdict and the token count that is written back.\<close>

definition decide :: "RateLimitConfig \<Rightarrow> u64 \<Rightarrow> bucket option \<Rightarrow> bool \<times> u64" where
  "decide config now_ms bucket =
     (let new_tokens = refilled config now_ms (unwrap_or (ucast (burst config), now_ms) bucket)
      in if new_tokens \<ge> 1 \<and> new_tokens \<le> max_rpm_tokens config
         then (True, new_tokens - 1)
         else (False, min new_tokens (max_rpm_tokens config)))"

definition write_back :: "'r rl_cmds \<Rightarrow> string \<Rightarrow> u64 \<Rightarrow> u64 \<Rightarrow> 'r \<Rightarrow> 'r" where
  "write_back R k tokens now_ms r = expire R k 3600 (hmset R k tokens now_ms r)"

definition allow :: "'r rl_cmds \<Rightarrow> ipaddr \<Rightarrow> RateLimitConfig \<Rightarrow> u64 \<Rightarrow> 'r \<Rightarrow> bool \<times> 'r" where
  "allow R a config now_ms r =
     (if \<not> enabled config \<or> rps config = 0 then (True, r)
      else (case hmget R (rl_key a) r of (bucket, r1) \<Rightarrow>
        case decide config now_ms bucket of (ok, tokens) \<Rightarrow>
          (ok, write_back R (rl_key a) tokens now_ms r1)))"

text \<open>A sequence of requests, each an address and the time of its call, one call at a time; the result
  pairs each request with its verdict.\<close>

fun allow_run ::
  "'r rl_cmds \<Rightarrow> RateLimitConfig \<Rightarrow> (ipaddr \<times> u64) list \<Rightarrow> 'r \<Rightarrow> bool list \<times> 'r" where
  "allow_run R config [] r = ([], r)"
| "allow_run R config ((a, t) # qs) r =
     (case allow R a config t r of (ok, r1) \<Rightarrow>
        case allow_run R config qs r1 of (oks, r2) \<Rightarrow> (ok # oks, r2))"

text \<open>How many of the requests from \<open>a\<close> were admitted.\<close>

definition admitted :: "ipaddr \<Rightarrow> (ipaddr \<times> u64) list \<Rightarrow> bool list \<Rightarrow> nat" where
  "admitted a qs oks = length (filter (\<lambda>((b, t), ok). b = a \<and> ok) (zip qs oks))"

text \<open>
  What the limiter relies on of Redis, with \<open>view r\<close> the numeric bucket stored under each key:
  \<open>HMGET\<close> reads, \<open>HMSET\<close> overwrites the two fields, and setting an expiry an hour ahead changes
  nothing now.
\<close>

definition rl_cmds_ok :: "'r rl_cmds \<Rightarrow> ('r \<Rightarrow> string \<Rightarrow> bucket option) \<Rightarrow> bool" where
  "rl_cmds_ok R view \<longleftrightarrow>
     (\<forall>k r. fst (hmget R k r) = view r k \<and> view (snd (hmget R k r)) = view r) \<and>
     (\<forall>k a b r. view (hmset R k a b r) = (view r)(k \<mapsto> (a, b))) \<and>
     (\<forall>k n r. view (expire R k n r) = view r)"

section \<open>The refill\<close>

lemma unat_saturating_sub: "unat (saturating_sub a b) = unat a - unat b"
  by (simp add: saturating_sub_def unat_sub_if' word_le_nat_alt)

lemma unat_less_u32: "unat (w :: u32) < 2 ^ 32"
proof -
  have "unat w < 2 ^ LENGTH(32)" by (rule unsigned_less)
  then show ?thesis by simp
qed

lemma unat_less_u64: "unat (w :: u64) < 2 ^ 64"
proof -
  have "unat w < 2 ^ LENGTH(64)" by (rule unsigned_less)
  then show ?thesis by simp
qed

lemma f64_u32 [simp]: "f64_of_nat (unat (w :: u32)) = of_nat (unat w)"
  unfolding f64_of_nat_def by (rule rnd_nat) (use unat_less_u32 [of w] in simp)

text \<open>
  The bucket as a real number, before rounding: the refill is at most the exact refill times three
  rounding factors.
\<close>

lemma refill_upper:
  fixes e r t :: nat
  shows "f64_add (f64_of_nat t) (f64_mul (f64_div (f64_of_nat e) 1000) (of_nat r))
         \<le> (of_nat t + of_nat (e * r) / 1000) * (1 + 1 / 2 ^ 53) ^ 4"
proof -
  let ?d = "1 + 1 / 2 ^ 53 :: rat"
  have d: "1 \<le> ?d" by simp
  have up: "rnd x \<le> x * ?d" if "0 \<le> x" for x using rnd_upper [OF that] .
  have e: "f64_of_nat e \<le> of_nat e * ?d" "0 \<le> f64_of_nat e"
    unfolding f64_of_nat_def by (rule up; simp) simp
  have "f64_div (f64_of_nat e) 1000 \<le> (f64_of_nat e / 1000) * ?d"
    unfolding f64_div_def using e(2) by (intro up) simp
  also have "\<dots> \<le> (of_nat e * ?d / 1000) * ?d"
    using e by (intro mult_right_mono divide_right_mono) auto
  finally have q: "f64_div (f64_of_nat e) 1000 \<le> of_nat e / 1000 * ?d ^ 2"
    by (simp add: power2_eq_square mult.assoc)
  have q0: "0 \<le> f64_div (f64_of_nat e) 1000"
    using e by (simp add: f64_div_def)
  have "f64_mul (f64_div (f64_of_nat e) 1000) (of_nat r) \<le> (f64_div (f64_of_nat e) 1000 * of_nat r) * ?d"
    unfolding f64_mul_def using q0 by (intro up) simp
  also have "\<dots> \<le> (of_nat e / 1000 * ?d ^ 2 * of_nat r) * ?d"
    using q by (intro mult_right_mono) auto
  finally have m: "f64_mul (f64_div (f64_of_nat e) 1000) (of_nat r) \<le> of_nat (e * r) / 1000 * ?d ^ 3"
    by (simp add: power2_eq_square power3_eq_cube ac_simps)
  have m0: "0 \<le> f64_mul (f64_div (f64_of_nat e) 1000) (of_nat r)"
    using q0 by (simp add: f64_mul_def)
  have t: "f64_of_nat t \<le> of_nat t * ?d" "0 \<le> f64_of_nat t"
    unfolding f64_of_nat_def by (rule up; simp) simp
  have "of_nat t * ?d \<le> of_nat t * ?d ^ 3"
    using power_increasing [OF _ d, of 1 3] by (intro mult_left_mono) auto
  with t m have "f64_of_nat t + f64_mul (f64_div (f64_of_nat e) 1000) (of_nat r)
      \<le> (of_nat t + of_nat (e * r) / 1000) * ?d ^ 3"
    by (simp add: distrib_right)
  then have "(f64_of_nat t + f64_mul (f64_div (f64_of_nat e) 1000) (of_nat r)) * ?d
      \<le> (of_nat t + of_nat (e * r) / 1000) * ?d ^ 3 * ?d"
    by (intro mult_right_mono) auto
  moreover have "f64_add (f64_of_nat t) (f64_mul (f64_div (f64_of_nat e) 1000) (of_nat r))
      \<le> (f64_of_nat t + f64_mul (f64_div (f64_of_nat e) 1000) (of_nat r)) * ?d"
    unfolding f64_add_def using t m0 by (intro up) simp
  ultimately show ?thesis
    by (simp add: power_numeral_reduce ac_simps)
qed

lemma refill_nonneg:
  "0 \<le> f64_add (f64_of_nat t) (f64_mul (f64_div (f64_of_nat e) 1000) (of_nat r))"
  by (simp add: f64_add_def f64_mul_def f64_div_def f64_of_nat_def)

text \<open>An integer the rounded sum reaches was reached exactly, as long as it is within 32 bits.\<close>

lemma refill_reaches:
  assumes "of_nat k \<le> f64_add (f64_of_nat t) (f64_mul (f64_div (f64_of_nat e) 1000) (of_nat r))"
    and "k < 2 ^ 32"
  shows "1000 * k \<le> 1000 * t + e * r"
proof (rule ccontr)
  assume "\<not> 1000 * k \<le> 1000 * t + e * r"
  then have "1000 * t + e * r + 1 \<le> 1000 * k" by simp
  then have "rat_of_nat (1000 * t + e * r + 1) \<le> rat_of_nat (1000 * k)"
    by (simp only: of_nat_le_iff)
  then have x: "of_nat t + of_nat (e * r) / 1000 \<le> (of_nat k - 1 / 1000 :: rat)"
    by (simp add: field_simps)
  have k: "rat_of_nat k < 2 ^ 32"
    using assms(2) by (metis of_nat_less_iff of_nat_numeral of_nat_power)
  have "rat_of_nat k \<le> (of_nat t + of_nat (e * r) / 1000) * (1 + 1 / 2 ^ 53) ^ 4"
    using assms(1) refill_upper by (rule order_trans)
  also have "\<dots> \<le> (of_nat k - 1 / 1000) * (1 + 1 / 2 ^ 53) ^ 4"
    using x by (intro mult_right_mono) auto
  finally have "rat_of_nat k \<le> (of_nat k - 1 / 1000) * (1 + 1 / 2 ^ 53) ^ 4" .
  moreover have "(1 + 1 / 2 ^ 53 :: rat) ^ 4 \<le> 1 + 1 / 2 ^ 50"
    by (simp add: power_numeral_reduce)
  moreover have "0 \<le> of_nat k - (1 / 1000 :: rat)"
    using x by (rule order_trans [rotated]) simp
  ultimately have "rat_of_nat k \<le> (of_nat k - 1 / 1000) * (1 + 1 / 2 ^ 50)"
    by (meson mult_left_mono order_trans)
  with k show False by (simp add: field_simps)
qed

lemma refilled_bounds:
  shows "unat (refilled config now b) \<le> unat (burst config)"
    and "1000 * unat (refilled config now b) \<le>
           1000 * unat (fst b) + (unat now - unat (snd b)) * unat (rps config)"
proof -
  obtain t l where b: "b = (t, l)" by (cases b)
  let ?s = "f64_add (f64_of_nat (unat t))
      (f64_mul (f64_div (f64_of_nat (unat now - unat l)) 1000) (of_nat (unat (rps config))))"
  let ?m = "min ?s (of_nat (unat (burst config)))"
  have s0: "0 \<le> ?s"
    by (rule refill_nonneg)
  let ?k = "nat \<lfloor>?m\<rfloor>"
  have k: "of_nat ?k \<le> ?m"
    using s0 by (intro of_nat_floor min.boundedI) (simp_all del: of_nat_unat)
  have kb: "?k \<le> unat (burst config)"
    using k by (metis min.boundedE of_nat_le_iff)
  then have "?k < 2 ^ 32" using unat_less_u32 [of "burst config"] by linarith
  then have kw: "unat (of_nat ?k :: u64) = ?k"
    by (simp add: unsigned_of_nat take_bit_nat_eq_self)
  have r: "refilled config now b = of_nat ?k"
    by (simp add: refilled_def b Let_def unat_saturating_sub)
  show "unat (refilled config now b) \<le> unat (burst config)"
    using kb by (simp only: r kw)
  have "1000 * ?k \<le> 1000 * unat t + (unat now - unat l) * unat (rps config)"
    using order_trans [OF k min.cobounded1] \<open>?k < 2 ^ 32\<close> by (rule refill_reaches)
  then show "1000 * unat (refilled config now b) \<le>
      1000 * unat (fst b) + (unat now - unat (snd b)) * unat (rps config)"
    unfolding r kw by (simp only: b fst_conv snd_conv)
qed

lemma refilled_fresh: "refilled config now (ucast (burst config), now) = ucast (burst config)"
proof -
  have b: "unat (ucast (burst config) :: u64) = unat (burst config)"
    using unat_less_u32 [of "burst config"] by (simp add: unsigned_ucast_eq take_bit_nat_eq_self)
  have "rnd (rat_of_nat (unat (burst config))) = rat_of_nat (unat (burst config))"
    using f64_u32 [of "burst config"] by (simp only: f64_of_nat_def)
  then show ?thesis
    by (simp add: refilled_def saturating_sub_def f64_of_nat_def f64_div_def f64_mul_def f64_add_def b
        del: of_nat_unat) (simp add: word_unat_eq_iff b unsigned_of_nat)
qed

section \<open>The bucket as an interface\<close>

text \<open>
  A token bucket: a step at time \<open>t\<close> admits or refuses one request. Tokens and admissions together
  never exceed the capacity, nor the tokens that were there plus what the elapsed time is worth, in
  thousandths of a token.
\<close>

fun bucket_run :: "('t \<Rightarrow> 's \<Rightarrow> bool \<times> 's) \<Rightarrow> 't list \<Rightarrow> 's \<Rightarrow> bool list \<times> 's" where
  "bucket_run step [] s = ([], s)"
| "bucket_run step (t # ts) s =
     (case step t s of (ok, s1) \<Rightarrow> case bucket_run step ts s1 of (oks, s2) \<Rightarrow> (ok # oks, s2))"

abbreviation grants :: "bool list \<Rightarrow> nat" where
  "grants oks \<equiv> length (filter (\<lambda>b. b) oks)"

locale token_bucket =
  fixes step :: "'t \<Rightarrow> 's \<Rightarrow> bool \<times> 's"
    and live :: "'s \<Rightarrow> bool"
    and level :: "'s \<Rightarrow> nat"
    and stamp :: "'s \<Rightarrow> nat"
    and clk :: "'t \<Rightarrow> nat"
    and rate cap :: nat
  assumes step_live: "live (snd (step t s))"
    and step_stamp: "stamp (snd (step t s)) = clk t"
    and step_cap: "of_bool (fst (step t s)) + level (snd (step t s)) \<le> cap"
    and step_budget: "live s \<Longrightarrow>
      1000 * (of_bool (fst (step t s)) + level (snd (step t s))) \<le> 1000 * level s + rate * (clk t - stamp s)"
begin

lemma run_budget:
  "live s \<Longrightarrow> sorted (stamp s # map clk ts) \<Longrightarrow>
   1000 * grants (fst (bucket_run step ts s)) \<le>
     1000 * level s + rate * (last (stamp s # map clk ts) - stamp s)"
proof (induction ts arbitrary: s)
  case Nil
  then show ?case by simp
next
  case (Cons t ts)
  obtain ok s1 where st: "step t s = (ok, s1)" by (cases "step t s")
  obtain oks s2 where rn: "bucket_run step ts s1 = (oks, s2)" by (cases "bucket_run step ts s1")
  have s1: "live s1" "stamp s1 = clk t"
    using step_live [of t s] step_stamp [of t s] st by auto
  let ?e = "last (clk t # map clk ts)"
  have le: "stamp s \<le> clk t" "clk t \<le> ?e"
    using Cons.prems(2) by (auto simp: last_map)
  have "1000 * grants oks \<le> 1000 * level s1 + rate * (?e - clk t)"
    using Cons.IH [OF s1(1)] Cons.prems(2) s1(2) rn by simp
  moreover have "1000 * (of_bool ok + level s1) \<le> 1000 * level s + rate * (clk t - stamp s)"
    using step_budget [OF Cons.prems(1), of t] st by simp
  moreover have "rate * (?e - clk t) + rate * (clk t - stamp s) = rate * (?e - stamp s)"
    using le by (simp add: add_mult_distrib2 [symmetric])
  ultimately show ?case
    using st rn by (cases ok) auto
qed

lemma run_window:
  assumes "sorted (map clk (t # ts))"
  shows "1000 * grants (fst (bucket_run step (t # ts) s)) \<le>
           1000 * cap + rate * (last (map clk (t # ts)) - clk t)"
proof -
  obtain ok s1 where st: "step t s = (ok, s1)" by (cases "step t s")
  have s1: "live s1" "stamp s1 = clk t"
    using step_live [of t s] step_stamp [of t s] st by auto
  have "1000 * grants (fst (bucket_run step ts s1)) \<le>
      1000 * level s1 + rate * (last (clk t # map clk ts) - clk t)"
    using run_budget [OF s1(1), of ts] assms s1(2) by simp
  moreover have "of_bool ok + level s1 \<le> cap"
    using step_cap [of t s] st by simp
  ultimately show ?thesis
    using st by (cases ok) (auto split: prod.splits)
qed

lemma run_starved:
  assumes "live s" and "level s = 0"
    and "list_all2 (\<lambda>t u. rate * (clk u - t) < 1000) (stamp s # map clk (butlast ts)) ts"
  shows "grants (fst (bucket_run step ts s)) = 0"
  using assms
proof (induction ts arbitrary: s)
  case Nil
  then show ?case by simp
next
  case (Cons t ts)
  obtain ok s1 where st: "step t s = (ok, s1)" by (cases "step t s")
  have "1000 * (of_bool ok + level s1) < 1000"
    using step_budget [OF Cons.prems(1), of t] st Cons.prems(2,3) by (auto split: if_splits)
  then have no: "\<not> ok" "level s1 = 0" by (cases ok; simp)+
  have s1: "live s1" "stamp s1 = clk t"
    using step_live [of t s] step_stamp [of t s] st by auto
  show ?case
  proof (cases ts)
    case Nil
    then show ?thesis using st no by simp
  next
    case (Cons u us)
    with Cons.IH [OF s1(1) no(2)] Cons.prems(3) s1(2) st no show ?thesis
      by (auto split: prod.splits)
  qed
qed

end

text \<open>The code's bucket: the stored pair, absent for a client not seen before.\<close>

definition bucket_step :: "RateLimitConfig \<Rightarrow> u64 \<Rightarrow> bucket option \<Rightarrow> bool \<times> bucket option" where
  "bucket_step config t s = (case decide config t s of (ok, n) \<Rightarrow> (ok, Some (n, t)))"

lemma unat_minus_one: "1 \<le> (w :: u64) \<Longrightarrow> unat (w - 1) = unat w - 1"
  by (simp add: unat_sub)

lemma decide_total:
  assumes "decide config t b = (ok, n)"
  shows "of_bool ok + unat n \<le> unat (refilled config t (unwrap_or (ucast (burst config), t) b))"
  using assms
  by (auto simp: decide_def Let_def unat_minus_one word_le_nat_alt min_def split: if_splits)

interpretation rl: token_bucket
  "bucket_step config" "\<lambda>s. s \<noteq> None" "\<lambda>s. unat (fst (the s))" "\<lambda>s. unat (snd (the s))" unat
  "unat (rps config)" "unat (burst config)"
proof
  fix t and s :: "bucket option"
  obtain ok n where d: "decide config t s = (ok, n)" by (cases "decide config t s")
  note tot = decide_total [OF d]
  show "snd (bucket_step config t s) \<noteq> None" "unat (snd (the (snd (bucket_step config t s)))) = unat t"
    by (simp_all add: bucket_step_def d)
  show "of_bool (fst (bucket_step config t s)) + unat (fst (the (snd (bucket_step config t s))))
      \<le> unat (burst config)"
    using order_trans [OF tot refilled_bounds(1)] by (simp add: bucket_step_def d)
  show "1000 * (of_bool (fst (bucket_step config t s)) + unat (fst (the (snd (bucket_step config t s)))))
      \<le> 1000 * unat (fst (the s)) + unat (rps config) * (unat t - unat (snd (the s)))" if "s \<noteq> None"
    using tot refilled_bounds(2) [of config t "the s"] that
    by (auto simp: bucket_step_def d unwrap_or_def mult.commute)
qed

section \<open>The limiter on Redis\<close>

lemma rl_key_inject: "rl_key a = rl_key b \<longleftrightarrow> a = b"
  by (simp add: rl_key_def ip_to_string_inject)

lemma allow_refines:
  assumes "rl_cmds_ok R view" and "enabled config" and "rps config \<noteq> 0"
    and "allow R a config t r = (ok, r')"
  shows "(ok, view r' (rl_key a)) = bucket_step config t (view r (rl_key a))"
    and "b \<noteq> a \<Longrightarrow> view r' (rl_key b) = view r (rl_key b)"
proof -
  obtain bk r1 where g: "hmget R (rl_key a) r = (bk, r1)" by (cases "hmget R (rl_key a) r")
  have bk: "bk = view r (rl_key a)" "view r1 = view r"
    using assms(1) g by (metis fst_conv rl_cmds_ok_def, metis snd_conv rl_cmds_ok_def)
  obtain n where d: "decide config t bk = (ok, n)" and r': "r' = write_back R (rl_key a) n t r1"
    using assms(2,3,4) g by (auto simp: allow_def split: prod.splits)
  have v: "view r' = (view r)(rl_key a \<mapsto> (n, t))"
    using assms(1) bk(2) r' by (simp add: rl_cmds_ok_def write_back_def)
  show "(ok, view r' (rl_key a)) = bucket_step config t (view r (rl_key a))"
    using d v bk(1) by (simp add: bucket_step_def)
  show "b \<noteq> a \<Longrightarrow> view r' (rl_key b) = view r (rl_key b)"
    using v by (simp add: rl_key_inject)
qed

text \<open>The times of the requests of one client.\<close>

definition times_of :: "ipaddr \<Rightarrow> (ipaddr \<times> u64) list \<Rightarrow> u64 list" where
  "times_of a qs = map snd (filter (\<lambda>q. fst q = a) qs)"

lemma allow_run_refines:
  assumes "rl_cmds_ok R view" and "enabled config" and "rps config \<noteq> 0"
  shows "admitted a qs (fst (allow_run R config qs r)) =
    grants (fst (bucket_run (bucket_step config) (times_of a qs) (view r (rl_key a))))"
proof (induction qs arbitrary: r)
  case Nil
  then show ?case by (simp add: admitted_def times_of_def)
next
  case (Cons q qs)
  obtain b t where q: "q = (b, t)" by (cases q)
  obtain ok r1 where st: "allow R b config t r = (ok, r1)" by (cases "allow R b config t r")
  have rest: "admitted a qs (fst (allow_run R config qs r1)) =
      grants (fst (bucket_run (bucket_step config) (times_of a qs) (view r1 (rl_key a))))"
    by (rule Cons.IH)
  show ?case
  proof (cases "b = a")
    case True
    then show ?thesis
      using allow_refines(1) [OF assms st] rest st
      by (auto simp: q admitted_def times_of_def split: prod.splits)
  next
    case False
    then have "view r1 (rl_key a) = view r (rl_key a)"
      using allow_refines(2) [OF assms st] by simp
    then show ?thesis
      using False rest st by (auto simp: q admitted_def times_of_def split: prod.splits)
  qed
qed

text \<open>A Redis server that holds exactly these hashes.\<close>

definition hash_redis :: "(string \<Rightarrow> bucket option) rl_cmds" where
  "hash_redis =
     \<lparr>hmget = (\<lambda>k r. (r k, r)), hmset = (\<lambda>k a b r. r(k \<mapsto> (a, b))), expire = (\<lambda>k n r. r)\<rparr>"

lemma hash_redis_ok: "rl_cmds_ok hash_redis (\<lambda>r. r)"
  by (simp add: rl_cmds_ok_def hash_redis_def)

definition sample_limit :: RateLimitConfig where
  "sample_limit = \<lparr>enabled = True, rps = 10, rpm = 600, burst = 20\<rparr>"

section \<open>Properties\<close>



text \<open>
  A client that keeps asking is never admitted again once its bucket is empty: if each request
  follows the previous one within less than \<open>1000 / rps\<close> milliseconds, the refill rounds down to no
  token while the refill time moves on, so every request of the sequence is refused, however long it
  lasts.
\<close>

theorem allow_starves:
  assumes "rl_cmds_ok R view" and "enabled config" and "rps config \<noteq> 0"
    and "view r (rl_key a) = Some (0, t0)"
    and "list_all2 (\<lambda>t u. unat (rps config) * (unat u - unat t) < 1000) (t0 # butlast (times_of a qs)) (times_of a qs)"
  shows "admitted a qs (fst (allow_run R config qs r)) = 0"
proof -
  have "list_all2 (\<lambda>t u. unat (rps config) * (unat u - t) < 1000)
      (unat t0 # map unat (butlast (times_of a qs))) (times_of a qs)"
    using assms(5) by (cases "times_of a qs") (auto simp: list_all2_map1)
  then show ?thesis
    using rl.run_starved [of "Some (0, t0)" config "times_of a qs"]
    by (simp add: allow_run_refines [OF assms(1-3)] assms(4))
qed

theorem allow_starves_witness:
  "admitted (V4 1 2 3 4) [(V4 1 2 3 4, 5050), (V4 1 2 3 4, 5100), (V4 1 2 3 4, 5199)]
     (fst (allow_run hash_redis sample_limit
        [(V4 1 2 3 4, 5050), (V4 1 2 3 4, 5100), (V4 1 2 3 4, 5199)] [rl_key (V4 1 2 3 4) \<mapsto> (0, 5000)])) = 0"
  by (rule allow_starves [OF hash_redis_ok, where ?t0.0 = 5000])
    (simp_all add: sample_limit_def times_of_def)

text \<open>
  The per-minute setting is not a ceiling per minute. When the burst does not exceed it, it has no
  effect at all; when the burst exceeds it, a client not seen before is refused although its bucket is
  full.
\<close>

theorem rpm_is_no_ceiling:
  "(burst config \<le> rpm config \<longrightarrow> decide config t b = decide (config\<lparr>rpm := 0\<rparr>) t b) \<and>
   (rpm config < burst config \<and> 0 < rpm config \<longrightarrow> \<not> fst (decide config t None))"
proof -
  have r: "refilled (config\<lparr>rpm := 0\<rparr>) t x = refilled config t x" for x
    by (simp add: refilled_def)
  have u: "unat (ucast w :: u64) = unat (w :: u32)" for w
    using unat_less_u32 [of w] by (simp add: unsigned_ucast_eq take_bit_nat_eq_self)
  have "refilled config t x \<le> max_rpm_tokens config" if "burst config \<le> rpm config" for x
    using refilled_bounds(1) [of config t x] that
    by (cases "0 < rpm config") (simp_all add: max_rpm_tokens_def word_le_nat_alt [where a = "refilled config t x"] u
        word_le_nat_alt [where a = "burst config"])
  moreover have "max_rpm_tokens (config\<lparr>rpm := 0\<rparr>) = - 1"
    by (simp add: max_rpm_tokens_def)
  ultimately have "burst config \<le> rpm config \<Longrightarrow> decide config t b = decide (config\<lparr>rpm := 0\<rparr>) t b"
    by (simp add: decide_def Let_def r min_absorb1)
  moreover have "\<not> fst (decide config t None)" if "rpm config < burst config" "0 < rpm config"
    using that by (simp add: decide_def Let_def unwrap_or_def refilled_fresh max_rpm_tokens_def
        word_le_nat_alt word_less_nat_alt u)
  ultimately show ?thesis by simp
qed

theorem rpm_is_no_ceiling_witness:
  "\<not> fst (decide \<lparr>enabled = True, rps = 10, rpm = 5, burst = 20\<rparr> 1000 None)"
  using rpm_is_no_ceiling [of "\<lparr>enabled = True, rps = 10, rpm = 5, burst = 20\<rparr>"] by simp

text \<open>
  Reading and writing back are separate commands: of two calls for the same client whose commands
  interleave, both are admitted by the last token.
\<close>

theorem allow_race:
  assumes "rl_cmds_ok R view" and "rpm config = 0" and "0 < burst config"
    and "view r (rl_key a) = Some (1, t)"
  shows "case hmget R (rl_key a) r of (b1, r1) \<Rightarrow> case hmget R (rl_key a) r1 of (b2, r2) \<Rightarrow>
      case decide config t b1 of (ok1, n1) \<Rightarrow> case decide config t b2 of (ok2, n2) \<Rightarrow>
        ok1 \<and> ok2 \<and>
        view (write_back R (rl_key a) n2 t (write_back R (rl_key a) n1 t r2)) (rl_key a) = Some (0, t)"
proof -
  have "refilled config t (1, t) = 1"
  proof -
    have "1 \<le> unat (burst config)" using assms(3) by (simp add: word_less_nat_alt)
    then have "min 1 (rat_of_nat (unat (burst config))) = 1" by (simp del: of_nat_unat)
    moreover have "rnd 1 = 1" using rnd_nat [of 1] by simp
    ultimately show ?thesis
      by (simp add: refilled_def saturating_sub_def f64_div_def f64_mul_def f64_add_def
          f64_of_nat_def [of "0"] f64_of_nat_def [of "Suc 0"] del: of_nat_unat)
  qed
  then have "decide config t (Some (1, t)) = (True, 0)"
    using assms(2) by (simp add: decide_def unwrap_or_def max_rpm_tokens_def)
  then show ?thesis
    using assms(1,4) by (auto simp: rl_cmds_ok_def write_back_def split: prod.splits) (metis fst_conv snd_conv)+
qed

theorem allow_race_witness:
  "decide \<lparr>enabled = True, rps = 10, rpm = 0, burst = 20\<rparr> 1000 (Some (1, 1000)) = (True, 0)"
  using allow_race [OF hash_redis_ok, of "\<lparr>enabled = True, rps = 10, rpm = 0, burst = 20\<rparr>"
      "[rl_key (V4 1 2 3 4) \<mapsto> (1, 1000)]" "V4 1 2 3 4" 1000]
  by (auto simp: hash_redis_def write_back_def split: prod.splits)

end
