(* ===== verification/Handler.thy ===== *)
theory Handler
  imports Proxy Session Rate_Limit
begin

text \<open>
  The request handler of \<open>nekoguard/src/main.rs\<close> (\<open>handle\<close>) and the plain-HTTP redirect
  (\<open>redirect_to_https\<close>): local routes, the proof-of-work exchange, the session and white-list gate,
  bypass patterns, rate limiting, proxying and the interstitial page.

  \<open>server\<close> holds what is fixed after start-up: the configuration, the session manager and the
  parameters that stand for other crates and for files the build generates. \<open>world\<close> is the state a
  request can change. \<open>readings\<close> are the clock values and random bytes that one call draws. A call that
  would panic is a \<^const>\<open>Panic\<close>.
\<close>

section \<open>Definitions\<close>

subsection \<open>State and parameters\<close>

definition MAX_VERIFY_BODY :: nat where "MAX_VERIFY_BODY = 512"

definition CHALLENGE_TTL :: nat where "CHALLENGE_TTL = secs 300"

record VerifyPayload =
  vp_challenge :: string
  vp_nonce :: string

record ('h, 'r) server =
  s_embed :: "('h, 'r) embed_env"
  s_config :: Config
  s_session :: SessionManager
  s_seal :: seal_lib
  s_limits :: "'r rl_cmds"
  s_codecs :: codecs
  s_guard_js :: string
  s_template :: string
  s_version :: string
  s_assets :: "string \<Rightarrow> string option"
  s_verify_json :: "string \<Rightarrow> VerifyPayload option"
  s_challenge_json :: "string \<Rightarrow> nat \<Rightarrow> u64 \<Rightarrow> string"

record log_line =
  l_method :: string
  l_path :: string
  l_status :: nat
  l_host :: string
  l_upstream :: string

record ('h, 'r) world =
  w_challenges :: challenges
  w_embed :: "('h, 'r) embed_state"
  w_log :: "log_line list"

record readings =
  now_secs :: u64
  now_ms :: u64
  now_inst :: nat
  rnd_challenge :: "u8 list"
  rnd_nonce :: "u8 list"
  embed_clk :: "nat \<Rightarrow> nat"

abbreviation s_http :: "('h, 'r) server \<Rightarrow> 'h http_lib" where
  "s_http S \<equiv> e_http (s_embed S)"

definition s_proxy :: "('h, 'r) server \<Rightarrow> 'h proxy_env" where
  "s_proxy S =
     \<lparr>p_http = s_http S, p_net = e_net (s_embed S), p_codecs = s_codecs S, p_guard_js = s_guard_js S,
      p_ttl = cfg_ttl (cfg_session (s_config S))\<rparr>"

text \<open>\<open>PERM\<close>, the set of permanently admitted addresses.\<close>

definition PERM :: "Config \<Rightarrow> ipaddr set" where
  "PERM C = set (whitelist C)"

definition log_request ::
  "string \<Rightarrow> string \<Rightarrow> nat \<Rightarrow> string \<Rightarrow> string \<Rightarrow> ('h, 'r) world \<Rightarrow> ('h, 'r) world" where
  "log_request m p st h u w =
     w\<lparr>w_log := w_log w @ [\<lparr>l_method = m, l_path = p, l_status = st, l_host = h, l_upstream = u\<rparr>]\<rparr>"

subsection \<open>What is read off a request\<close>

definition host_header :: "'h http_lib \<Rightarrow> 'h \<Rightarrow> string" where
  "host_header H hs = unwrap_or ''-'' (get_str H hs ''host'')"

definition real_ip :: "'h http_lib \<Rightarrow> 'h \<Rightarrow> ipaddr \<Rightarrow> ipaddr option" where
  "real_ip H hs peer_ip =
     (case Option.bind (get_str H hs ''x-real-ip'') ip_parse of
        Some a \<Rightarrow> Some a
      | None \<Rightarrow> Some peer_ip)"

definition route_upstream :: "Config \<Rightarrow> 'h http_lib \<Rightarrow> 'h \<Rightarrow> string option" where
  "route_upstream C H hs =
     (case Option.bind (get_str H hs ''host'') (site_for_host C) of
        Some s \<Rightarrow> Some (upstream s)
      | None \<Rightarrow> map_option catchall_upstream (catchall C))"

definition canonical_link :: "'h http_lib \<Rightarrow> string \<Rightarrow> Uri \<Rightarrow> string option" where
  "canonical_link H host uri =
     (if host \<noteq> ''-'' then
        (let origin = ''https://'' @ normalize_host host;
             loc = (case path_and_query uri of Some pq \<Rightarrow> origin @ pq | None \<Rightarrow> origin)
         in from_str H (''<'' @ loc @ ''>; rel='' @ quote ''canonical''))
      else None)"

definition session_cookie :: "string \<Rightarrow> string \<Rightarrow> string option" where
  "session_cookie name cookies =
     map_option
       (\<lambda>part. case split_once (CHR ''='') (trim part) of Some (_, v) \<Rightarrow> v | None \<Rightarrow> '''')
       (find (\<lambda>part. starts_with (name @ ''='') (trim part)) (split_on (CHR '';'') cookies))"

definition session_valid ::
  "('h, 'r) server \<Rightarrow> readings \<Rightarrow> 'h \<Rightarrow> ipaddr option \<Rightarrow> bool" where
  "session_valid S T hs ipo =
     (case Option.bind (get_str (s_http S) hs ''cookie'') (session_cookie (cookie_name (s_session S))) of
        None \<Rightarrow> False
      | Some v \<Rightarrow>
          (case ipo of
             None \<Rightarrow> False
           | Some a \<Rightarrow>
               (case verify_cookie (s_seal S) (s_session S) v a (now_secs T) (now_inst T) of
                  Inr _ \<Rightarrow> True
                | Inl _ \<Rightarrow> False)))"

definition bypass_match :: "Config \<Rightarrow> string option \<Rightarrow> string \<Rightarrow> bool option" where
  "bypass_match C host req_path =
     (case Option.bind (Option.bind host (site_for_host C))
             (\<lambda>site. if list_ex (\<lambda>re. re req_path) (bypass site) then Some True else None) of
        Some b \<Rightarrow> Some b
      | None \<Rightarrow> if list_ex (\<lambda>re. re req_path) (catchall_bypass C) then Some True else None)"

subsection \<open>The routes\<close>

type_synonym ('h, 'r) reply = "('h Response \<times> ('h, 'r) world) outcome"

definition favicon_route ::
  "('h, 'r) server \<Rightarrow> readings \<Rightarrow> string \<Rightarrow> string option \<Rightarrow> string \<Rightarrow> ('h, 'r) world \<Rightarrow> ('h, 'r) reply" where
  "favicon_route S T host ups path w =
     (let H = s_http S in
      if host \<noteq> ''-'' \<and> ups \<noteq> None then
        (case favicon (s_embed S) (embed_clk T) host (the ups) path True (w_embed w) of (icon, es) \<Rightarrow>
           Done (case icon of
                   Some (bytes, mime) \<Rightarrow> local_resp H 200 mime bytes
                 | None \<Rightarrow> text_resp H 404 ''Not found'',
                 w\<lparr>w_embed := es\<rparr>))
      else Done (text_resp H 404 ''Not found'', w))"

definition challenge_route ::
  "('h, 'r) server \<Rightarrow> readings \<Rightarrow> ('h, 'r) world \<Rightarrow> ('h, 'r) reply" where
  "challenge_route S T w =
     (case new_challenge (e_hex (s_embed S)) (rnd_challenge T) (now_inst T) CHALLENGE_TTL (w_challenges w) of
        (c, m) \<Rightarrow>
          Done (local_resp (s_http S) 200 ''application/json''
                  (s_challenge_json S c DIFFICULTY (ttl (s_session S))),
                w\<lparr>w_challenges := m\<rparr>))"

definition cookie_header :: "SessionManager \<Rightarrow> string \<Rightarrow> string" where
  "cookie_header sm v =
     cookie_name sm @ ''='' @ v @ ''; Path=/; HttpOnly; SameSite=Lax; Max-Age='' @ dec (unat (ttl sm))"

definition verify_route ::
  "('h, 'r) server \<Rightarrow> readings \<Rightarrow> stream \<Rightarrow> ipaddr option \<Rightarrow> ('h, 'r) world \<Rightarrow> ('h, 'r) reply" where
  "verify_route S T bdy ipo w =
     (let H = s_http S; bad = Done (text_resp H 400 ''Bad request'', w) in
      case collect_limited MAX_VERIFY_BODY bdy of
        None \<Rightarrow> bad
      | Some bytes \<Rightarrow>
          (case s_verify_json S bytes of
             None \<Rightarrow> bad
           | Some p \<Rightarrow>
               if vp_challenge p = [] \<or> vp_nonce p = [] then bad
               else bind_outcome
                 (check_pow (e_sha (s_embed S)) (vp_challenge p) (vp_nonce p) (now_inst T) (w_challenges w))
                 (\<lambda>(ok, m).
                    let w' = w\<lparr>w_challenges := m\<rparr> in
                    if \<not> ok then Done (text_resp H 403 ''Invalid solution'', w')
                    else (case ipo of
                       None \<Rightarrow> Done (text_resp H 200 ''OK'', w')
                     | Some a \<Rightarrow>
                         bind_outcome (create_cookie (s_seal S) (s_session S) a (now_secs T) (rnd_nonce T)) (\<lambda>v.
                           (case from_str H (cookie_header (s_session S) v) of
                              None \<Rightarrow> Panic ''invalid header value''
                            | Some hv \<Rightarrow>
                                (let r = text_resp H 200 ''OK'' in
                                 Done (r\<lparr>headers := hm_insert H ''set-cookie'' hv (headers r)\<rparr>, w'))))))))"

definition forward ::
  "('h, 'r) server \<Rightarrow> readings \<Rightarrow> 'h Request \<Rightarrow> bool \<Rightarrow> bool option \<Rightarrow> ipaddr option \<Rightarrow> string option \<Rightarrow>
   ('h, 'r) world \<Rightarrow> ('h, 'r) reply" where
  "forward S T req allowed byp ipo ups w =
     (let H = s_http S; C = s_config S; path = uri_path (req_uri req); host = host_header H (req_headers req);
          document_request = is_document_request H (req_headers req);
          verdict = (if allowed \<and> byp = None then
              (case ipo of
                 None \<Rightarrow> (True, e_redis (w_embed w))
               | Some a \<Rightarrow>
                   (let site_rl = unwrap_or (global_rate_limit C) (Option.bind (catchall C) catchall_rate_limit)
                    in allow (s_limits S) a site_rl (now_ms T) (e_redis (w_embed w))))
            else (True, e_redis (w_embed w)))
      in case verdict of (ok, r) \<Rightarrow>
           let w' = w\<lparr>w_embed := (w_embed w)\<lparr>e_redis := r\<rparr>\<rparr> in
           if \<not> ok then
             Done (text_resp H 429 ''Rate limit exceeded'',
                   log_request (req_method req) path 429 host ''rate-limited'' w')
           else (case ups of
              None \<Rightarrow> Done (text_resp H 400 ''No upstream configured for this Host'', w')
            | Some u \<Rightarrow>
                (case proxy_to_upstream (s_proxy S) req u document_request (byp \<noteq> None) (sent (w_embed w')) of
                   (resp, tr) \<Rightarrow>
                     Done (resp, log_request (req_method req) path (status resp) host u
                       (w'\<lparr>w_embed := (w_embed w')\<lparr>sent := tr\<rparr>\<rparr>)))))"

definition interstitial ::
  "('h, 'r) server \<Rightarrow> readings \<Rightarrow> 'h Request \<Rightarrow> string option \<Rightarrow> ('h, 'r) world \<Rightarrow> ('h, 'r) reply" where
  "interstitial S T req ups w =
     (let H = s_http S; path = uri_path (req_uri req); host = host_header H (req_headers req) in
      case new_challenge (e_hex (s_embed S)) (rnd_challenge T) (now_inst T) CHALLENGE_TTL (w_challenges w) of
        (c, m) \<Rightarrow>
          (let page0 = challenge_html (s_template S) c in
           case (if host \<noteq> ''-'' \<and> ups \<noteq> None
                 then inline_into (s_embed S) (embed_clk T) page0 True host (the ups) path (w_embed w)
                 else (clear_marker page0, w_embed w)) of
             (page, es) \<Rightarrow>
               (let r = local_resp H 200 ''text/html; charset=utf-8'' page;
                    r' = (case canonical_link H host (req_uri req) of
                            None \<Rightarrow> r
                          | Some l \<Rightarrow> r\<lparr>headers := hm_insert H ''link'' l (headers r)\<rparr>)
                in Done (r', log_request (req_method req) path 200 host ''challenge''
                     (w\<lparr>w_challenges := m, w_embed := es\<rparr>)))))"

subsection \<open>The handler\<close>

definition handle ::
  "('h, 'r) server \<Rightarrow> readings \<Rightarrow> ipaddr \<Rightarrow> 'h Request \<Rightarrow> ('h, 'r) world \<Rightarrow> ('h, 'r) reply" where
  "handle S T peer_ip req w =
     (let H = s_http S; C = s_config S; hs = req_headers req;
          path = uri_path (req_uri req); method = req_method req
      in if path = ''/__ng/version'' \<and> method = ''GET'' then Done (text_resp H 200 (s_version S), w)
         else if starts_with ''/__ng/assets/'' path \<and> method = ''GET'' then
           Done (serve_embedded_asset H (s_assets S) (drop (length ''/__ng/assets/'') path), w)
         else
           (let ipo = real_ip H hs peer_ip; ups = route_upstream C H hs in
            if path = ''/__ng/favicon.ico'' \<and> method = ''GET'' then
              favicon_route S T (host_header H hs) ups path w
            else if path = ''/__ng/challenge'' \<and> method = ''GET'' then challenge_route S T w
            else if path = ''/__ng/verify'' \<and> method = ''POST'' then verify_route S T (req_body req) ipo w
            else
              (let allowed = session_valid S T hs ipo \<or> (case ipo of Some a \<Rightarrow> a \<in> PERM C | None \<Rightarrow> False);
                   byp = bypass_match C (get_str H hs ''host'') path
               in if allowed \<or> byp \<noteq> None then forward S T req allowed byp ipo ups w
                  else interstitial S T req ups w)))"

subsection \<open>Plain HTTP\<close>

text \<open>The response builder rejects a header value that is not one, and \<open>unwrap\<close> panics.\<close>

definition redirect_to_https :: "'h http_lib \<Rightarrow> 'h Request \<Rightarrow> 'h Response outcome" where
  "redirect_to_https H req =
     (let host = map_option (\<lambda>h. case split_on (CHR '':'') h of [] \<Rightarrow> h | p # _ \<Rightarrow> p)
            (get_str H (req_headers req) ''host'');
          loc = (case host of
             Some h \<Rightarrow> ''https://'' @ h @ unwrap_or ''/'' (path_and_query (req_uri req))
           | None \<Rightarrow> ''https://'')
      in case from_str H loc of
           None \<Rightarrow> Panic ''invalid header value''
         | Some v \<Rightarrow>
             Done \<lparr>status = 301, headers = hm_append H ''location'' v (hm_empty H),
                   body = [Some ''Redirecting to https'']\<rparr>)"

text \<open>
  The listener on port 80, when it can be bound: every accepted connection serves its requests with the
  redirect, and a failed accept is passed over.
\<close>

definition run_http_redirect ::
  "'h http_lib \<Rightarrow> (nat \<Rightarrow> bool) \<Rightarrow> 'h Request list option list \<Rightarrow> 'h Response outcome list list" where
  "run_http_redirect H can_bind accepted =
     (if can_bind 80
      then concat (map (\<lambda>conn. case conn of Some reqs \<Rightarrow> [map (redirect_to_https H) reqs] | None \<Rightarrow> []) accepted)
      else [])"

section \<open>Cookie text\<close>

definition visible :: "string \<Rightarrow> bool" where
  "visible s = list_all (\<lambda>c. 33 \<le> code c \<and> code c \<le> 126) s"

lemma trim_with_visible:
  assumes "\<And>w. w \<in> set ws \<Longrightarrow> w \<noteq> [] \<and> (code (hd w) < 33 \<or> 126 < code (hd w))" and "visible s"
  shows "trim_with ws s = s"
proof (cases s)
  case (Cons c cs)
  have "\<not> prefix w (c # cs)" if "w \<in> set ws" for w
    using assms(1) [OF that] assms(2) Cons by (cases w) (auto simp: visible_def)
  then have "find (\<lambda>w. prefix w (c # cs)) ws = None" by (simp add: find_None_iff)
  then show ?thesis using Cons by (simp add: leading_def)
qed simp

lemma white_space_bytes:
  "list_all (\<lambda>w. w \<noteq> [] \<and> (code (hd w) < 33 \<or> 126 < code (hd w)) \<and> (code (last w) < 33 \<or> 126 < code (last w)))
     white_space"
  by code_simp

lemma trim_visible: "visible s \<Longrightarrow> trim s = s"
proof -
  assume v: "visible s"
  have "trim_with white_space s = s"
    by (rule trim_with_visible [OF _ v]) (use white_space_bytes in \<open>auto simp: list_all_iff\<close>)
  moreover have "trim_with (map rev white_space) (rev s) = rev s"
    by (rule trim_with_visible)
      (use white_space_bytes v in \<open>auto simp: list_all_iff visible_def hd_rev\<close>)
  ultimately show ?thesis by (simp add: trim_def trim_start_def trim_end_def)
qed

lemma visible_append [simp]: "visible (s @ t) \<longleftrightarrow> visible s \<and> visible t"
  by (simp add: visible_def)

definition cookie_text :: "string \<Rightarrow> bool" where
  "cookie_text s \<longleftrightarrow> visible s \<and> CHR '';'' \<notin> set s"

lemma find_char_append:
  "(\<And>c. c \<in> set s \<Longrightarrow> \<not> P c) \<Longrightarrow> P d \<Longrightarrow> find_char P (s @ d # t) = Some (length s)"
  by (induction s) auto

lemma session_cookie_sent:
  assumes "cookie_text name" and "CHR ''='' \<notin> set name" and "cookie_text v"
  shows "session_cookie name (name @ ''='' @ v) = Some v"
proof -
  let ?c = "name @ ''='' @ v"
  have vis: "visible ?c" using assms by (simp add: cookie_text_def visible_def code_def)
  have one: "split_on (CHR '';'') ?c = [?c]"
    using assms by (auto simp: split_on_def cookie_text_def intro!: split_by_none)
  have f: "find_char (\<lambda>c. c = CHR ''='') ?c = Some (length name)"
    using find_char_append [of name "\<lambda>c. c = CHR ''=''" "CHR ''=''" v] assms(2) by auto
  then have "split_once (CHR ''='') ?c = Some (name, v)" by (simp add: split_once_def)
  then show ?thesis
    unfolding session_cookie_def one using trim_visible [OF vis] by (simp add: starts_with_def)
qed

text \<open>The alphabet of URL-safe base64 needs no quoting in a cookie.\<close>

definition b64_clean :: "seal_lib \<Rightarrow> bool" where
  "b64_clean L \<longleftrightarrow> (\<forall>bs. cookie_text (b64_encode L bs))"

lemma create_cookie_clean:
  "b64_clean L \<Longrightarrow> create_cookie L sm a now nonce = Done v \<Longrightarrow> cookie_text v"
  by (auto simp: b64_clean_def create_cookie_def Let_def split: option.splits)

lemma session_valid_created:
  assumes "seal_lib_ok (s_seal S) (key (s_session S))" and "b64_clean (s_seal S)"
    and "cookie_text (cookie_name (s_session S))" and "CHR ''='' \<notin> set (cookie_name (s_session S))"
    and "create_cookie (s_seal S) (s_session S) a t nonce = Done v" and "length nonce = NONCE_LEN"
    and "get_str (s_http S) hs ''cookie'' = Some (cookie_name (s_session S) @ ''='' @ v)"
  shows "session_valid S T hs (Some b) \<longleftrightarrow> b = a \<and> now_secs T \<le> t + ttl (s_session S)"
proof -
  have "session_cookie (cookie_name (s_session S)) (cookie_name (s_session S) @ ''='' @ v) = Some v"
    by (rule session_cookie_sent [OF assms(3,4) create_cookie_clean [OF assms(2,5)]])
  then show ?thesis
    using verify_created [OF assms(1,6,5), of b "now_secs T" "now_inst T"] assms(7)
    by (auto simp: session_valid_def not_less)
qed

section \<open>The verification route\<close>

text \<open>When the posted body is a proof-of-work submission.\<close>

definition submission :: "('h, 'r) server \<Rightarrow> stream \<Rightarrow> VerifyPayload option" where
  "submission S bdy =
     (case Option.bind (collect_limited MAX_VERIFY_BODY bdy) (s_verify_json S) of
        Some p \<Rightarrow> if vp_challenge p = [] \<or> vp_nonce p = [] then None else Some p
      | None \<Rightarrow> None)"

definition solved :: "('h, 'r) server \<Rightarrow> nat \<Rightarrow> challenges \<Rightarrow> VerifyPayload \<Rightarrow> bool" where
  "solved S now m p \<longleftrightarrow>
     (case m (vp_challenge p) of Some ex \<Rightarrow> now \<le> ex | None \<Rightarrow> False) \<and>
     be_value (e_sha (s_embed S) (vp_challenge p @ vp_nonce p)) < 2 ^ 242"

lemma verify_route_eq:
  assumes "digest32 (e_sha (s_embed S))"
  shows "verify_route S T bdy (Some a) w =
    (case submission S bdy of
       None \<Rightarrow> Done (text_resp (s_http S) 400 ''Bad request'', w)
     | Some p \<Rightarrow>
         (let w' = w\<lparr>w_challenges := (w_challenges w)(vp_challenge p := None)\<rparr> in
          if \<not> solved S (now_inst T) (w_challenges w) p
          then Done (text_resp (s_http S) 403 ''Invalid solution'', w')
          else bind_outcome (create_cookie (s_seal S) (s_session S) a (now_secs T) (rnd_nonce T)) (\<lambda>v.
            case from_str (s_http S) (cookie_header (s_session S) v) of
              None \<Rightarrow> Panic ''invalid header value''
            | Some hv \<Rightarrow>
                Done ((text_resp (s_http S) 200 ''OK'')
                  \<lparr>headers := hm_insert (s_http S) ''set-cookie'' hv (hm_empty (s_http S))\<rparr>, w'))))"
  unfolding verify_route_def submission_def
  by (auto simp: check_pow_eq [OF assms] solved_def text_resp_def Let_def intro!: bind_outcome_ext
      split: option.splits bind_splits)

section \<open>The gate\<close>

text \<open>A request has clearance when its cookie verifies, its address is white-listed or its path is exempt.\<close>

definition cleared :: "('h, 'r) server \<Rightarrow> readings \<Rightarrow> ipaddr \<Rightarrow> 'h Request \<Rightarrow> bool" where
  "cleared S T peer_ip req \<longleftrightarrow>
     (let ipo = real_ip (s_http S) (req_headers req) peer_ip in
      session_valid S T (req_headers req) ipo \<or> the ipo \<in> PERM (s_config S) \<or>
      bypass_match (s_config S) (get_str (s_http S) (req_headers req) ''host'') (uri_path (req_uri req)) \<noteq> None)"

definition local_route :: "'h Request \<Rightarrow> bool" where
  "local_route req \<longleftrightarrow>
     (let path = uri_path (req_uri req) in
      req_method req = ''GET'' \<and>
        (path \<in> {''/__ng/version'', ''/__ng/favicon.ico'', ''/__ng/challenge''} \<or> starts_with ''/__ng/assets/'' path) \<or>
      req_method req = ''POST'' \<and> path = ''/__ng/verify'')"

lemma real_ip_Some: "\<exists>a. real_ip H hs p = Some a"
  by (simp add: real_ip_def split: option.splits)

lemma handle_gate:
  assumes "\<not> local_route req"
  shows "handle S T peer_ip req w =
    (let H = s_http S; hs = req_headers req; C = s_config S; ipo = real_ip H hs peer_ip;
         allowed = session_valid S T hs ipo \<or> the ipo \<in> PERM C;
         byp = bypass_match C (get_str H hs ''host'') (uri_path (req_uri req));
         ups = route_upstream C H hs
     in if cleared S T peer_ip req then forward S T req allowed byp ipo ups w
        else interstitial S T req ups w)"
proof -
  let ?p = "uri_path (req_uri req)" and ?m = "req_method req"
  have n: "\<not> (?p = ''/__ng/version'' \<and> ?m = ''GET'')" "\<not> (starts_with ''/__ng/assets/'' ?p \<and> ?m = ''GET'')"
    "\<not> (?p = ''/__ng/favicon.ico'' \<and> ?m = ''GET'')" "\<not> (?p = ''/__ng/challenge'' \<and> ?m = ''GET'')"
    "\<not> (?p = ''/__ng/verify'' \<and> ?m = ''POST'')"
    using assms unfolding local_route_def Let_def by blast+
  obtain a where a: "real_ip (s_http S) (req_headers req) peer_ip = Some a"
    using real_ip_Some [of "s_http S" "req_headers req" peer_ip] by auto
  have "handle S T peer_ip req w =
    (let H = s_http S; hs = req_headers req; C = s_config S; ipo = real_ip H hs peer_ip;
         allowed = session_valid S T hs ipo \<or> (case ipo of Some a \<Rightarrow> a \<in> PERM C | None \<Rightarrow> False);
         byp = bypass_match C (get_str H hs ''host'') ?p;
         ups = route_upstream C H hs
     in if allowed \<or> byp \<noteq> None then forward S T req allowed byp ipo ups w
        else interstitial S T req ups w)"
    by (simp only: handle_def Let_def n if_False)
  then show ?thesis
    by (simp add: a cleared_def Let_def disj_assoc)
qed

text \<open>The requests a call may add when it does not forward: metadata fetches from the routed upstream.\<close>

definition metadata_only ::
  "('h, 'r) server \<Rightarrow> 'h Request \<Rightarrow> ('h, 'r) world \<Rightarrow> ('h, 'r) world \<Rightarrow> bool" where
  "metadata_only S req w w' \<longleftrightarrow>
     (\<exists>new. sent (w_embed w') = sent (w_embed w) @ new \<and> length new \<le> 4 \<and>
        list_all (\<lambda>q. \<exists>u. route_upstream (s_config S) (s_http S) (req_headers req) = Some u \<and>
            on_origin (s_http S) (normalize_host (host_header (s_http S) (req_headers req))) u q) new)"

lemma metadata_only_refl: "sent (w_embed w') = sent (w_embed w) \<Longrightarrow> metadata_only S req w w'"
  by (simp add: metadata_only_def)

lemma sends_metadata:
  assumes "route_upstream (s_config S) (s_http S) (req_headers req) = Some u"
    and "sends (s_embed S) (normalize_host (host_header (s_http S) (req_headers req))) u 4 (w_embed w) (w_embed w')"
  shows "metadata_only S req w w'"
  using assms unfolding sends_def metadata_only_def by simp

lemma interstitial_metadata:
  assumes "interstitial S T req (route_upstream (s_config S) (s_http S) (req_headers req)) w = Done (r, w')"
  shows "metadata_only S req w w' \<and> status r = 200"
proof -
  let ?u = "route_upstream (s_config S) (s_http S) (req_headers req)"
  let ?h = "host_header (s_http S) (req_headers req)"
  show ?thesis
  proof (cases "?h \<noteq> ''-'' \<and> ?u \<noteq> None")
    case True
    then obtain u where u: "?u = Some u" by blast
    show ?thesis
      using assms True u load_sends [of "s_embed S" "normalize_host ?h" u True "w_embed w"]
      by (auto simp: interstitial_def inline_into_def Let_def log_request_def new_challenge_def local_resp_def
          split: prod.splits option.splits intro!: sends_metadata [OF u])
        (metis snd_conv)+
  next
    case False
    then show ?thesis
      using assms
      by (auto simp: interstitial_def Let_def log_request_def new_challenge_def local_resp_def
          split: option.splits intro!: metadata_only_refl)
  qed
qed

lemma local_route_metadata:
  assumes "local_route req" and "handle S T peer_ip req w = Done (r, w')"
  shows "sent (w_embed w') = sent (w_embed w)"
proof -
  have fav: "sent (snd (favicon E clk h u p ctx s)) = sent s" for E :: "('a, 'b) embed_env" and clk h u p ctx s
  proof -
    have "sent (snd (load E c h' p' ctx u False s')) = sent s'" for c h' p' s'
      using load_sends [of E h' u False s' c p' ctx] by (simp add: sends_def)
    then show ?thesis
      by (auto simp: favicon_def Let_def split: option.splits prod.splits) (metis snd_conv)+
  qed
  have "sent (w_embed w') = sent (w_embed w)" if "favicon_route S T h u p w = Done (r, w')" for h u p
    using that fav [of "s_embed S" "embed_clk T" h "the u" p True "w_embed w"]
    by (auto simp: favicon_route_def Let_def split: prod.splits if_splits)
  moreover have "sent (w_embed w') = sent (w_embed w)" if "verify_route S T b ipo w = Done (r, w')" for b ipo
    using that by (auto simp: verify_route_def Let_def bind_outcome_Done split: option.splits if_splits)
  moreover have "sent (w_embed w') = sent (w_embed w)" if "challenge_route S T w = Done (r, w')"
    using that by (auto simp: challenge_route_def new_challenge_def Let_def)
  ultimately show ?thesis
    using assms by (auto simp: handle_def local_route_def Let_def split: if_splits)
qed

lemma interstitial_issues:
  "\<exists>r w'. interstitial S T req ups w = Done (r, w') \<and>
     w_challenges w' =
       (w_challenges w)(e_hex (s_embed S) (rnd_challenge T) \<mapsto> now_inst T + CHALLENGE_TTL)"
  by (auto simp: interstitial_def Let_def new_challenge_def log_request_def split: prod.splits)

lemma forward_Done: "\<exists>r w'. forward S T req allowed byp ipo ups w = Done (r, w')"
  by (auto simp: forward_def Let_def split: prod.splits option.splits)

lemma proxy_sends_one:
  assumes "proxy_to_upstream P req u d b tr = (r, tr')"
  shows "tr' = tr \<or> (\<exists>req' a p. proxied_request (p_http P) req u = Some (req', a, p) \<and> tr' = tr @ [req'])"
  using assms by (auto simp: proxy_to_upstream_def client_request_def split: option.splits prod.splits)

section \<open>A concrete server\<close>

definition letters :: "u8 list \<Rightarrow> string" where
  "letters bs = concat (map (\<lambda>w. [char_of (97 + unat w div 16), char_of (97 + unat w mod 16)]) bs)"

fun unletters :: "string \<Rightarrow> u8 list" where
  "unletters (a # b # s) = of_nat ((code a - 97) * 16 + (code b - 97)) # unletters s"
| "unletters s = []"

lemma nibble: "unat (w :: u8) div 16 < 16"
proof -
  have "unat w < 2 ^ LENGTH(8)" by (rule unsigned_less)
  then show ?thesis by simp
qed

lemma unletters_letters [simp]: "unletters (letters bs) = bs"
proof (induction bs)
  case (Cons w bs)
  then show ?case using nibble [of w] by (simp add: letters_def)
qed (simp add: letters_def)

lemma letter_clean: "n < 16 \<Longrightarrow> cookie_text [char_of (97 + n :: nat)]"
proof -
  assume n: "n < 16"
  have "char_of (97 + n) \<noteq> CHR '';''"
  proof
    assume "char_of (97 + n) = CHR '';''"
    then have "code (char_of (97 + n)) = code (CHR '';'')" by simp
    then have "97 + n = code (CHR '';'')" using n by (simp only: code_char_of)
    then show False by (simp add: code_def)
  qed
  then show ?thesis using n by (auto simp: cookie_text_def visible_def)
qed

lemma cookie_text_append: "cookie_text (s @ t) \<longleftrightarrow> cookie_text s \<and> cookie_text t"
  by (auto simp: cookie_text_def)

lemma cookie_text_letters: "cookie_text (letters bs)"
proof (induction bs)
  case (Cons w bs)
  have "letters (w # bs) = [char_of (97 + unat w div 16)] @ [char_of (97 + unat w mod 16)] @ letters bs"
    by (simp add: letters_def)
  moreover have "cookie_text [char_of (97 + unat w div 16)]" "cookie_text [char_of (97 + unat w mod 16)]"
    using letter_clean [OF nibble [of w]] letter_clean [of "unat w mod 16"] by simp_all
  ultimately show ?case using Cons by (simp only: cookie_text_append)
qed (simp add: letters_def cookie_text_def visible_def)

definition letter_seal :: seal_lib where
  "letter_seal =
     (plain_seal (\<lambda>_. True))\<lparr>b64_encode := letters, b64_decode := (\<lambda>s. Some (unletters s))\<rparr>"

lemma letter_seal_ok: "seal_lib_ok letter_seal k"
  by (simp add: seal_lib_ok_def json_ok_def letter_seal_def plain_seal_def read_plain_payload)

lemma letter_seal_clean: "b64_clean letter_seal"
  by (simp add: b64_clean_def letter_seal_def cookie_text_letters)

definition sample_config :: Config where
  "sample_config =
     \<lparr>sites = [\<lparr>domain = ''ex.org'', upstream = ''http://up'', bypass = [\<lambda>p. prefix ''/api'' p],
                rate_limit = default_RateLimitConfig\<rparr>],
      global_rate_limit = default_RateLimitConfig, log = default_LogConfig, whitelist = [V4 9 9 9 9],
      catchall = None, catchall_bypass = [], port = 443, port_http = None,
      cfg_session = default_SessionConfig, redis = default_RedisConfig\<rparr>"

definition sample_server :: "((string \<times> string) list, string \<rightharpoonup> string) server" where
  "sample_server =
     \<lparr>s_embed = sample_env\<lparr>e_sha := (\<lambda>_. replicate 32 0), e_hex := (\<lambda>_. ''c0'')\<rparr>, s_config = sample_config,
      s_session = \<lparr>key = [], cookie_name = ''s'', ttl = 1800\<rparr>, s_seal = letter_seal,
      s_limits = \<lparr>hmget = (\<lambda>k r. (None, r)), hmset = (\<lambda>k a b r. r), expire = (\<lambda>k n r. r)\<rparr>,
      s_codecs = tag_codecs, s_guard_js = ''g()'', s_template = ''{{CHALLENGE}}'', s_version = ''1'',
      s_assets = (\<lambda>p. None),
      s_verify_json = (\<lambda>b. Some \<lparr>vp_challenge = ''c0'', vp_nonce = ''1''\<rparr>),
      s_challenge_json = (\<lambda>c b t. c)\<rparr>"

definition sample_world :: "((string \<times> string) list, string \<rightharpoonup> string) world" where
  "sample_world = \<lparr>w_challenges = [''c0'' \<mapsto> 9], w_embed = sample_state, w_log = []\<rparr>"

definition sample_readings :: readings where
  "sample_readings =
     \<lparr>now_secs = 1000, now_ms = 1000000, now_inst = 5, rnd_challenge = [], rnd_nonce = replicate 12 0,
      embed_clk = (\<lambda>i. i)\<rparr>"

lemma sample_cookie: "\<exists>v. create_cookie (s_seal sample_server) (s_session sample_server) a t n = Done v"
  by (rule create_cookie_total) (simp add: sample_server_def letter_seal_ok)

section \<open>Properties\<close>



text \<open>
  C2. Work is what buys clearance. When a submission is posted from an address, the route answers 400
  without a well-formed submission, 403 when the challenge is unknown, expired or not solved, and
  otherwise 200 with one cookie, made for that address now; a submission consumes its challenge either
  way, so the same solution never pays twice.
\<close>

theorem verify_route_correct:
  assumes "digest32 (e_sha (s_embed S))" and "header_map_ok (s_http S)"
    and "verify_route S T bdy (Some a) w = Done (r, w')"
  shows "(submission S bdy = None \<longrightarrow> status r = 400 \<and> w' = w) \<and>
    (\<forall>p. submission S bdy = Some p \<longrightarrow>
       w' = w\<lparr>w_challenges := (w_challenges w)(vp_challenge p := None)\<rparr> \<and>
       (if solved S (now_inst T) (w_challenges w) p
        then status r = 200 \<and>
          (\<exists>v. create_cookie (s_seal S) (s_session S) a (now_secs T) (rnd_nonce T) = Done v \<and>
             hm_get_all (s_http S) (headers r) ''set-cookie'' = [cookie_header (s_session S) v])
        else status r = 403 \<and> hm_get_all (s_http S) (headers r) ''set-cookie'' = []))"
proof -
  have v: "hv = s" if "from_str (s_http S) s = Some hv" for s hv
    using assms(2) that unfolding header_map_ok_def by blast
  have e: "eq_ignore_ascii_case ''set-cookie'' ''set-cookie''" by (simp add: eq_ignore_ascii_case_def)
  show ?thesis
    using assms(3) v
    by (auto simp: verify_route_eq [OF assms(1)] text_resp_def header_map_laws [OF assms(2)] e Let_def
        bind_outcome_Done split: option.splits if_splits)
qed

theorem verify_route_correct_witness:
  "\<exists>r w' v. verify_route sample_server sample_readings [Some ''x''] (Some (V4 1 2 3 4)) sample_world = Done (r, w') \<and>
     status r = 200 \<and> w_challenges w' = Map.empty \<and>
     hm_get_all alist_http (headers r) ''set-cookie'' = [cookie_header (s_session sample_server) v]"
proof -
  have d: "digest32 (e_sha (s_embed sample_server))"
    by (simp add: digest32_def sample_server_def)
  have h: "s_http sample_server = alist_http"
    by (simp add: sample_server_def sample_env_def)
  have sub: "submission sample_server [Some ''x''] = Some \<lparr>vp_challenge = ''c0'', vp_nonce = ''1''\<rparr>"
    by (simp add: submission_def collect_limited_def MAX_VERIFY_BODY_def sample_server_def)
  have "meets_target (replicate 32 0) 14 = Done True" by code_simp
  then have sol: "solved sample_server (now_inst sample_readings) (w_challenges sample_world)
      \<lparr>vp_challenge = ''c0'', vp_nonce = ''1''\<rparr>"
    by (simp add: solved_def meets_target_value sample_server_def sample_world_def sample_readings_def)
  obtain v where v: "create_cookie (s_seal sample_server) (s_session sample_server) (V4 1 2 3 4)
      (now_secs sample_readings) (rnd_nonce sample_readings) = Done v"
    using sample_cookie by blast
  have "cookie_text v"
    using create_cookie_clean [OF _ v] letter_seal_clean by (simp add: sample_server_def)
  then have "list_all (\<lambda>c. 32 \<le> code c) (cookie_header (s_session sample_server) v)"
    by (auto simp: cookie_header_def cookie_text_def visible_def list_all_iff sample_server_def dec_def
        radix.simps [of 10] digit_eval code_def)
  then obtain r w' where r: "verify_route sample_server sample_readings [Some ''x''] (Some (V4 1 2 3 4)) sample_world = Done (r, w')"
    using sub sol v by (simp add: verify_route_eq [OF d] h Let_def) (simp add: alist_http_def)
  from verify_route_correct [OF d _ r] alist_http_ok sub sol r h show ?thesis
    by (fastforce simp: sample_world_def)
qed

text \<open>
  C3. Solving the challenge clears the visitor, and only that visitor: the cookie that the verification
  route sets for an address, sent back as the only cookie of a later request, is accepted for this
  address exactly until \<open>ttl\<close> seconds after it was made, and never for another address.
\<close>

theorem clearance_round_trip:
  assumes "seal_lib_ok (s_seal S) (key (s_session S))" and "b64_clean (s_seal S)"
    and "cookie_text (cookie_name (s_session S))" and "CHR ''='' \<notin> set (cookie_name (s_session S))"
    and "length (rnd_nonce T) = NONCE_LEN"
    and "create_cookie (s_seal S) (s_session S) a (now_secs T) (rnd_nonce T) = Done v"
    and "get_str (s_http S) (req_headers req) ''cookie'' = Some (cookie_name (s_session S) @ ''='' @ v)"
    and "real_ip (s_http S) (req_headers req) peer_ip = Some b" and "b \<notin> PERM (s_config S)"
    and "bypass_match (s_config S) (get_str (s_http S) (req_headers req) ''host'') (uri_path (req_uri req)) = None"
  shows "cleared S T' peer_ip req \<longleftrightarrow> b = a \<and> now_secs T' \<le> now_secs T + ttl (s_session S)"
  using session_valid_created [OF assms(1-4) assms(6,5,7), of T' b] assms(8-10)
  by (simp add: cleared_def Let_def)

theorem clearance_round_trip_witness:
  "\<exists>v. create_cookie letter_seal (s_session sample_server) (V4 1 2 3 4) 1000 (replicate 12 0) = Done v \<and>
     cleared sample_server (sample_readings\<lparr>now_secs := 2800\<rparr>) (V4 1 2 3 4)
       (sample_request\<lparr>req_headers := [(''cookie'', ''s='' @ v)]\<rparr>) \<and>
     \<not> cleared sample_server (sample_readings\<lparr>now_secs := 2801\<rparr>) (V4 1 2 3 4)
       (sample_request\<lparr>req_headers := [(''cookie'', ''s='' @ v)]\<rparr>)"
proof -
  obtain v where v: "create_cookie (s_seal sample_server) (s_session sample_server) (V4 1 2 3 4)
      (now_secs sample_readings) (rnd_nonce sample_readings) = Done v"
    using sample_cookie by blast
  let ?q = "sample_request\<lparr>req_headers := [(''cookie'', ''s='' @ v)]\<rparr>"
  have hyps: "seal_lib_ok (s_seal sample_server) (key (s_session sample_server))"
    "b64_clean (s_seal sample_server)" "cookie_text (cookie_name (s_session sample_server))"
    "CHR ''='' \<notin> set (cookie_name (s_session sample_server))"
    "length (rnd_nonce sample_readings) = NONCE_LEN"
    "get_str (s_http sample_server) (req_headers ?q) ''cookie'' = Some (cookie_name (s_session sample_server) @ ''='' @ v)"
    "real_ip (s_http sample_server) (req_headers ?q) (V4 1 2 3 4) = Some (V4 1 2 3 4)"
    "V4 1 2 3 4 \<notin> PERM (s_config sample_server)"
    "bypass_match (s_config sample_server) (get_str (s_http sample_server) (req_headers ?q) ''host'')
       (uri_path (req_uri ?q)) = None"
    by (simp_all add: sample_server_def letter_seal_ok letter_seal_clean cookie_text_def visible_def code_def
        sample_readings_def NONCE_LEN_def get_str_def sample_env_def alist_http_def real_ip_def PERM_def
        sample_config_def bypass_match_def)
  have "cleared sample_server (sample_readings\<lparr>now_secs := 2800\<rparr>) (V4 1 2 3 4) ?q"
    "\<not> cleared sample_server (sample_readings\<lparr>now_secs := 2801\<rparr>) (V4 1 2 3 4) ?q"
    using clearance_round_trip [OF hyps(1-5) v hyps(6-9)]
    by (simp_all add: sample_readings_def) (simp_all add: sample_server_def)
  with v show ?thesis by (auto simp: sample_server_def sample_readings_def)
qed

text \<open>The limits a cleared request is held to: those of the catch-all, or else the global ones.\<close>

definition limits_of :: "Config \<Rightarrow> RateLimitConfig" where
  "limits_of C = unwrap_or (global_rate_limit C) (Option.bind (catchall C) catchall_rate_limit)"

text \<open>
  C4. A cleared request is forwarded at most once, as the rewritten copy of itself to the upstream of
  its host. If its path is exempt the rate limiter is not consulted; otherwise the limiter is asked once
  for its address, and a refusal is answered with 429 and nothing is sent.
\<close>

theorem cleared_forward:
  assumes "\<not> local_route req" and "cleared S T peer_ip req"
  shows "\<exists>r w'. handle S T peer_ip req w = Done (r, w') \<and>
    (sent (w_embed w') = sent (w_embed w) \<or>
     (\<exists>u req' a p. route_upstream (s_config S) (s_http S) (req_headers req) = Some u \<and>
        proxied_request (s_http S) req u = Some (req', a, p) \<and> sent (w_embed w') = sent (w_embed w) @ [req'])) \<and>
    (if bypass_match (s_config S) (get_str (s_http S) (req_headers req) ''host'') (uri_path (req_uri req)) \<noteq> None
     then e_redis (w_embed w') = e_redis (w_embed w)
     else (case allow (s_limits S) (the (real_ip (s_http S) (req_headers req) peer_ip)) (limits_of (s_config S))
               (now_ms T) (e_redis (w_embed w)) of (ok, red) \<Rightarrow>
             e_redis (w_embed w') = red \<and>
             (\<not> ok \<longrightarrow> status r = 429 \<and> sent (w_embed w') = sent (w_embed w))))"
proof -
  let ?byp = "bypass_match (s_config S) (get_str (s_http S) (req_headers req) ''host'') (uri_path (req_uri req))"
  let ?ipo = "real_ip (s_http S) (req_headers req) peer_ip"
  let ?al = "session_valid S T (req_headers req) ?ipo \<or> the ?ipo \<in> PERM (s_config S)"
  let ?ups = "route_upstream (s_config S) (s_http S) (req_headers req)"
  obtain a where a: "?ipo = Some a" using real_ip_Some [of "s_http S" "req_headers req" peer_ip] by auto
  have h: "handle S T peer_ip req w = forward S T req ?al ?byp ?ipo ?ups w"
    using assms by (simp add: handle_gate Let_def)
  obtain r w' where f: "forward S T req ?al ?byp ?ipo ?ups w = Done (r, w')"
    using forward_Done by blast
  have al: "?al" if "?byp = None" using assms(2) that by (auto simp: cleared_def Let_def)
  have px: "tr = sent (w_embed w) \<or> (\<exists>req' a p. proxied_request (s_http S) req u = Some (req', a, p) \<and>
        tr = sent (w_embed w) @ [req'])"
    if "proxy_to_upstream (s_proxy S) req u d b (sent (w_embed w)) = (x, tr)" for u d b x tr
    using proxy_sends_one [OF that] by (simp add: s_proxy_def)
  have "(sent (w_embed w') = sent (w_embed w) \<or>
     (\<exists>u req' a p. ?ups = Some u \<and> proxied_request (s_http S) req u = Some (req', a, p) \<and>
        sent (w_embed w') = sent (w_embed w) @ [req']))"
    using f by (auto simp: forward_def Let_def log_request_def split: prod.splits option.splits if_splits dest: px)
  moreover have "e_redis (w_embed w') = e_redis (w_embed w)" if "?byp \<noteq> None"
    using f that by (auto simp: forward_def Let_def log_request_def split: prod.splits option.splits if_splits)
  moreover have "case allow (s_limits S) a (limits_of (s_config S)) (now_ms T) (e_redis (w_embed w)) of (ok, red) \<Rightarrow>
      e_redis (w_embed w') = red \<and> (\<not> ok \<longrightarrow> status r = 429 \<and> sent (w_embed w') = sent (w_embed w))"
    if "?byp = None"
    using f that al [OF that] a
    by (auto simp: forward_def Let_def log_request_def limits_of_def text_resp_def
        split: prod.splits option.splits if_splits)
  ultimately show ?thesis using h f a by auto
qed

theorem cleared_forward_witness:
  "\<exists>r w'. handle sample_server sample_readings (V4 9 9 9 9) sample_request sample_world = Done (r, w') \<and>
     length (sent (w_embed w')) \<le> 1"
proof -
  have "real_ip (s_http sample_server) (req_headers sample_request) (V4 9 9 9 9) = Some (V4 9 9 9 9)"
    by (simp add: real_ip_def get_str_def sample_server_def sample_env_def alist_http_def sample_request_def)
  then have c: "cleared sample_server sample_readings (V4 9 9 9 9) sample_request"
    by (simp add: cleared_def Let_def) (simp add: PERM_def sample_server_def sample_config_def)
  have "\<not> local_route sample_request"
    by (simp add: local_route_def sample_request_def starts_with_def)
  from cleared_forward [OF this c, of sample_world] show ?thesis
    by (fastforce simp: sample_world_def sample_state_def)
qed

text \<open>
  C36. The address that is checked is the one the client names: when \<open>X-Real-IP\<close> parses, the peer address
  has no influence on the answer, whoever the peer is, so a client that names a white-listed address is
  cleared.
\<close>

theorem x_real_ip_overrides:
  assumes "get_str (s_http S) (req_headers req) ''x-real-ip'' = Some s" and "ip_parse s = Some a"
  shows "handle S T peer req w = handle S T peer' req w \<and>
    (a \<in> PERM (s_config S) \<longrightarrow> cleared S T peer req)"
proof -
  have "real_ip (s_http S) (req_headers req) p = Some a" for p
    using assms by (simp add: real_ip_def)
  then show ?thesis by (simp add: handle_def cleared_def Let_def)
qed

theorem x_real_ip_overrides_witness:
  "cleared sample_server sample_readings (V4 6 6 6 6)
     (sample_request\<lparr>req_headers := [(''x-real-ip'', ''9.9.9.9'')]\<rparr>)"
proof -
  have "ip_parse ''9.9.9.9'' = Some (V4 9 9 9 9)" by code_simp
  moreover have "get_str (s_http sample_server) [(''x-real-ip'', ''9.9.9.9'')] ''x-real-ip'' = Some ''9.9.9.9''"
    by (simp add: get_str_def sample_server_def sample_env_def alist_http_def)
  ultimately show ?thesis
    using x_real_ip_overrides [of sample_server "sample_request\<lparr>req_headers := [(''x-real-ip'', ''9.9.9.9'')]\<rparr>"
        "''9.9.9.9''" "V4 9 9 9 9" sample_readings "V4 6 6 6 6"]
    by (simp add: PERM_def) (simp add: sample_server_def sample_config_def)
qed

lemma site_for_host_limits:
  "site_for_host (C\<lparr>sites := map (\<lambda>s. s\<lparr>rate_limit := rl s\<rparr>) (sites C)\<rparr>) h =
     map_option (\<lambda>s. s\<lparr>rate_limit := rl s\<rparr>) (site_for_host C h)"
proof -
  have "find (\<lambda>s. domain s = d) (map (\<lambda>s. s\<lparr>rate_limit := rl s\<rparr>) ss) =
      map_option (\<lambda>s. s\<lparr>rate_limit := rl s\<rparr>) (find (\<lambda>s. domain s = d) ss)" for d ss
    by (induction ss) auto
  then show ?thesis by (simp add: site_for_host_def Let_def)
qed

text \<open>
  The limits of a site are never applied: replacing the effective limits of every configured site
  by any others changes no answer of the handler.
\<close>

theorem site_limits_unused:
  "handle (S\<lparr>s_config := (s_config S)\<lparr>sites := map (\<lambda>s. s\<lparr>rate_limit := rl s\<rparr>) (sites (s_config S))\<rparr>\<rparr>) T peer req w =
   handle S T peer req w"
proof -
  let ?C = "(s_config S)\<lparr>sites := map (\<lambda>s. s\<lparr>rate_limit := rl s\<rparr>) (sites (s_config S))\<rparr>"
  let ?S = "S\<lparr>s_config := ?C\<rparr>"
  have r: "route_upstream ?C H hs = route_upstream (s_config S) H hs" for H :: "'a http_lib" and hs
    by (auto simp: route_upstream_def site_for_host_limits split: option.splits bind_splits)
  have b: "bypass_match ?C h p = bypass_match (s_config S) h p" for h p
    by (cases h) (auto simp: bypass_match_def site_for_host_limits split: option.splits bind_splits)
  have o: "PERM ?C = PERM (s_config S)" "s_proxy ?S = s_proxy S"
    by (simp_all add: PERM_def s_proxy_def)
  have sel: "s_embed ?S = s_embed S" "s_session ?S = s_session S" "s_seal ?S = s_seal S"
    "s_template ?S = s_template S" "s_verify_json ?S = s_verify_json S" "s_limits ?S = s_limits S"
    "s_challenge_json ?S = s_challenge_json S" "s_version ?S = s_version S" "s_assets ?S = s_assets S"
    "s_config ?S = ?C" "global_rate_limit ?C = global_rate_limit (s_config S)" "catchall ?C = catchall (s_config S)"
    by simp_all
  have v: "session_valid ?S T hs ipo = session_valid S T hs ipo" for hs ipo
    unfolding session_valid_def sel ..
  have routes: "favicon_route ?S T h u p w = favicon_route S T h u p w"
    "challenge_route ?S T w = challenge_route S T w"
    "verify_route ?S T bd ipo w = verify_route S T bd ipo w"
    "interstitial ?S T req u w = interstitial S T req u w" for h u p bd ipo
    unfolding favicon_route_def challenge_route_def verify_route_def interstitial_def sel by (rule refl)+
  have f: "forward ?S T req al by ipo u w = forward S T req al by ipo u w" for al "by" ipo u
    unfolding forward_def Let_def sel o ..
  show ?thesis
    unfolding handle_def Let_def sel r b o v routes f ..
qed

text \<open>What \<open>HeaderValue::from_str\<close> documents: printable ASCII is always accepted.\<close>

definition printable_ok :: "'h http_lib \<Rightarrow> bool" where
  "printable_ok H \<longleftrightarrow> (\<forall>s. list_all (\<lambda>c. 32 \<le> code c \<and> code c \<le> 126) s \<longrightarrow> from_str H s \<noteq> None)"

lemma dec_printable: "list_all (\<lambda>c. 32 \<le> code c \<and> code c \<le> 126) (dec n)"
  using radix_chars [of 10 _ n] by (fastforce simp: dec_def list_all_iff digit_val_def Let_def split: if_splits)

lemma cookie_header_printable:
  assumes "cookie_text (cookie_name sm)" and "cookie_text v"
  shows "list_all (\<lambda>c. 32 \<le> code c \<and> code c \<le> 126) (cookie_header sm v)"
proof -
  have w: "list_all (\<lambda>c. 32 \<le> code c \<and> code c \<le> 126) s" if "cookie_text s" for s
    using that by (auto simp: cookie_text_def visible_def list_all_iff)
  have "list_all (\<lambda>c. 32 \<le> code c \<and> code c \<le> 126) ''; Path=/; HttpOnly; SameSite=Lax; Max-Age=''"
    "list_all (\<lambda>c. 32 \<le> code c \<and> code c \<le> 126) ''=''"
    by code_simp+
  with w [OF assms(1)] w [OF assms(2)] dec_printable show ?thesis
    by (simp only: cookie_header_def list_all_append)
qed

text \<open>
  The handler returns an answer to every request and never panics, whatever the request, the caches,
  the clock and the network do, given a 32-byte digest, a working cipher and a cookie name of plain
  characters.
\<close>

theorem handle_never_panics:
  assumes "digest32 (e_sha (s_embed S))" and "seal_lib_ok (s_seal S) (key (s_session S))"
    and "b64_clean (s_seal S)" and "cookie_text (cookie_name (s_session S))" and "printable_ok (s_http S)"
  shows "\<exists>r w'. handle S T peer_ip req w = Done (r, w')"
proof -
  obtain a where a: "real_ip (s_http S) (req_headers req) peer_ip = Some a"
    using real_ip_Some [of "s_http S" "req_headers req" peer_ip] by auto
  obtain v where v: "create_cookie (s_seal S) (s_session S) a (now_secs T) (rnd_nonce T) = Done v"
    using create_cookie_total [OF assms(2)] by blast
  have hv: "from_str (s_http S) (cookie_header (s_session S) v) \<noteq> None"
    using cookie_header_printable [OF assms(4) create_cookie_clean [OF assms(3) v]] assms(5)
    by (simp add: printable_ok_def)
  have ver: "\<exists>r w'. verify_route S T bd (Some a) w = Done (r, w')" for bd
    using v hv by (auto simp: verify_route_eq [OF assms(1)] Let_def split: option.splits)
  have "\<exists>r w'. favicon_route S T h u p w = Done (r, w')" "\<exists>r w'. challenge_route S T w = Done (r, w')" for h u p
    by (auto simp: favicon_route_def challenge_route_def new_challenge_def Let_def split: prod.splits)
  moreover have "\<exists>r w'. interstitial S T req u w = Done (r, w')" for u
    using interstitial_issues by blast
  ultimately show ?thesis
    using ver by (simp add: handle_def Let_def a forward_Done)
qed

theorem handle_never_panics_witness:
  "\<exists>r w'. handle sample_server sample_readings (V4 1 2 3 4) sample_request sample_world = Done (r, w')"
proof (rule handle_never_panics)
  show "printable_ok (s_http sample_server)"
    by (auto simp: printable_ok_def sample_server_def sample_env_def alist_http_def list_all_iff)
qed (simp_all add: sample_server_def digest32_def letter_seal_ok letter_seal_clean cookie_text_def
    visible_def code_def)

end
