(* ===== verification/Tls_Edge.thy ===== *)
theory Tls_Edge
  imports Handler
begin

text \<open>
  The edge of \<open>nekoguard/src/main.rs\<close>: loading certificates from Redis, choosing one by server name,
  the admission of TLS handshakes, the reading of a request head off the raw stream, the replay of
  those bytes to the HTTP server (\<open>PrefixedReader\<close>), and the relay of WebSocket upgrades, for the TLS
  listener and for the plain-HTTP listener.

  The PEM and signing-key parsers, name resolution, sockets and the TLS handshake itself are
  parameters. A raw stream is the string of the bytes it delivers before it ends or fails.
\<close>

section \<open>Definitions\<close>

subsection \<open>Certificates\<close>

record CertData =
  cert_pem :: string
  key_pem :: string

record ('r, 'c, 'k) cert_lib =
  cmd_keys :: "'r \<Rightarrow> string list option"
  cmd_get :: "string \<Rightarrow> 'r \<Rightarrow> string option"
  cert_from_json :: "string \<Rightarrow> CertData option"
  pem_certs :: "string \<Rightarrow> 'c list option"
  pem_keys :: "string \<Rightarrow> 'k list option"

type_synonym ('c, 'k) cert_map = "string \<rightharpoonup> 'c list \<times> 'k"

definition cert_prefix :: string where
  "cert_prefix = ''nekoguard:cert:''"

definition load_cert ::
  "('r, 'c, 'k) cert_lib \<Rightarrow> 'r \<Rightarrow> string \<Rightarrow> ('c, 'k) cert_map \<Rightarrow> ('c, 'k) cert_map outcome" where
  "load_cert L r redis_key m =
     (let domain_name = unwrap_or redis_key (strip_prefix cert_prefix redis_key) in
      case cmd_get L (cert_prefix @ domain_name) r of
        None \<Rightarrow> Done m
      | Some raw \<Rightarrow>
          (case cert_from_json L raw of
             None \<Rightarrow> Done m
           | Some c \<Rightarrow>
               (case pem_certs L (cert_pem c) of
                  None \<Rightarrow> Panic ''failed to parse cert PEM''
                | Some certs \<Rightarrow>
                    (case pem_keys L (key_pem c) of
                       None \<Rightarrow> Panic ''failed to parse key PEM''
                     | Some [] \<Rightarrow> Panic ''no private key found''
                     | Some (k # _) \<Rightarrow> Done (m(domain_name \<mapsto> (certs, k)))))))"

fun load_certs ::
  "('r, 'c, 'k) cert_lib \<Rightarrow> 'r \<Rightarrow> string list \<Rightarrow> ('c, 'k) cert_map \<Rightarrow> ('c, 'k) cert_map outcome" where
  "load_certs L r [] m = Done m"
| "load_certs L r (k # ks) m = bind_outcome (load_cert L r k m) (load_certs L r ks)"

definition build_tls_config :: "('r, 'c, 'k) cert_lib \<Rightarrow> 'r \<Rightarrow> ('c, 'k) cert_map outcome" where
  "build_tls_config L r = load_certs L r (unwrap_or [] (cmd_keys L r)) Map.empty"

text \<open>At start over the shared connection; at a reload over one opened for it, and not opening it panics.\<close>

definition load_tls_config :: "('r, 'c, 'k) cert_lib \<Rightarrow> 'r \<Rightarrow> ('c, 'k) cert_map outcome" where
  "load_tls_config L conn = build_tls_config L conn"

definition load_tls_config_raw ::
  "('r, 'c, 'k) cert_lib \<Rightarrow> bool \<Rightarrow> bool \<Rightarrow> 'r \<Rightarrow> ('c, 'k) cert_map outcome" where
  "load_tls_config_raw L opens connects r =
     (if \<not> opens then Panic ''redis connect''
      else if \<not> connects then Panic ''redis conn manager''
      else build_tls_config L r)"

text \<open>
  The subscriber of \<open>main_inner\<close>: each message on the update channel reloads the whole map from what Redis
  holds at that moment, and a panic ends it.
\<close>

fun reload_certs :: "('r, 'c, 'k) cert_lib \<Rightarrow> 'r list \<Rightarrow> ('c, 'k) cert_map \<Rightarrow> ('c, 'k) cert_map outcome" where
  "reload_certs L [] m = Done m"
| "reload_certs L (r # rs) m = bind_outcome (build_tls_config L r) (reload_certs L rs)"

text \<open>The lookup of \<open>TlsCertResolver::resolve\<close>: the name itself, then its parents from the longest.\<close>

fun find_parent :: "('c, 'k) cert_map \<Rightarrow> string list \<Rightarrow> ('c list \<times> 'k) option" where
  "find_parent m [] = None"
| "find_parent m (p # ps) =
     (if ps = [] then None
      else (case m (join ''.'' ps) of Some e \<Rightarrow> Some e | None \<Rightarrow> find_parent m ps))"

definition resolve ::
  "('k \<Rightarrow> 's option) \<Rightarrow> ('c, 'k) cert_map \<Rightarrow> string option \<Rightarrow> ('c list \<times> 's) option" where
  "resolve any_supported_type m server_name =
     (case server_name of
        None \<Rightarrow> None
      | Some d \<Rightarrow>
          (case (case m d of Some e \<Rightarrow> Some e | None \<Rightarrow> find_parent m (split_on (CHR ''.'') d)) of
             None \<Rightarrow> None
           | Some (chain, key_der) \<Rightarrow> map_option (\<lambda>k. (chain, k)) (any_supported_type key_der)))"

subsection \<open>Reading the head of a request\<close>

definition CRLF :: string where
  "CRLF = [CHR 0x0D, CHR 0x0A]"

fun read_headers :: "string \<Rightarrow> string \<Rightarrow> string \<times> string" where
  "read_headers acc [] = (acc, [])"
| "read_headers acc (c # cs) =
     (let acc' = acc @ [c] in if ends_with (CRLF @ CRLF) acc' then (acc', cs) else read_headers acc' cs)"

record 'w PrefixedReader =
  pr_prefix :: string
  pr_pos :: nat
  pr_inner :: 'w

text \<open>\<open>poll_read\<close> into a buffer of \<open>n\<close> bytes; the inner reader is a parameter.\<close>

definition poll_read ::
  "(nat \<Rightarrow> 'w \<Rightarrow> string \<times> 'w) \<Rightarrow> nat \<Rightarrow> 'w PrefixedReader \<Rightarrow> string \<times> 'w PrefixedReader" where
  "poll_read inner_read n p =
     (if pr_pos p < length (pr_prefix p) then
        (let got = take n (drop (pr_pos p) (pr_prefix p)) in (got, p\<lparr>pr_pos := pr_pos p + length got\<rparr>))
      else (case inner_read n (pr_inner p) of (got, w) \<Rightarrow> (got, p\<lparr>pr_inner := w\<rparr>)))"

fun poll_reads ::
  "(nat \<Rightarrow> 'w \<Rightarrow> string \<times> 'w) \<Rightarrow> nat list \<Rightarrow> 'w PrefixedReader \<Rightarrow> string \<times> 'w PrefixedReader" where
  "poll_reads rd [] p = ([], p)"
| "poll_reads rd (n # ns) p =
     (case poll_read rd n p of (got, p1) \<Rightarrow> case poll_reads rd ns p1 of (rest, p2) \<Rightarrow> (got @ rest, p2))"

text \<open>Writing goes to the inner stream; the results are its own.\<close>

definition poll_inner :: "('w \<Rightarrow> 'b \<times> 'w) \<Rightarrow> 'w PrefixedReader \<Rightarrow> 'b \<times> 'w PrefixedReader" where
  "poll_inner f p = (case f (pr_inner p) of (res, w) \<Rightarrow> (res, p\<lparr>pr_inner := w\<rparr>))"

definition poll_write :: "(string \<Rightarrow> 'w \<Rightarrow> 'b \<times> 'w) \<Rightarrow> string \<Rightarrow> 'w PrefixedReader \<Rightarrow> 'b \<times> 'w PrefixedReader" where
  "poll_write inner_write buf = poll_inner (inner_write buf)"

definition poll_flush :: "('w \<Rightarrow> 'b \<times> 'w) \<Rightarrow> 'w PrefixedReader \<Rightarrow> 'b \<times> 'w PrefixedReader" where
  "poll_flush inner_flush = poll_inner inner_flush"

definition poll_shutdown :: "('w \<Rightarrow> 'b \<times> 'w) \<Rightarrow> 'w PrefixedReader \<Rightarrow> 'b \<times> 'w PrefixedReader" where
  "poll_shutdown inner_shutdown = poll_inner inner_shutdown"

definition is_ws :: "string \<Rightarrow> bool" where
  "is_ws header_bytes = contains ''upgrade: websocket'' (to_ascii_lowercase (from_utf8_lossy header_bytes))"

definition ws_host :: "string \<Rightarrow> string" where
  "ws_host header_bytes =
     (case find (\<lambda>l. starts_with ''host:'' (to_ascii_lowercase l)) (str_lines (from_utf8_lossy header_bytes)) of
        None \<Rightarrow> ''''
      | Some l \<Rightarrow> (case split_once (CHR '':'') l of Some (_, v) \<Rightarrow> trim v | None \<Rightarrow> ''''))"

subsection \<open>Rewriting an upgrade request\<close>

text \<open>Slicing a \<open>&str\<close> from a byte index panics beyond the end and inside a character.\<close>

definition str_from :: "nat \<Rightarrow> string \<Rightarrow> string outcome" where
  "str_from i s =
     (if i \<le> length s \<and> (i = length s \<or> \<not> (0x80 \<le> code (s ! i) \<and> code (s ! i) < 0xC0))
      then Done (drop i s) else Panic ''byte index out of range'')"

definition strip_scheme :: "string \<Rightarrow> string" where
  "strip_scheme u =
     (case strip_prefix ''http://'' u of
        Some r \<Rightarrow> r
      | None \<Rightarrow> (case strip_prefix ''https://'' u of Some r \<Rightarrow> r | None \<Rightarrow> u))"

definition first_part :: "string \<Rightarrow> string" where
  "first_part u = (case split_on (CHR '':'') u of [] \<Rightarrow> u | p # _ \<Rightarrow> p)"

definition request_line :: "string list \<Rightarrow> string" where
  "request_line parts =
     hd parts @ '' '' @ (if 2 \<le> length parts then parts ! 1 else ''/'') @ '' HTTP/1.1'' @ CRLF"

definition rewrite_line :: "(string \<Rightarrow> string) \<Rightarrow> string \<Rightarrow> string \<Rightarrow> string" where
  "rewrite_line lower auth line =
     (if starts_with ''host:'' (lower line) then ''Host: '' @ auth @ CRLF else line @ CRLF)"

definition ws_rewrite :: "(string \<Rightarrow> string) \<Rightarrow> string \<Rightarrow> string \<Rightarrow> string outcome" where
  "ws_rewrite lower auth text =
     (let parts = split_whitespace (case str_lines text of [] \<Rightarrow> '''' | l # _ \<Rightarrow> l) in
      if parts = [] then Panic ''index out of bounds''
      else bind_outcome (str_from (unwrap_or 0 (find_sub CRLF text) + 2) text) (\<lambda>rest.
        Done (request_line parts @
          concat (map (rewrite_line lower auth) (takeWhile (\<lambda>l. l \<noteq> []) (str_lines rest))) @ CRLF)))"

subsection \<open>The relay\<close>

text \<open>\<open>up_chunks\<close> are the pieces the upstream sends before it closes or fails.\<close>

record ws_net =
  lookup_host :: "string \<Rightarrow> string option"
  connects :: "string \<Rightarrow> bool"
  up_write_ok :: bool
  up_chunks :: "string list"
  client_write_ok :: bool

datatype ws_result =
    LookupFailed
  | ConnectFailed
  | UpstreamWriteFailed string
  | UpstreamEof string
  | NotSwitched string string
  | ClientWriteFailed string string
  | Relayed string string

fun read_101 :: "string \<Rightarrow> string list \<Rightarrow> string option" where
  "read_101 buf [] = None"
| "read_101 buf (c # cs) = (let b = buf @ c in if contains (CRLF @ CRLF) b then Some b else read_101 b cs)"

definition ws_relay ::
  "ws_net \<Rightarrow> (string \<Rightarrow> string) \<Rightarrow> string \<Rightarrow> bool \<Rightarrow> string \<Rightarrow> string \<Rightarrow> ws_result outcome" where
  "ws_relay N lower auth check_client upstream_addr header_bytes =
     (case lookup_host N (strip_scheme upstream_addr) of
        None \<Rightarrow> Done LookupFailed
      | Some sock \<Rightarrow>
          if \<not> connects N sock then Done ConnectFailed
          else bind_outcome (ws_rewrite lower auth (from_utf8_lossy header_bytes)) (\<lambda>rewritten.
            if \<not> up_write_ok N then Done (UpstreamWriteFailed rewritten)
            else (case read_101 [] (up_chunks N) of
               None \<Rightarrow> Done (UpstreamEof rewritten)
             | Some resp_buf \<Rightarrow>
                 if \<not> starts_with ''HTTP/1.1 101'' resp_buf then Done (NotSwitched rewritten resp_buf)
                 else if check_client \<and> \<not> client_write_ok N then Done (ClientWriteFailed rewritten resp_buf)
                 else Done (Relayed rewritten resp_buf))))"

text \<open>The plain-HTTP variant reads the request itself, chunk by chunk, until one ends with a blank line.\<close>

fun read_request :: "string \<Rightarrow> string list \<Rightarrow> string" where
  "read_request buf [] = buf"
| "read_request buf (c # cs) =
     (let b = buf @ c in if ends_with (CRLF @ CRLF) b then b else read_request b cs)"

definition proxy_ws_upgrade_buf :: "ws_net \<Rightarrow> string list \<Rightarrow> string \<Rightarrow> ws_result outcome" where
  "proxy_ws_upgrade_buf N client_chunks upstream_addr =
     ws_relay N to_ascii_lowercase (first_part (strip_scheme upstream_addr)) True upstream_addr
       (read_request [] client_chunks)"

subsection \<open>Connections\<close>

datatype conn_result =
    AcceptFailed
  | AlpnAnswered
  | SniRefused
  | HandshakeFailed
  | WsNoUpstream string
  | WebSocket ws_result
  | ServeHttp string string

definition sni_admitted :: "Config \<Rightarrow> string option \<Rightarrow> bool" where
  "sni_admitted C server_name =
     ((case server_name of Some name \<Rightarrow> is_known_domain C name | None \<Rightarrow> False) \<or> catchall C \<noteq> None)"

text \<open>
  One TLS connection. \<open>hello\<close> is \<^const>\<open>None\<close> when no client hello arrives, and else says whether it
  asks for the ACME protocol and which server name it carries. \<open>handshake\<close> completes the handshake with
  the certificate the resolver picked and yields the decrypted stream. \<open>ServeHttp head rest\<close> hands the
  connection to the HTTP server with \<open>handle\<close> as its service, \<open>head\<close> replayed and \<open>rest\<close> still unread.
\<close>

definition tls_connection ::
  "Config \<Rightarrow> ('k \<Rightarrow> 's option) \<Rightarrow> ('c, 'k) cert_map \<Rightarrow> (('c list \<times> 's) option \<Rightarrow> string option) \<Rightarrow> ws_net \<Rightarrow>
   (bool \<times> string option) option \<Rightarrow> conn_result outcome" where
  "tls_connection C any_supported_type certs handshake N hello =
     (case hello of
        None \<Rightarrow> Done AcceptFailed
      | Some (alpn_challenge, server_name) \<Rightarrow>
          if alpn_challenge then Done AlpnAnswered
          else if \<not> sni_admitted C server_name then Done SniRefused
          else (case handshake (resolve any_supported_type certs server_name) of
             None \<Rightarrow> Done HandshakeFailed
           | Some s \<Rightarrow>
               (case read_headers [] s of (header_bytes, rest) \<Rightarrow>
                  if is_ws header_bytes then
                    (let host = ws_host header_bytes in
                     case site_for_host C host of
                       None \<Rightarrow> Done (WsNoUpstream host)
                     | Some site \<Rightarrow>
                         bind_outcome
                           (ws_relay N to_lowercase (first_part (upstream site)) False (upstream site) header_bytes)
                           (\<lambda>r. Done (WebSocket r)))
                  else Done (ServeHttp header_bytes rest))))"

text \<open>One connection of the plain-HTTP listener; \<open>peeked\<close> are the bytes seen without consuming them.\<close>

definition http_connection ::
  "Config \<Rightarrow> ws_net \<Rightarrow> string \<Rightarrow> string list \<Rightarrow> conn_result outcome" where
  "http_connection C N peeked client_chunks =
     (if is_ws peeked then
        (let host = ws_host peeked in
         case site_for_host C host of
           None \<Rightarrow> Done (WsNoUpstream host)
         | Some site \<Rightarrow>
             bind_outcome (proxy_ws_upgrade_buf N client_chunks (upstream site)) (\<lambda>r. Done (WebSocket r)))
      else Done (ServeHttp '''' (concat client_chunks)))"

section \<open>The head and its replay\<close>

lemma read_headers_split:
  "read_headers acc s = (h, r) \<Longrightarrow>
   \<exists>t. h = acc @ t \<and> s = t @ r \<and> (r = [] \<or> ends_with (CRLF @ CRLF) h) \<and>
     (\<forall>u v. t = u @ v \<and> u \<noteq> [] \<and> v \<noteq> [] \<longrightarrow> \<not> ends_with (CRLF @ CRLF) (acc @ u))"
proof (induction acc s rule: read_headers.induct)
  case (1 acc)
  then show ?case by simp
next
  case (2 acc c cs)
  show ?case
  proof (cases "ends_with (CRLF @ CRLF) (acc @ [c])")
    case True
    then have "h = acc @ [c]" "r = cs" using 2(2) by (simp_all add: Let_def)
    with True show ?thesis
      by (intro exI [of _ "[c]"]) (auto simp: Cons_eq_append_conv)
  next
    case False
    then have "read_headers (acc @ [c]) cs = (h, r)" using 2(2) by (simp add: Let_def)
    with 2(1) [OF refl False] obtain t where t: "h = (acc @ [c]) @ t" "cs = t @ r"
      "r = [] \<or> ends_with (CRLF @ CRLF) h"
      "\<And>u v. t = u @ v \<and> u \<noteq> [] \<and> v \<noteq> [] \<Longrightarrow> \<not> ends_with (CRLF @ CRLF) ((acc @ [c]) @ u)"
      by blast
    have "\<not> ends_with (CRLF @ CRLF) (acc @ u)" if uv: "c # t = u @ v" "u \<noteq> []" "v \<noteq> []" for u v
    proof -
      obtain u' where u: "u = c # u'" "t = u' @ v" using uv by (auto simp: Cons_eq_append_conv)
      show ?thesis using False t(4) [of u' v] u uv(3) by (cases "u' = []") auto
    qed
    with t show ?thesis by (intro exI [of _ "c # t"]) simp
  qed
qed

text \<open>
  The contract of a byte stream: a read delivers the next bytes, at most as many as were asked for, and
  it delivers none only when none were asked for or none are left. Every client that reads until it has
  what it wants sees the contents in order.
\<close>

locale byte_source =
  fixes rd :: "nat \<Rightarrow> 'w \<Rightarrow> string \<times> 'w"
    and contents :: "'w \<Rightarrow> string"
  assumes rd_next: "rd n w = (g, w') \<Longrightarrow> contents w = g @ contents w'"
    and rd_at_most: "rd n w = (g, w') \<Longrightarrow> length g \<le> n"
    and rd_progress: "rd n w = ([], w') \<Longrightarrow> n = 0 \<or> contents w = []"

text \<open>What a \<open>PrefixedReader\<close> still has to deliver, given the contents of the inner reader.\<close>

definition pending :: "('w \<Rightarrow> string) \<Rightarrow> 'w PrefixedReader \<Rightarrow> string" where
  "pending contents p = drop (pr_pos p) (pr_prefix p) @ contents (pr_inner p)"

context byte_source
begin

lemma poll_read_inside:
  assumes "poll_read rd n p = (g, p')" and "pr_pos p < length (pr_prefix p)"
  shows "g = take n (drop (pr_pos p) (pr_prefix p))" and "pending contents p = g @ pending contents p'"
proof -
  let ?d = "drop (pr_pos p) (pr_prefix p)"
  show g: "g = take n ?d"
    using assms by (auto simp: poll_read_def Let_def)
  have p': "p' = p\<lparr>pr_pos := pr_pos p + length g\<rparr>"
    using assms by (auto simp: poll_read_def Let_def)
  have "drop (pr_pos p + length g) (pr_prefix p) = drop n ?d"
    unfolding g by (simp add: add.commute min_def)
  then show "pending contents p = g @ pending contents p'"
    unfolding pending_def p' using append_take_drop_id [of n ?d] by (simp add: g)
qed

lemma poll_read_beyond:
  assumes "poll_read rd n p = (g, p')" and "\<not> pr_pos p < length (pr_prefix p)"
  shows "\<exists>w. rd n (pr_inner p) = (g, w) \<and> p' = p\<lparr>pr_inner := w\<rparr> \<and> pending contents p = contents (pr_inner p)
           \<and> pending contents p' = contents w"
  using assms by (auto simp: poll_read_def pending_def split: prod.splits)

end

text \<open>A \<open>PrefixedReader\<close> over a byte stream is again one, whose contents start with the prefix.\<close>

locale replayed_source = byte_source rd contents
  for rd :: "nat \<Rightarrow> 'w \<Rightarrow> string \<times> 'w" and contents :: "'w \<Rightarrow> string"

sublocale replayed_source \<subseteq> prefixed: byte_source "poll_read rd" "pending contents"
proof
  fix n p g p'
  assume r: "poll_read rd n p = (g, p')"
  show "pending contents p = g @ pending contents p'"
    using poll_read_inside(2) [OF r] poll_read_beyond [OF r] rd_next by fastforce
  show "length g \<le> n"
    using poll_read_inside(1) [OF r] poll_read_beyond [OF r] rd_at_most by fastforce
next
  fix n p p'
  assume r: "poll_read rd n p = ([], p')"
  show "n = 0 \<or> pending contents p = []"
  proof (cases "pr_pos p < length (pr_prefix p)")
    case True
    then show ?thesis using poll_read_inside(1) [OF r True] by (cases n) (auto simp: take_eq_Nil)
  next
    case False
    then show ?thesis using poll_read_beyond [OF r False] rd_progress by fastforce
  qed
qed

text \<open>Any sequence of reads: \<open>poll_reads\<close> composes them.\<close>

context replayed_source
begin

lemma poll_reads_pending:
  "poll_reads rd ns p = (g, p') \<Longrightarrow> pending contents p = g @ pending contents p'"
proof (induction ns arbitrary: p g)
  case (Cons n ns)
  obtain g1 p1 where r1: "poll_read rd n p = (g1, p1)" by fastforce
  obtain g2 p2 where r2: "poll_reads rd ns p1 = (g2, p2)" by fastforce
  have "g = g1 @ g2" "p' = p2" using Cons.prems r1 r2 by simp_all
  then show ?case
    using prefixed.rd_next [OF r1] Cons.IH [of p1 g2] r2 by simp
qed simp

text \<open>Writing in between, which leaves what the inner stream still delivers, loses nothing of the prefix.\<close>

lemma poll_inner_pending:
  assumes "\<And>w r w'. f w = (r, w') \<Longrightarrow> contents w' = contents w" and "poll_inner f p = (r, p')"
  shows "pending contents p' = pending contents p"
  using assms by (auto simp: poll_inner_def pending_def split: prod.splits)

lemma poll_read_end:
  assumes "0 < n" and "fst (poll_read rd n p) = []"
  shows "pending contents p = []"
  using assms prefixed.rd_progress [of n p "snd (poll_read rd n p)"] by (cases "poll_read rd n p") auto

end

text \<open>The decrypted stream itself: the bytes that are left, delivered in reads of any size up to the buffer.\<close>

definition read_stream :: "nat \<Rightarrow> string \<Rightarrow> string \<times> string" where
  "read_stream n s = (take n s, drop n s)"

interpretation plain: replayed_source read_stream "\<lambda>s. s"
  by unfold_locales (auto simp: read_stream_def take_eq_Nil)

section \<open>Certificate lookup\<close>

lemma join_split: "join [d] (split_by (\<lambda>c. c = d) s) = s"
proof (induction s)
  case (Cons c s)
  obtain p ps where "split_by (\<lambda>c. c = d) s = p # ps"
    using split_by_ne [of "\<lambda>c. c = d" s] by (cases "split_by (\<lambda>c. c = d) s") auto
  with Cons show ?case by (cases ps) auto
qed simp

text \<open>The search that starts with the name itself.\<close>

definition first_suffix :: "('c, 'k) cert_map \<Rightarrow> string list \<Rightarrow> ('c list \<times> 'k) option" where
  "first_suffix m ps =
     (if ps = [] then None
      else (case m (join ''.'' ps) of Some e \<Rightarrow> Some e | None \<Rightarrow> find_parent m ps))"

lemma first_suffix_Cons:
  "first_suffix m (p # ps) = (case m (join ''.'' (p # ps)) of Some e \<Rightarrow> Some e | None \<Rightarrow> first_suffix m ps)"
  by (cases ps) (simp_all add: first_suffix_def split: option.splits)

lemma Least_shift: "(\<exists>i<Suc n. P i \<and> (\<forall>j<i. Q j)) \<longleftrightarrow> P 0 \<or> Q 0 \<and> (\<exists>i<n. P (Suc i) \<and> (\<forall>j<i. Q (Suc j)))"
  by (auto simp: Ex_less_Suc2 All_less_Suc2)

lemma first_suffix_Some:
  "first_suffix m ps = Some e \<longleftrightarrow>
     (\<exists>i<length ps. m (join ''.'' (drop i ps)) = Some e \<and>
        (\<forall>j<i. m (join ''.'' (drop j ps)) = None))"
proof (induction ps)
  case Nil
  then show ?case by (simp add: first_suffix_def)
next
  case (Cons p ps)
  have "(\<exists>i<length (p # ps). m (join ''.'' (drop i (p # ps))) = Some e \<and>
        (\<forall>j<i. m (join ''.'' (drop j (p # ps))) = None)) \<longleftrightarrow>
      m (join ''.'' (p # ps)) = Some e \<or>
      m (join ''.'' (p # ps)) = None \<and> (\<exists>i<length ps. m (join ''.'' (drop i ps)) = Some e \<and>
        (\<forall>j<i. m (join ''.'' (drop j ps)) = None))"
    using Least_shift [of "length ps" "\<lambda>i. m (join ''.'' (drop i (p # ps))) = Some e"
        "\<lambda>j. m (join ''.'' (drop j (p # ps))) = None"] by simp
  then show ?case
    by (simp only: first_suffix_Cons Cons.IH [symmetric]) (auto split: option.splits)
qed

lemma resolve_eq:
  "resolve any m (Some d) =
     (case first_suffix m (split_on (CHR ''.'') d) of
        None \<Rightarrow> None
      | Some (c, k) \<Rightarrow> map_option (\<lambda>s. (c, s)) (any k))"
  using split_by_ne [of "\<lambda>x. x = CHR ''.''" d] join_split [of "CHR ''.''" d]
  by (simp add: resolve_def first_suffix_def split_on_def split: option.splits)

section \<open>Loading certificates\<close>

text \<open>When the stored entry of a name is usable, and what the map then holds.\<close>

definition stored_cert :: "('r, 'c, 'k) cert_lib \<Rightarrow> 'r \<Rightarrow> string \<Rightarrow> CertData option" where
  "stored_cert L r d = Option.bind (cmd_get L (cert_prefix @ d) r) (cert_from_json L)"

definition pem_ok :: "('r, 'c, 'k) cert_lib \<Rightarrow> CertData \<Rightarrow> bool" where
  "pem_ok L c \<longleftrightarrow> pem_certs L (cert_pem c) \<noteq> None \<and> pem_keys L (key_pem c) \<notin> {None, Some []}"

definition name_of_key :: "string \<Rightarrow> string" where
  "name_of_key k = unwrap_or k (strip_prefix cert_prefix k)"

lemma load_cert_cases:
  "load_cert L r k m =
     (case stored_cert L r (name_of_key k) of
        None \<Rightarrow> Done m
      | Some c \<Rightarrow>
          if \<not> pem_ok L c then
            Panic (if pem_certs L (cert_pem c) = None then ''failed to parse cert PEM''
                   else if pem_keys L (key_pem c) = None then ''failed to parse key PEM''
                   else ''no private key found'')
          else Done (m(name_of_key k \<mapsto> (the (pem_certs L (cert_pem c)), hd (the (pem_keys L (key_pem c)))))))"
  by (auto simp: load_cert_def stored_cert_def name_of_key_def pem_ok_def Let_def
      split: option.splits list.splits bind_splits)

lemma load_certs_Done:
  "(\<exists>m'. load_certs L r ks m = Done m') \<longleftrightarrow>
     (\<forall>k \<in> set ks. case stored_cert L r (name_of_key k) of None \<Rightarrow> True | Some c \<Rightarrow> pem_ok L c)"
proof (induction ks arbitrary: m)
  case (Cons k ks)
  show ?case
    using Cons.IH by (auto simp: load_cert_cases split: option.splits)
qed simp

lemma load_certs_lookup:
  "load_certs L r ks m = Done m' \<Longrightarrow>
   m' d = (if d \<in> name_of_key ` set ks \<and> stored_cert L r d \<noteq> None
           then (case the (stored_cert L r d) of c \<Rightarrow>
             Some (the (pem_certs L (cert_pem c)), hd (the (pem_keys L (key_pem c)))))
           else m d)"
proof (induction ks arbitrary: m)
  case (Cons k ks)
  then obtain m1 where m1: "load_cert L r k m = Done m1" "load_certs L r ks m1 = Done m'"
    by (auto simp: bind_outcome_Done)
  have "m1 d = (if d = name_of_key k \<and> stored_cert L r d \<noteq> None
      then Some (the (pem_certs L (cert_pem (the (stored_cert L r d)))),
                 hd (the (pem_keys L (key_pem (the (stored_cert L r d))))))
      else m d)"
    using m1(1) by (auto simp: load_cert_cases split: option.splits if_splits)
  with Cons.IH [OF m1(2)] show ?case by auto
qed simp

section \<open>Well-formed request heads\<close>

text \<open>A head as clients send it: lines of visible characters, each ended by CR LF, then an empty one.\<close>

definition line_ok :: "string \<Rightarrow> bool" where
  "line_ok l \<longleftrightarrow> l \<noteq> [] \<and> list_all (\<lambda>c. code c = 9 \<or> 32 \<le> code c \<and> code c < 127) l"

definition lines_text :: "string list \<Rightarrow> string" where
  "lines_text ls = concat (map (\<lambda>l. l @ CRLF) ls)"

lemma lines_text_simps [simp]:
  "lines_text [] = []" "lines_text (l # ls) = l @ CRLF @ lines_text ls"
  by (simp_all add: lines_text_def)

lemma line_ok_no_break:
  assumes "line_ok l"
  shows "CHR 0x0A \<notin> set l" and "CHR 0x0D \<notin> set l"
  using assms by (auto simp: line_ok_def list_all_iff code_def)

lemma from_utf8_lossy_ascii: "list_all (\<lambda>c. code c < 128) s \<Longrightarrow> from_utf8_lossy s = s"
  by (induction s) (auto simp: cont_ranges_def)

lemma lines_text_ascii: "list_all line_ok ls \<Longrightarrow> list_all (\<lambda>c. code c < 128) (lines_text ls)"
  by (induction ls) (auto simp: line_ok_def list_all_iff CRLF_def code_def)

lemma head_lossy: "list_all line_ok ls \<Longrightarrow> from_utf8_lossy (lines_text ls @ CRLF) = lines_text ls @ CRLF"
  using lines_text_ascii by (intro from_utf8_lossy_ascii) (simp add: CRLF_def code_def)

lemma ends_with_last: "ends_with (p @ [d]) (s @ [c]) \<Longrightarrow> c = d"
  by (simp add: ends_with_def)

lemma read_headers_inside:
  "CHR 0x0A \<notin> set u \<Longrightarrow> read_headers acc (u @ t) = read_headers (acc @ u) t"
proof (induction u arbitrary: acc)
  case (Cons c u)
  then have "\<not> ends_with (CRLF @ CRLF) (acc @ [c])"
    by (auto simp: ends_with_def CRLF_def)
  with Cons show ?case by simp
qed simp

lemma read_headers_line:
  assumes "line_ok l"
  shows "read_headers acc (l @ CRLF @ t) = read_headers (acc @ l @ CRLF) t"
proof -
  obtain l' x where l: "l = l' @ [x]" "x \<noteq> CHR 0x0A"
    using assms line_ok_no_break [OF assms] by (cases l rule: rev_cases) (auto simp: line_ok_def)
  have "CHR 0x0A \<notin> set (l @ [CHR 0x0D])" using line_ok_no_break [OF assms] by simp
  from read_headers_inside [OF this, of acc "CHR 0x0A # t"]
  have "read_headers acc (l @ CRLF @ t) = read_headers (acc @ l @ [CHR 0x0D]) (CHR 0x0A # t)"
    by (simp add: CRLF_def)
  also have "\<dots> = read_headers (acc @ l @ CRLF) t"
    using l by (simp add: ends_with_def CRLF_def)
  finally show ?thesis .
qed

lemma read_headers_head:
  assumes "list_all line_ok ls" and "ends_with CRLF acc"
  shows "read_headers acc (lines_text ls @ CRLF @ rest) = (acc @ lines_text ls @ CRLF, rest)"
  using assms
proof (induction ls arbitrary: acc)
  case Nil
  then obtain a where "acc = a @ CRLF"
    by (auto simp: ends_with_def CRLF_def prefix_def rev_eq_Cons_iff)
  then show ?case by (simp add: CRLF_def ends_with_def)
next
  case (Cons l ls)
  then show ?case
    using read_headers_line [of l acc "lines_text ls @ CRLF @ rest"] Cons.IH [of "acc @ l @ CRLF"]
    by (simp add: ends_with_def CRLF_def)
qed

lemma read_headers_request:
  assumes "list_all line_ok (first # ls)"
  shows "read_headers [] (lines_text (first # ls) @ CRLF @ rest) = (lines_text (first # ls) @ CRLF, rest)"
  using assms read_headers_line [of first "[]"] read_headers_head [of ls "first @ CRLF"]
  by (simp add: ends_with_def CRLF_def)

lemma split_on_line:
  "d \<notin> set u \<Longrightarrow> split_on d (u @ d # t) = u # split_on d t"
  unfolding split_on_def by (induction u) auto

lemma str_lines_line:
  assumes "line_ok l"
  shows "str_lines (l @ CRLF @ t) = l # str_lines t"
proof -
  have "split_on (CHR 0x0A) (l @ CRLF @ t) = (l @ [CHR 0x0D]) # split_on (CHR 0x0A) t"
    using split_on_line [of "CHR 0x0A" "l @ [CHR 0x0D]" t] line_ok_no_break [OF assms]
    by (simp add: CRLF_def)
  then show ?thesis
    using split_by_ne [of "\<lambda>c. c = CHR 0x0A" t]
    by (simp add: str_lines_def strip_cr_def Let_def split_on_def)
qed

lemma str_lines_head:
  "list_all line_ok ls \<Longrightarrow> str_lines (lines_text ls @ CRLF) = ls @ ['''']"
  by (induction ls) (simp_all add: str_lines_line, simp add: str_lines_def CRLF_def split_on_def strip_cr_def)

lemma find_sub_line: "line_ok l \<Longrightarrow> find_sub CRLF (l @ CRLF @ t) = Some (length l)"
proof -
  have "CHR 0x0D \<notin> set l \<Longrightarrow> find_sub CRLF (l @ CRLF @ t) = Some (length l)"
    by (induction l) (auto simp: CRLF_def)
  then show "line_ok l \<Longrightarrow> ?thesis" using line_ok_no_break by blast
qed

lemma ws_rewrite_head:
  assumes "list_all line_ok (first # ls)" and "split_whitespace first \<noteq> []"
  shows "ws_rewrite lower auth (lines_text (first # ls) @ CRLF) =
     Done (request_line (split_whitespace first) @ concat (map (rewrite_line lower auth) ls) @ CRLF)"
proof -
  let ?t = "lines_text ls @ CRLF"
  have ok: "line_ok first" "list_all line_ok ls" using assms(1) by auto
  have "list_all (\<lambda>c. code c < 128) ?t" using lines_text_ascii [OF ok(2)] by (simp add: CRLF_def code_def)
  then have "code (?t ! 0) < 128" by (simp add: list_all_length CRLF_def)
  then have "str_from (length first + 2) (first @ CRLF @ ?t) = Done ?t"
    by (simp add: str_from_def CRLF_def nth_append)
  moreover have "takeWhile (\<lambda>l. l \<noteq> []) (ls @ ['''']) = ls"
    using ok(2) by (auto simp: takeWhile_append2 list_all_iff line_ok_def)
  ultimately show ?thesis
    using assms(2) find_sub_line [OF ok(1), of ?t] str_lines_head [OF ok(2)] str_lines_line [OF ok(1), of ?t]
    by (simp add: ws_rewrite_def unwrap_or_def Let_def)
qed

section \<open>Properties\<close>

lemma read_101_Some:
  "read_101 buf cs = Some b \<Longrightarrow>
   \<exists>k\<le>length cs. b = buf @ concat (take k cs) \<and> contains (CRLF @ CRLF) b \<and>
     (\<forall>j. 0 < j \<and> j < k \<longrightarrow> \<not> contains (CRLF @ CRLF) (buf @ concat (take j cs)))"
proof (induction buf cs rule: read_101.induct)
  case (2 buf c cs)
  show ?case
  proof (cases "contains (CRLF @ CRLF) (buf @ c)")
    case True
    then show ?thesis using 2(2) by (intro exI [of _ 1]) (simp add: Let_def)
  next
    case False
    with 2 obtain k where k: "k \<le> length cs" "b = (buf @ c) @ concat (take k cs)" "contains (CRLF @ CRLF) b"
      "\<And>j. 0 < j \<Longrightarrow> j < k \<Longrightarrow> \<not> contains (CRLF @ CRLF) ((buf @ c) @ concat (take j cs))"
      by (auto simp: Let_def)
    have "\<not> contains (CRLF @ CRLF) (buf @ concat (take j (c # cs)))" if "0 < j" "j < Suc k" for j
      using that False k(4) [of "j - 1"] by (cases j; cases "j = 1") auto
    with k show ?thesis by (intro exI [of _ "Suc k"]) simp
  qed
qed simp

lemma ws_rewrite_total:
  "(\<exists>m. ws_rewrite lower auth t = Panic m) \<longleftrightarrow>
     split_whitespace (case str_lines t of [] \<Rightarrow> '''' | l # _ \<Rightarrow> l) = [] \<or>
     (\<nexists>r. str_from (unwrap_or 0 (find_sub CRLF t) + 2) t = Done r)"
proof (cases "str_from (unwrap_or 0 (find_sub CRLF t) + 2) t")
qed (simp_all add: ws_rewrite_def Let_def)

lemma ws_relay_panics:
  "(\<exists>m. ws_relay N lower auth chk up hb = Panic m) \<longleftrightarrow>
     (\<exists>sock. lookup_host N (strip_scheme up) = Some sock \<and> connects N sock) \<and>
     (\<exists>m. ws_rewrite lower auth (from_utf8_lossy hb) = Panic m)"
  by (cases "ws_rewrite lower auth (from_utf8_lossy hb)")
    (auto simp: ws_relay_def split: option.splits)

lemma tls_admitted:
  assumes "handshake None = None"
    and "tls_connection C any certs handshake N (Some (False, sn)) \<notin> {Done SniRefused, Done HandshakeFailed}"
  shows "sni_admitted C sn" and "\<exists>e. resolve any certs sn = Some e"
proof -
  show a: "sni_admitted C sn"
    using assms(2) by (cases "sni_admitted C sn") (auto simp: tls_connection_def)
  show "\<exists>e. resolve any certs sn = Some e"
    using assms a by (cases "resolve any certs sn") (auto simp: tls_connection_def)
qed

lemma resolve_Some:
  "resolve any m (Some d) = Some (chain, s) \<longleftrightarrow>
     (\<exists>i<length (split_on (CHR ''.'') d). \<exists>k.
        m (join ''.'' (drop i (split_on (CHR ''.'') d))) = Some (chain, k) \<and> any k = Some s \<and>
        (\<forall>j<i. m (join ''.'' (drop j (split_on (CHR ''.'') d))) = None))"
proof -
  have "resolve any m (Some d) = Some (chain, s) \<longleftrightarrow>
      (\<exists>k. first_suffix m (split_on (CHR ''.'') d) = Some (chain, k) \<and> any k = Some s)"
    by (auto simp: resolve_eq split: option.splits)
  then show ?thesis unfolding first_suffix_Some by blast
qed

text \<open>
  C10. A TLS connection gets past the edge only with a server name that a configured site serves, or any
  name when there is a catch-all, and only with the most specific certificate on file: the entry of the
  longest dot-suffix of the name that has one. So the catch-all does not serve names without a
  certificate: their handshakes fail. The hypothesis is that a handshake without a certificate fails.
\<close>

theorem tls_admission:
  assumes "handshake None = None"
    and "tls_connection C any certs handshake N (Some (False, sn)) = Done r"
    and "r \<noteq> SniRefused" and "r \<noteq> HandshakeFailed"
  shows "\<exists>d i chain k s. sn = Some d \<and> (site_for_host C d \<noteq> None \<or> catchall C \<noteq> None) \<and>
     i < length (split_on (CHR ''.'') d) \<and>
     certs (join ''.'' (drop i (split_on (CHR ''.'') d))) = Some (chain, k) \<and> any k = Some s \<and>
     (\<forall>j<i. certs (join ''.'' (drop j (split_on (CHR ''.'') d))) = None)"
proof -
  have "tls_connection C any certs handshake N (Some (False, sn)) \<notin> {Done SniRefused, Done HandshakeFailed}"
    using assms by simp
  note adm = tls_admitted [OF assms(1) this]
  then obtain chain s where e: "resolve any certs sn = Some (chain, s)" by auto
  then obtain d where d: "sn = Some d" by (cases sn) (simp_all add: resolve_def)
  from adm(1) d have "site_for_host C d \<noteq> None \<or> catchall C \<noteq> None"
    by (simp add: sni_admitted_def is_known_domain_iff)
  with d e show ?thesis unfolding d resolve_Some by blast
qed

text \<open>A configured name, a certificate of its parent, and a connection that closes after one byte.\<close>

definition sample_certs :: "(string, string) cert_map" where
  "sample_certs = [''org'' \<mapsto> ([''cert''], ''key'')]"

definition sample_net :: ws_net where
  "sample_net = \<lparr>lookup_host = (\<lambda>h. Some h), connects = (\<lambda>a. True), up_write_ok = True,
     up_chunks = [''HTTP/1.1 101 S'' @ CRLF, CRLF @ ''x''], client_write_ok = True\<rparr>"

lemma sample_site: "site_for_host sample_config ''ex.org'' = Some (hd (sites sample_config))"
  by (simp add: site_for_host_def sample_config_def normalize_host_eq)
    (simp add: trim_end_matches_def to_ascii_lowercase_def ascii_lower_def code_def)

lemma sample_admitted: "sni_admitted sample_config (Some ''ex.org'')"
  by (simp add: sni_admitted_def is_known_domain_iff sample_site)

lemma sample_resolve: "resolve Some sample_certs (Some ''ex.org'') = Some ([''cert''], ''key'')"
  by (simp add: resolve_def sample_certs_def split_on_def)

theorem tls_admission_witness:
  "\<exists>d i chain k s. Some ''ex.org'' = Some d \<and> (site_for_host sample_config d \<noteq> None \<or> catchall sample_config \<noteq> None) \<and>
     i < length (split_on (CHR ''.'') d) \<and>
     sample_certs (join ''.'' (drop i (split_on (CHR ''.'') d))) = Some (chain, k) \<and> Some k = Some s \<and>
     (\<forall>j<i. sample_certs (join ''.'' (drop j (split_on (CHR ''.'') d))) = None)"
proof -
  have r: "tls_connection sample_config Some sample_certs (map_option (\<lambda>_. ''G'')) sample_net
      (Some (False, Some ''ex.org'')) = Done (ServeHttp ''G'' '''')"
    by (simp add: tls_connection_def sample_admitted sample_resolve)
      (simp add: is_ws_def ends_with_def CRLF_def cont_ranges_def code_def to_ascii_lowercase_def contains_def)
  show ?thesis
    using tls_admission [OF _ r] by simp
qed

lemma tls_after_handshake:
  assumes "sni_admitted C sn" and "handshake (resolve any certs sn) = Some s"
    and "read_headers [] s = (hb, rest)"
  shows "tls_connection C any certs handshake N (Some (False, sn)) =
     (if is_ws hb then
        (case site_for_host C (ws_host hb) of
           None \<Rightarrow> Done (WsNoUpstream (ws_host hb))
         | Some site \<Rightarrow>
             bind_outcome (ws_relay N to_lowercase (first_part (upstream site)) False (upstream site) hb)
               (\<lambda>r. Done (WebSocket r)))
      else Done (ServeHttp hb rest))"
  using assms by (simp add: tls_connection_def Let_def)

lemma tls_serves:
  "tls_connection C any certs handshake N hello = Done (ServeHttp h rest) \<Longrightarrow>
   \<exists>sn s. hello = Some (False, sn) \<and> handshake (resolve any certs sn) = Some s \<and>
     read_headers [] s = (h, rest) \<and> \<not> is_ws h"
  by (auto simp: tls_connection_def Let_def bind_outcome_Done split: option.splits if_splits prod.splits)

text \<open>
  C20. The edge loses and reorders no byte of a request it has peeked into. What it read, followed by what
  is unread, is the decrypted stream; it stopped at the first empty line; and however the HTTP server
  chops its reads of the \<open>PrefixedReader\<close>, it receives exactly that stream in order, and an empty read
  into a non-empty buffer comes only at its end.
\<close>

theorem edge_replays_stream:
  assumes "tls_connection C any certs handshake N (Some (False, sn)) = Done (ServeHttp h rest)"
    and "handshake (resolve any certs sn) = Some s"
    and "replayed_source rd contents" and "contents w = rest"
    and "poll_reads rd ns \<lparr>pr_prefix = h, pr_pos = 0, pr_inner = w\<rparr> = (got, p)"
  shows "s = got @ pending contents p \<and> (rest = [] \<or> ends_with (CRLF @ CRLF) h) \<and>
     (\<forall>u v. h = u @ v \<and> v \<noteq> [] \<longrightarrow> \<not> ends_with (CRLF @ CRLF) u) \<and>
     (\<forall>n>0. fst (poll_read rd n p) = [] \<longrightarrow> got = s)"
proof -
  have "read_headers [] s = (h, rest)" using tls_serves [OF assms(1)] assms(2) by auto
  from read_headers_split [OF this] have r: "s = h @ rest" "rest = [] \<or> ends_with (CRLF @ CRLF) h"
    "\<And>u v. h = u @ v \<and> u \<noteq> [] \<and> v \<noteq> [] \<Longrightarrow> \<not> ends_with (CRLF @ CRLF) u" by auto
  have s: "s = got @ pending contents p"
    using replayed_source.poll_reads_pending [OF assms(3,5)] r(1) assms(4) by (simp add: pending_def)
  have "\<not> ends_with (CRLF @ CRLF) u" if "h = u @ v \<and> v \<noteq> []" for u v
    using that r(3) [of u v] by (cases "u = []") (auto simp: ends_with_def CRLF_def)
  with s r(2) replayed_source.poll_read_end [OF assms(3)] show ?thesis by fastforce
qed

text \<open>A request whose body follows its head, read back in pieces of three, two and twenty bytes.\<close>

theorem edge_replays_stream_witness:
  "let s = ''G / H'' @ CRLF @ CRLF @ ''ab'';
       (got, p) = poll_reads read_stream [3, 2, 20] \<lparr>pr_prefix = ''G / H'' @ CRLF @ CRLF, pr_pos = 0, pr_inner = ''ab''\<rparr>
   in s = got @ pending (\<lambda>s. s) p"
proof -
  let ?s = "''G / H'' @ CRLF @ CRLF @ ''ab''" and ?h = "''G / H'' @ CRLF @ CRLF"
  have rh: "read_headers [] ?s = (?h, ''ab'')"
    using read_headers_request [of "''G / H''" "[]" "''ab''"] by (simp add: line_ok_def code_def)
  have "\<not> is_ws ?h"
    by (simp add: is_ws_def CRLF_def cont_ranges_def code_def to_ascii_lowercase_def ascii_lower_def contains_def)
  then have r: "tls_connection sample_config Some sample_certs (map_option (\<lambda>_. ?s)) sample_net
      (Some (False, Some ''ex.org'')) = Done (ServeHttp ?h ''ab'')"
    using tls_after_handshake [OF sample_admitted _ rh, of "map_option (\<lambda>_. ?s)" Some sample_certs]
    by (simp add: sample_resolve)
  have hs: "map_option (\<lambda>_. ?s) (resolve Some sample_certs (Some ''ex.org'')) = Some ?s"
    by (simp add: sample_resolve)
  show ?thesis
    using edge_replays_stream [OF r hs plain.replayed_source_axioms refl,
        of "[3, 2, 20]" "fst (poll_reads read_stream [3, 2, 20] \<lparr>pr_prefix = ?h, pr_pos = 0, pr_inner = ''ab''\<rparr>)"
           "snd (poll_reads read_stream [3, 2, 20] \<lparr>pr_prefix = ?h, pr_pos = 0, pr_inner = ''ab''\<rparr>)"]
    by (simp del: poll_reads.simps split: prod.splits)
qed

lemma ws_relay_switches:
  assumes "lookup_host N (strip_scheme up) = Some sock" and "connects N sock"
    and "ws_rewrite lower auth (from_utf8_lossy hb) = Done t" and "up_write_ok N"
    and "read_101 [] (up_chunks N) = Some resp" and "starts_with ''HTTP/1.1 101'' resp"
  shows "ws_relay N lower auth False up hb = Done (Relayed t resp)"
  using assms by (simp add: ws_relay_def)

lemma first_part_scheme: "first_part (''http://'' @ u) = ''http''" "first_part (''https://'' @ u) = ''https''"
  using split_by_hd [of "\<lambda>c. c = CHR '':''" u]
  by (auto simp: first_part_def split_on_def split: list.splits)


definition sample_upgrade :: "string list" where
  "sample_upgrade = [''GET /w HTTP/1.1'', ''X: y'', ''HOST: ex.org'', ''Upgrade: WebSocket'']"

lemma sample_upgrade_facts:
  "list_all line_ok sample_upgrade" "is_ws (lines_text sample_upgrade @ CRLF)"
  "ws_host (lines_text sample_upgrade @ CRLF) = ''ex.org''"
  "split_whitespace ''GET /w HTTP/1.1'' = [''GET'', ''/w'', ''HTTP/1.1'']"
proof -
  show ok: "list_all line_ok sample_upgrade" by (simp add: sample_upgrade_def line_ok_def code_def)
  show "is_ws (lines_text sample_upgrade @ CRLF)"
    unfolding is_ws_def head_lossy [OF ok]
    by (simp add: sample_upgrade_def CRLF_def to_ascii_lowercase_def ascii_lower_def code_def contains_def char_of_def bit_0)
  show "ws_host (lines_text sample_upgrade @ CRLF) = ''ex.org''"
    unfolding ws_host_def head_lossy [OF ok] str_lines_head [OF ok]
    by (simp add: sample_upgrade_def starts_with_def to_ascii_lowercase_def ascii_lower_def code_def char_of_def bit_0)
      (simp add: split_once_def trim_def trim_start_def trim_end_def leading_def white_space_def)
  show "split_whitespace ''GET /w HTTP/1.1'' = [''GET'', ''/w'', ''HTTP/1.1'']"
    by (simp add: split_whitespace_def leading_def white_space_def)
qed


text \<open>
  C21. When a connection brings the process down. The code panics exactly on a WebSocket upgrade for a
  configured site with a reachable upstream whose first line holds no word, or whose text cannot be cut
  two bytes behind its first line break. A client needs no clearance for it: an empty line ahead of an
  upgrade request is enough.
\<close>

theorem tls_connection_panics:
  "(\<exists>m. tls_connection C any certs handshake N hello = Panic m) \<longleftrightarrow>
     (\<exists>sn s h rest site sock. hello = Some (False, sn) \<and> sni_admitted C sn \<and>
        handshake (resolve any certs sn) = Some s \<and> read_headers [] s = (h, rest) \<and> is_ws h \<and>
        site_for_host C (ws_host h) = Some site \<and>
        lookup_host N (strip_scheme (upstream site)) = Some sock \<and> connects N sock \<and>
        (let t = from_utf8_lossy h in
         split_whitespace (case str_lines t of [] \<Rightarrow> '''' | l # _ \<Rightarrow> l) = [] \<or>
         (\<nexists>r. str_from (unwrap_or 0 (find_sub CRLF t) + 2) t = Done r)))"
  (is "?L \<longleftrightarrow> ?R")
proof -
  have bind: "(\<exists>m. bind_outcome x (\<lambda>r. Done (WebSocket r)) = Panic m) \<longleftrightarrow> (\<exists>m. x = Panic m)" for x
    by (cases x) auto
  have relay: "(\<exists>m. bind_outcome (ws_relay N lower auth chk up h) (\<lambda>r. Done (WebSocket r)) = Panic m) \<longleftrightarrow>
      (\<exists>sock. lookup_host N (strip_scheme up) = Some sock \<and> connects N sock) \<and>
      (let t = from_utf8_lossy h in
         split_whitespace (case str_lines t of [] \<Rightarrow> '''' | l # _ \<Rightarrow> l) = [] \<or>
         (\<nexists>r. str_from (unwrap_or 0 (find_sub CRLF t) + 2) t = Done r))" for lower auth chk up h
    by (simp only: bind ws_relay_panics ws_rewrite_total Let_def)
  show ?thesis
  proof (cases hello)
    case (Some p)
    obtain a sn where p: "p = (a, sn)" by (cases p)
    show ?thesis
    proof (cases "a \<or> \<not> sni_admitted C sn \<or> handshake (resolve any certs sn) = None")
      case False
      then obtain s where s: "handshake (resolve any certs sn) = Some s" by auto
      obtain h rest where h: "read_headers [] s = (h, rest)" by fastforce
      from False have "tls_connection C any certs handshake N hello =
          (if is_ws h then
             (case site_for_host C (ws_host h) of
                None \<Rightarrow> Done (WsNoUpstream (ws_host h))
              | Some site \<Rightarrow>
                  bind_outcome (ws_relay N to_lowercase (first_part (upstream site)) False (upstream site) h)
                    (\<lambda>r. Done (WebSocket r)))
           else Done (ServeHttp h rest))"
        using tls_after_handshake [of C sn handshake any certs s h rest N] s h Some p by simp
      then show ?thesis
        using False s h Some p relay by (auto split: option.splits)
    qed (auto simp: Some p tls_connection_def)
  qed (simp add: tls_connection_def)
qed

text \<open>An upgrade request behind an empty line.\<close>

definition blank_first :: string where
  "blank_first = CRLF @ lines_text [''Host: ex.org'', ''Upgrade: websocket''] @ CRLF"

lemma blank_first_facts:
  "read_headers [] blank_first = (blank_first, [])" "is_ws blank_first" "ws_host blank_first = ''ex.org''"
  "from_utf8_lossy blank_first = blank_first" "str_lines blank_first = '''' # [''Host: ex.org'', ''Upgrade: websocket'', '''']"
proof -
  let ?ls = "[''Host: ex.org'', ''Upgrade: websocket'']"
  have ok: "list_all line_ok ?ls" by (simp add: line_ok_def code_def)
  have "read_headers [] (CRLF @ u) = read_headers CRLF u" for u
    by (simp add: CRLF_def ends_with_def)
  then show "read_headers [] blank_first = (blank_first, [])"
    using read_headers_head [OF ok, of CRLF "[]"] unfolding blank_first_def by (simp add: ends_with_def CRLF_def)
  show lossy: "from_utf8_lossy blank_first = blank_first"
    by (rule from_utf8_lossy_ascii) (simp add: blank_first_def CRLF_def code_def)
  have "str_lines (CRLF @ u) = '''' # str_lines u" for u
    using split_by_ne [of "\<lambda>c. c = CHR 0x0A" u]
    by (simp add: str_lines_def CRLF_def split_on_def strip_cr_def Let_def)
  then show lines: "str_lines blank_first = '''' # [''Host: ex.org'', ''Upgrade: websocket'', '''']"
    using str_lines_head [OF ok] unfolding blank_first_def by simp
  show "is_ws blank_first"
    unfolding is_ws_def lossy
    by (simp add: blank_first_def CRLF_def to_ascii_lowercase_def ascii_lower_def code_def contains_def char_of_def bit_0)
  show "ws_host blank_first = ''ex.org''"
    unfolding ws_host_def lossy lines
    by (simp add: starts_with_def to_ascii_lowercase_def ascii_lower_def code_def char_of_def bit_0)
      (simp add: split_once_def trim_def trim_start_def trim_end_def leading_def white_space_def)
qed

theorem tls_connection_panics_witness:
  "\<exists>m. tls_connection sample_config Some sample_certs (map_option (\<lambda>_. blank_first)) sample_net
     (Some (False, Some ''ex.org'')) = Panic m"
proof -
  have "lookup_host sample_net (strip_scheme (upstream (hd (sites sample_config)))) = Some (strip_scheme (upstream (hd (sites sample_config))))"
    "connects sample_net (strip_scheme (upstream (hd (sites sample_config))))"
    by (simp_all add: sample_net_def)
  moreover have "split_whitespace (case str_lines blank_first of [] \<Rightarrow> [] | l # _ \<Rightarrow> l) = []"
    by (simp add: blank_first_facts split_whitespace_def)
  ultimately show ?thesis
    unfolding tls_connection_panics Let_def
    using sample_admitted sample_resolve blank_first_facts sample_site by fastforce
qed

text \<open>The same relay serves the plain-HTTP listener: an empty line ahead of the upgrade ends it too.\<close>

lemma blank_line_ends_process:
  "tls_connection sample_config Some sample_certs (map_option (\<lambda>_. blank_first)) sample_net
     (Some (False, Some ''ex.org'')) = Panic ''index out of bounds''"
  "http_connection sample_config sample_net blank_first [blank_first] = Panic ''index out of bounds''"
proof -
  have p: "ws_rewrite lower auth blank_first = Panic ''index out of bounds''" for lower auth
    by (simp add: ws_rewrite_def blank_first_facts split_whitespace_def)
  have r: "ws_relay sample_net lower auth chk up blank_first = Panic ''index out of bounds''" for lower auth chk up
    by (simp add: ws_relay_def sample_net_def blank_first_facts p)
  show "tls_connection sample_config Some sample_certs (map_option (\<lambda>_. blank_first)) sample_net
     (Some (False, Some ''ex.org'')) = Panic ''index out of bounds''"
    using tls_after_handshake [OF sample_admitted, of "map_option (\<lambda>_. blank_first)" Some sample_certs blank_first]
      blank_first_facts r sample_site by (simp add: sample_resolve)
  have "read_request [] [blank_first] = blank_first" by (simp add: Let_def)
  then show "http_connection sample_config sample_net blank_first [blank_first] = Panic ''index out of bounds''"
    using blank_first_facts sample_site
    by (simp add: http_connection_def proxy_ws_upgrade_buf_def r del: read_request.simps)
qed

text \<open>What the edge serves for a stored record.\<close>

definition cert_entry :: "('r, 'c, 'k) cert_lib \<Rightarrow> CertData \<Rightarrow> 'c list \<times> 'k" where
  "cert_entry L c = (the (pem_certs L (cert_pem c)), hd (the (pem_keys L (key_pem c))))"

lemma name_of_key_prefixed: "prefix cert_prefix k \<Longrightarrow> cert_prefix @ name_of_key k = k"
  by (auto simp: name_of_key_def strip_prefix_def unwrap_or_def prefix_def)

lemma name_of_key_image:
  assumes "list_all (prefix cert_prefix) ks"
  shows "d \<in> name_of_key ` set ks \<longleftrightarrow> cert_prefix @ d \<in> set ks"
proof
  assume "d \<in> name_of_key ` set ks"
  then show "cert_prefix @ d \<in> set ks"
    using assms name_of_key_prefixed by (auto simp: list_all_iff)
next
  assume k: "cert_prefix @ d \<in> set ks"
  have "name_of_key (cert_prefix @ d) = d"
    by (simp add: name_of_key_def strip_prefix_def unwrap_or_def)
  with k show "d \<in> name_of_key ` set ks" by (metis imageI)
qed

text \<open>
  Loading certificates. The load succeeds exactly if every stored record that is well-formed JSON also
  holds a parsable chain and key, so a single bad record stops the process, at start and at every reload;
  and after it the map has for every name exactly its stored chain and first key.
\<close>

theorem build_tls_config_correct:
  assumes "cmd_keys L r = Some ks" and "list_all (prefix cert_prefix) ks"
  shows "((\<exists>m. build_tls_config L r = Done m) \<longleftrightarrow>
       (\<forall>d c. cert_prefix @ d \<in> set ks \<and> stored_cert L r d = Some c \<longrightarrow> pem_ok L c)) \<and>
     (\<forall>m d. build_tls_config L r = Done m \<longrightarrow>
       m d = (if cert_prefix @ d \<in> set ks then map_option (cert_entry L) (stored_cert L r d) else None))"
proof -
  have b: "build_tls_config L r = load_certs L r ks Map.empty"
    using assms(1) by (simp add: build_tls_config_def unwrap_or_def)
  have "(\<exists>m. build_tls_config L r = Done m) \<longleftrightarrow>
      (\<forall>d \<in> name_of_key ` set ks. case stored_cert L r d of None \<Rightarrow> True | Some c \<Rightarrow> pem_ok L c)"
    unfolding b load_certs_Done by blast
  also have "\<dots> \<longleftrightarrow> (\<forall>d c. cert_prefix @ d \<in> set ks \<and> stored_cert L r d = Some c \<longrightarrow> pem_ok L c)"
    unfolding Ball_def name_of_key_image [OF assms(2)] by (auto split: option.splits)
  finally have total: "(\<exists>m. build_tls_config L r = Done m) \<longleftrightarrow>
      (\<forall>d c. cert_prefix @ d \<in> set ks \<and> stored_cert L r d = Some c \<longrightarrow> pem_ok L c)" .
  have "m d = (if cert_prefix @ d \<in> set ks then map_option (cert_entry L) (stored_cert L r d) else None)"
    if "build_tls_config L r = Done m" for m d
    using load_certs_lookup [OF that [unfolded b], of d] name_of_key_image [OF assms(2), of d]
    by (auto simp: cert_entry_def)
  with total show ?thesis by blast
qed

text \<open>A store as an association list, with records and keys that are their own text.\<close>

definition plain_certs :: "((string \<times> string) list, string, string) cert_lib" where
  "plain_certs =
     \<lparr>cmd_keys = (\<lambda>r. Some (filter (prefix cert_prefix) (map fst r))), cmd_get = (\<lambda>k r. map_of r k),
      cert_from_json = (\<lambda>j. if j = [] then None else Some \<lparr>cert_pem = j, key_pem = tl j\<rparr>),
      pem_certs = (\<lambda>p. Some [p]), pem_keys = (\<lambda>p. Some (if p = [] then [] else [p]))\<rparr>"

theorem build_tls_config_correct_witness:
  "(\<exists>m. build_tls_config plain_certs [(cert_prefix @ ''a'', ''xy''), (''other'', ''z'')] = Done m \<and>
      m ''a'' = Some ([''xy''], ''y'') \<and> m ''b'' = None) \<and>
   \<not> (\<exists>m. build_tls_config plain_certs [(cert_prefix @ ''a'', ''xy''), (cert_prefix @ ''b'', ''x'')] = Done m)"
proof -
  let ?r = "[(cert_prefix @ ''a'', ''xy''), (''other'', ''z'')]"
  let ?s = "[(cert_prefix @ ''a'', ''xy''), (cert_prefix @ ''b'', ''x'')]"
  have kr: "cmd_keys plain_certs ?r = Some [cert_prefix @ ''a'']"
    and ks: "cmd_keys plain_certs ?s = Some [cert_prefix @ ''a'', cert_prefix @ ''b'']"
    by (simp_all add: plain_certs_def cert_prefix_def)
  have "stored_cert plain_certs ?r ''a'' = Some \<lparr>cert_pem = ''xy'', key_pem = ''y''\<rparr>"
    "stored_cert plain_certs ?s ''b'' = Some \<lparr>cert_pem = ''x'', key_pem = []\<rparr>"
    by (simp_all add: stored_cert_def plain_certs_def)
  moreover have "pem_ok plain_certs \<lparr>cert_pem = ''xy'', key_pem = ''y''\<rparr>"
    "\<not> pem_ok plain_certs \<lparr>cert_pem = ''x'', key_pem = []\<rparr>"
    "cert_entry plain_certs \<lparr>cert_pem = ''xy'', key_pem = ''y''\<rparr> = ([''xy''], ''y'')"
    by (simp_all add: pem_ok_def cert_entry_def plain_certs_def)
  ultimately show ?thesis
    using build_tls_config_correct [OF kr] build_tls_config_correct [OF ks] by fastforce
qed

text \<open>After any number of updates the map is the one built at the last.\<close>

lemma reload_certs_last:
  "reload_certs L (rs @ [r]) m0 = Done m \<Longrightarrow> build_tls_config L r = Done m"
  by (induction rs arbitrary: m0) (auto simp: bind_outcome_Done)

end
