(* ===== verification/Ng_Log.thy ===== *)
theory Ng_Log
  imports Site_Config
begin

text \<open>
  The logger of \<open>nekoguard/src/ng_log.rs\<close>: level filter, log file with its truncation, and the civil
  calendar behind the time stamps. The operating system answers (whether the file opens, how much of a
  write reaches it, the clock) are arguments. The log file has no other writer; its sizes are \<open>u64\<close> and
  wrap. The loop over the years is a partial function, so that its termination is a theorem.
\<close>

section \<open>Definitions\<close>

subsection \<open>Levels\<close>

text \<open>\<open>log::Level\<close>; \<open>LevelFilter\<close> has the same values and an \<open>Off\<close> that no text of the configuration selects.\<close>

datatype Level = Error | Warn | Info | Debug | Trace

fun level_rank :: "Level \<Rightarrow> nat" where
  "level_rank Error = 1"
| "level_rank Warn = 2"
| "level_rank Info = 3"
| "level_rank Debug = 4"
| "level_rank Trace = 5"

instantiation Level :: linorder
begin

definition less_eq_Level :: "Level \<Rightarrow> Level \<Rightarrow> bool" where
  "less_eq_Level a b \<longleftrightarrow> level_rank a \<le> level_rank b"

definition less_Level :: "Level \<Rightarrow> Level \<Rightarrow> bool" where
  "less_Level a b \<longleftrightarrow> level_rank a < level_rank b"

instance
proof
  fix a b :: Level
  assume "a \<le> b" "b \<le> a"
  then show "a = b" by (cases a; cases b) (simp_all add: less_eq_Level_def)
qed (auto simp: less_eq_Level_def less_Level_def)

end

definition parse_level :: "string \<Rightarrow> Level" where
  "parse_level s =
     (let l = to_ascii_lowercase s in
      if l = ''error'' then Error else if l = ''warn'' then Warn else if l = ''info'' then Info
      else if l = ''debug'' then Debug else if l = ''trace'' then Trace else Info)"

fun level_text :: "Level \<Rightarrow> string" where
  "level_text Error = ''ERROR''"
| "level_text Warn = ''WARN ''"
| "level_text Info = ''INFO ''"
| "level_text Debug = ''DEBUG''"
| "level_text Trace = ''TRACE''"

subsection \<open>Time stamps\<close>

definition is_leap :: "nat \<Rightarrow> bool" where
  "is_leap y \<longleftrightarrow> (4 dvd y \<and> \<not> 100 dvd y) \<or> 400 dvd y"

partial_function (option) year_loop :: "nat \<Rightarrow> nat \<Rightarrow> (nat \<times> nat) option" where
  "year_loop y remaining =
     (let year_days = (if is_leap y then 366 else 365) in
      if remaining < year_days then Some (y, remaining)
      else year_loop (y + 1) (remaining - year_days))"

definition month_days :: "bool \<Rightarrow> nat list" where
  "month_days leap = [31, if leap then 29 else 28, 31, 30, 31, 30, 31, 31, 30, 31, 30, 31]"

fun month_loop :: "nat list \<Rightarrow> nat \<Rightarrow> nat \<Rightarrow> nat \<times> nat" where
  "month_loop [] m remaining = (m, remaining)"
| "month_loop (md # mds) m remaining =
     (if remaining < md then (m, remaining) else month_loop mds (m + 1) (remaining - md))"

definition epoch_days_to_ymd :: "nat \<Rightarrow> (nat \<times> nat \<times> nat) option" where
  "epoch_days_to_ymd days =
     (case year_loop 1970 days of
        None \<Rightarrow> None
      | Some (y, remaining) \<Rightarrow>
          (case month_loop (month_days (is_leap y)) 1 remaining of (m, r) \<Rightarrow> Some (y, m, r + 1)))"

definition timestamp :: "nat \<Rightarrow> string option" where
  "timestamp now =
     (let days = now div 86400; secs = now mod 86400;
          h = secs div 3600; m = (secs mod 3600) div 60; s = secs mod 60
      in case epoch_days_to_ymd days of
           None \<Rightarrow> None
         | Some (y, mo, d) \<Rightarrow>
             Some (pad0 4 (dec y) @ ''-'' @ pad0 2 (dec mo) @ ''-'' @ pad0 2 (dec d) @ '' '' @
                   pad0 2 (dec h) @ '':'' @ pad0 2 (dec m) @ '':'' @ pad0 2 (dec s)))"

subsection \<open>The log file\<close>

text \<open>
  The open handle with the bytes of its file: a handle in append mode writes at the end, one that was
  reopened for truncation at its own position.
\<close>

record LogFile =
  lf_disk :: string
  lf_append :: bool
  lf_pos :: nat
  lf_size :: u64
  lf_max_size :: u64

record NekoLogger =
  nl_level :: Level
  nl_file :: "LogFile option"

text \<open>
  \<open>existing\<close> is what the file holds at start, if there is one; \<open>opens\<close> whether it can be opened for
  appending, after the attempt to create its directory. Installing the logger fails only if one is
  installed already, and the only caller calls once and ignores the result.
\<close>

definition init :: "(string \<Rightarrow> string option) \<Rightarrow> (string \<Rightarrow> bool) \<Rightarrow> LogConfig \<Rightarrow> NekoLogger outcome" where
  "init existing opens config =
     (case log_file config of
        None \<Rightarrow> Done \<lparr>nl_level = parse_level (level config), nl_file = None\<rparr>
      | Some path \<Rightarrow>
          if opens path then
            Done \<lparr>nl_level = parse_level (level config),
                  nl_file = Some \<lparr>lf_disk = unwrap_or [] (existing path), lf_append = True, lf_pos = 0,
                                  lf_size = (case existing path of None \<Rightarrow> 0 | Some t \<Rightarrow> of_nat (length t)),
                                  lf_max_size = max_size config\<rparr>\<rparr>
          else Panic (''failed to open log file '' @ path))"

text \<open>\<open>write_all\<close> of a text of which the system takes the first \<open>n\<close> bytes.\<close>

definition write_all :: "nat \<Rightarrow> string \<Rightarrow> LogFile \<Rightarrow> LogFile" where
  "write_all n t lf =
     (let w = take n t; at = (if lf_append lf then length (lf_disk lf) else lf_pos lf) in
      lf\<lparr>lf_disk := take at (lf_disk lf) @ replicate (at - length (lf_disk lf)) (CHR 0x00) @ w
                    @ drop (at + length w) (lf_disk lf),
         lf_pos := at + length w\<rparr>)"

definition log_to_file :: "bool \<Rightarrow> nat \<Rightarrow> string \<Rightarrow> LogFile \<Rightarrow> LogFile" where
  "log_to_file reopens n msg_bytes lf0 =
     (let len = of_nat (length msg_bytes);
          lf = (if lf_max_size lf0 > 0 \<and> lf_size lf0 + len > lf_max_size lf0 \<and> reopens
                then lf0\<lparr>lf_disk := [], lf_append := False, lf_pos := 0, lf_size := 0\<rparr> else lf0);
          lf' = write_all n msg_bytes lf
      in lf'\<lparr>lf_size := lf_size lf' + len\<rparr>)"

definition log_message :: "string \<Rightarrow> Level \<Rightarrow> string \<Rightarrow> string" where
  "log_message ts lvl args = ''['' @ ts @ ''] ['' @ level_text lvl @ ''] '' @ args @ [CHR 0x0A]"

text \<open>One record: what goes to standard error, and the logger after it.\<close>

definition log_record ::
  "bool \<Rightarrow> nat \<Rightarrow> string \<Rightarrow> Level \<Rightarrow> string \<Rightarrow> NekoLogger \<Rightarrow> string \<times> NekoLogger" where
  "log_record reopens n ts lvl args self =
     (if \<not> lvl \<le> nl_level self then ([], self)
      else (let msg = log_message ts lvl args in
        (msg, self\<lparr>nl_file := map_option (log_to_file reopens n msg) (nl_file self)\<rparr>)))"

definition request_log :: "string \<Rightarrow> string \<Rightarrow> nat \<Rightarrow> string \<Rightarrow> string \<Rightarrow> nat \<Rightarrow> string" where
  "request_log m path st host up elapsed_ms =
     (let arrow = '' '' @ [CHR 0xE2, CHR 0x86, CHR 0x92] @ '' '' in
      m @ '' '' @ path @ arrow @ dec st @ '' ('' @ host @ arrow @ up @ '') '' @ dec elapsed_ms @ ''ms'')"

section \<open>The calendar\<close>

text \<open>
  The reference: the Gregorian count of days in closed form, with no loop. \<open>leaps_to y\<close> counts the leap
  years up to year \<open>y\<close>.
\<close>

definition leaps_to :: "nat \<Rightarrow> nat" where
  "leaps_to y = y div 4 - y div 100 + y div 400"

definition days_before_year :: "nat \<Rightarrow> nat" where
  "days_before_year y = 365 * (y - 1970) + (leaps_to (y - 1) - leaps_to 1969)"

definition civil_days :: "nat \<Rightarrow> nat \<Rightarrow> nat \<Rightarrow> nat" where
  "civil_days y m d = days_before_year y + sum_list (take (m - 1) (month_days (is_leap y))) + (d - 1)"

definition valid_date :: "nat \<Rightarrow> nat \<Rightarrow> nat \<Rightarrow> bool" where
  "valid_date y m d \<longleftrightarrow> 1970 \<le> y \<and> 1 \<le> m \<and> m \<le> 12 \<and> 1 \<le> d \<and> d \<le> month_days (is_leap y) ! (m - 1)"

lemma leaps_to_Suc: "leaps_to (Suc y) = leaps_to y + (if is_leap (Suc y) then 1 else 0)"
proof -
  have le: "y div 100 \<le> y div 4" by (rule div_le_mono2) auto
  have "100 dvd Suc y \<Longrightarrow> 4 dvd Suc y" "400 dvd Suc y \<Longrightarrow> 100 dvd Suc y"
    by (auto intro: dvd_trans [of 4 100] dvd_trans [of 100 400])
  with le show ?thesis
    by (auto simp: leaps_to_def is_leap_def div_Suc dvd_eq_mod_eq_0 [symmetric] Suc_diff_le)
qed

lemma days_before_Suc:
  "1970 \<le> y \<Longrightarrow> days_before_year (Suc y) = days_before_year y + (if is_leap y then 366 else 365)"
proof -
  assume y: "1970 \<le> y"
  have "leaps_to 1969 \<le> leaps_to (y - 1)"
    by (rule lift_Suc_mono_le [of leaps_to]) (use y in \<open>simp_all add: leaps_to_Suc\<close>)
  moreover have "leaps_to y = leaps_to (y - 1) + (if is_leap y then 1 else 0)"
    using leaps_to_Suc [of "y - 1"] y by simp
  moreover have "365 * (y - 1969) = 365 * (y - 1970) + 365" using y by simp
  ultimately show ?thesis using y by (simp add: days_before_year_def ac_simps)
qed

lemma year_loop_spec:
  "1970 \<le> y \<Longrightarrow> \<exists>y' r. year_loop y n = Some (y', r) \<and> y \<le> y' \<and> y' \<le> y + n div 365 \<and>
     r < (if is_leap y' then 366 else 365) \<and> days_before_year y + n = days_before_year y' + r"
proof (induction n arbitrary: y rule: less_induct)
  case (less n)
  let ?k = "if is_leap y then 366 else 365 :: nat"
  show ?case
  proof (cases "n < ?k")
    case True
    then show ?thesis by (subst year_loop.simps) auto
  next
    case False
    then have "n - ?k < n" by (simp split: if_splits)
    with less.IH [of "n - ?k" "Suc y"] less.prems obtain y' r where r: "year_loop (Suc y) (n - ?k) = Some (y', r)" "Suc y \<le> y'"
      "y' \<le> Suc y + (n - ?k) div 365" "r < (if is_leap y' then 366 else 365)"
      "days_before_year (Suc y) + (n - ?k) = days_before_year y' + r"
      by auto
    have "year_loop y n = Some (y', r)"
      using False r(1) by (subst year_loop.simps) (auto simp: Let_def)
    moreover have "Suc ((n - ?k) div 365) \<le> n div 365"
    proof -
      have "(n - ?k) div 365 \<le> (n - 365) div 365" by (rule div_le_mono) auto
      moreover have "n div 365 = Suc ((n - 365) div 365)" using False by (subst le_div_geq) (auto split: if_splits)
      ultimately show ?thesis by simp
    qed
    ultimately show ?thesis
      using r False days_before_Suc [OF less.prems] by (auto split: if_splits)
  qed
qed

lemma month_loop_spec:
  "r < sum_list mds \<Longrightarrow>
   \<exists>i<length mds. \<exists>r'. month_loop mds m r = (m + i, r') \<and> r' < mds ! i \<and> sum_list (take i mds) + r' = r"
proof (induction mds arbitrary: m r)
  case (Cons md mds)
  show ?case
  proof (cases "r < md")
    case False
    then have "r - md < sum_list mds" using Cons.prems by auto
    from Cons.IH [OF this, of "m + 1"] obtain i r' where "i < length mds" "month_loop mds (m + 1) (r - md) = (m + 1 + i, r')" "r' < mds ! i"
      "sum_list (take i mds) + r' = r - md"
      by blast
    then show ?thesis using False by (intro exI [of _ "Suc i"]) auto
  qed auto
qed simp

lemma month_days_year: "length (month_days l) = 12" "sum_list (month_days l) = (if l then 366 else 365)"
  by (auto simp: month_days_def)

text \<open>Dividing a line into consecutive blocks: a point lies in one block only.\<close>

lemma block_unique:
  fixes f :: "nat \<Rightarrow> nat"
  assumes "mono f" and "f i \<le> n" "n < f (Suc i)" and "f j \<le> n" "n < f (Suc j)"
  shows "i = j"
proof (rule ccontr)
  assume "i \<noteq> j"
  then have "Suc i \<le> j \<or> Suc j \<le> i" by auto
  with monoD [OF assms(1)] have "f (Suc i) \<le> f j \<or> f (Suc j) \<le> f i" by blast
  with assms show False by auto
qed

lemma mono_sum_take: "mono (\<lambda>i. sum_list (take i (xs :: nat list)))"
proof (rule monoI)
  fix i j :: nat
  assume "i \<le> j"
  then have "take j xs = take i xs @ take (j - i) (drop i xs)" by (simp add: take_add [symmetric])
  then show "sum_list (take i xs) \<le> sum_list (take j xs)" by simp
qed

lemma sum_take_Suc: "i < length xs \<Longrightarrow> sum_list (take (Suc i) xs) = sum_list (take i xs) + (xs ! i :: nat)"
  by (simp add: take_Suc_conv_app_nth)

lemma mono_years: "mono (\<lambda>k. days_before_year (1970 + k))"
  by (rule monoI, rule lift_Suc_mono_le [of "\<lambda>k. days_before_year (1970 + k)"]) (use days_before_Suc [of "1970 + _"] in auto)

lemma day_of_year_less:
  assumes "valid_date y m d"
  shows "sum_list (take (m - 1) (month_days (is_leap y))) + (d - 1) < (if is_leap y then 366 else 365)"
proof -
  let ?xs = "month_days (is_leap y)"
  have m: "m - 1 < length ?xs" "d - 1 < ?xs ! (m - 1)"
    using assms by (auto simp: valid_date_def month_days_year)
  have "sum_list (take (m - 1) ?xs) + (d - 1) < sum_list (take (Suc (m - 1)) ?xs)"
    using sum_take_Suc [OF m(1)] m(2) by simp
  also have "\<dots> \<le> sum_list (take (length ?xs) ?xs)" by (rule monoD [OF mono_sum_take]) (use m(1) in simp)
  finally show ?thesis using month_days_year(2) [of "is_leap y"] by simp
qed

lemma civil_days_inj:
  assumes "valid_date y m d" "valid_date y' m' d'" "civil_days y m d = civil_days y' m' d'"
  shows "y = y' \<and> m = m' \<and> d = d'"
proof -
  let ?f = "\<lambda>k. days_before_year (1970 + k)"
  have block: "?f (a - 1970) \<le> civil_days a b c \<and> civil_days a b c < ?f (Suc (a - 1970))" if "valid_date a b c" for a b c
  proof -
    have "1970 \<le> a" using that by (simp add: valid_date_def)
    then show ?thesis
      using day_of_year_less [OF that] days_before_Suc [of a] by (auto simp: civil_days_def)
  qed
  have "y - 1970 = y' - 1970"
    by (rule block_unique [OF mono_years, of _ "civil_days y m d"]) (use block assms in metis)+
  then have y: "y = y'" using assms(1,2) by (auto simp: valid_date_def)
  let ?xs = "month_days (is_leap y)"
  have eq: "sum_list (take (m - 1) ?xs) + (d - 1) = sum_list (take (m' - 1) ?xs) + (d' - 1)"
    using assms(3) y by (simp add: civil_days_def)
  have mm: "m - 1 < 12" "m' - 1 < 12" "d - 1 < ?xs ! (m - 1)" "d' - 1 < ?xs ! (m' - 1)"
    using assms(1,2) y by (auto simp: valid_date_def)
  have "m - 1 = m' - 1"
    by (rule block_unique [OF mono_sum_take [of ?xs], of _ "sum_list (take (m - 1) ?xs) + (d - 1)"])
      (use eq mm sum_take_Suc [of _ ?xs] month_days_year(1) [of "is_leap y"] in auto)
  then show ?thesis using eq y assms(1,2) by (auto simp: valid_date_def)
qed

lemma epoch_days_to_ymd_date:
  "\<exists>y m d. epoch_days_to_ymd n = Some (y, m, d) \<and> valid_date y m d \<and> civil_days y m d = n \<and> y \<le> 1970 + n div 365"
proof -
  obtain y r where y: "year_loop 1970 n = Some (y, r)" "1970 \<le> y" "y \<le> 1970 + n div 365"
    "r < (if is_leap y then 366 else 365)" "days_before_year 1970 + n = days_before_year y + r"
    using year_loop_spec [of 1970 n] by auto
  let ?xs = "month_days (is_leap y)"
  have "r < sum_list ?xs" using y(4) month_days_year(2) by simp
  from month_loop_spec [OF this, of 1] obtain i r' where m: "i < length ?xs"
    "month_loop ?xs 1 r = (1 + i, r')" "r' < ?xs ! i" "sum_list (take i ?xs) + r' = r" by blast
  have "epoch_days_to_ymd n = Some (y, 1 + i, r' + 1)"
    using y(1) m(2) by (simp add: epoch_days_to_ymd_def)
  moreover have "valid_date y (1 + i) (r' + 1)"
    using y(2) m(1,3) by (simp add: valid_date_def month_days_year)
  moreover have "civil_days y (1 + i) (r' + 1) = n"
    using y(5) m(4) by (simp add: civil_days_def days_before_year_def)
  ultimately show ?thesis using y(3) by blast
qed

text \<open>
  The calendar loop of the time stamps ends for every day count, after at most one turn per 365 days,
  and returns a year within that bound with a month and a day that exist.
\<close>

theorem epoch_days_to_ymd_returns:
  "\<exists>y m d. epoch_days_to_ymd n = Some (y, m, d) \<and> y \<le> 1970 + n div 365 \<and> valid_date y m d"
  using epoch_days_to_ymd_date [of n] by blast


lemma length_pad0: "0 < k \<Longrightarrow> n < 10 ^ k \<Longrightarrow> length (pad0 k (dec n)) = k"
  using length_radix [of 10 k n] by (simp add: pad0_def dec_def)

lemma year_four_digits:
  assumes "valid_date y m d" and "civil_days y m d < 2932897"
  shows "y < 10000"
proof (rule ccontr)
  assume "\<not> y < 10000"
  then have "days_before_year (1970 + 8030) \<le> days_before_year (1970 + (y - 1970))"
    using monoD [OF mono_years, of 8030 "y - 1970"] by simp
  moreover have "days_before_year (1970 + 8030) = 2932897"
    by (simp add: days_before_year_def leaps_to_def)
  ultimately show False using assms by (auto simp: civil_days_def valid_date_def)
qed

text \<open>
  C40. Every time stamp before the year 10000 is a well-formed text of nineteen characters whose fields
  are a date that exists and a time of day, and those fields add up to the second they were made from.
\<close>

theorem timestamp_well_formed:
  assumes "now < 253402300800"
  shows "\<exists>t y mo d h mi s. timestamp now = Some t \<and> length t = 19 \<and>
     t = pad0 4 (dec y) @ ''-'' @ pad0 2 (dec mo) @ ''-'' @ pad0 2 (dec d) @ '' '' @
         pad0 2 (dec h) @ '':'' @ pad0 2 (dec mi) @ '':'' @ pad0 2 (dec s) \<and>
     valid_date y mo d \<and> h < 24 \<and> mi < 60 \<and> s < 60 \<and>
     civil_days y mo d * 86400 + h * 3600 + mi * 60 + s = now"
proof -
  obtain y mo d where e: "epoch_days_to_ymd (now div 86400) = Some (y, mo, d)" "valid_date y mo d"
    "civil_days y mo d = now div 86400"
    using epoch_days_to_ymd_date [of "now div 86400"] by blast
  let ?sec = "now mod 86400"
  let ?h = "?sec div 3600" and ?mi = "?sec mod 3600 div 60" and ?s = "?sec mod 60"
  have y: "y < 10000" using year_four_digits e(2,3) assms by (simp add: less_mult_imp_div_less)
  have "month_days l ! i \<le> 31" if "i < 12" for l i
    using that by (auto simp: month_days_def less_Suc_eq numeral_eq_Suc)
  moreover have mo: "mo < 100" "mo - 1 < 12" and "d \<le> month_days (is_leap y) ! (mo - 1)"
    using e(2) by (auto simp: valid_date_def)
  ultimately have "d \<le> 31" by (meson le_trans)
  then have "d < 100" by simp
  moreover have tod: "?h < 24" "?mi < 60" "?s < 60" by (simp_all add: less_mult_imp_div_less)
  ultimately have len: "length (pad0 4 (dec y)) = 4" "length (pad0 2 (dec mo)) = 2" "length (pad0 2 (dec d)) = 2"
    "length (pad0 2 (dec ?h)) = 2" "length (pad0 2 (dec ?mi)) = 2" "length (pad0 2 (dec ?s)) = 2"
    using y mo(1) by (auto intro!: length_pad0)
  have "?sec mod 3600 mod 60 = ?s" by (rule mod_mod_cancel) simp
  then have "?h * 3600 + ?mi * 60 + ?s = ?sec"
    using div_mult_mod_eq [of ?sec 3600] div_mult_mod_eq [of "?sec mod 3600" 60] by linarith
  then have sum: "civil_days y mo d * 86400 + ?h * 3600 + ?mi * 60 + ?s = now"
    using e(3) div_mult_mod_eq [of now 86400] by linarith
  let ?t = "pad0 4 (dec y) @ ''-'' @ pad0 2 (dec mo) @ ''-'' @ pad0 2 (dec d) @ '' '' @
         pad0 2 (dec ?h) @ '':'' @ pad0 2 (dec ?mi) @ '':'' @ pad0 2 (dec ?s)"
  have "timestamp now = Some ?t" "length ?t = 19"
    using e(1) len by (simp_all add: timestamp_def Let_def)
  then show ?thesis using e(2) tod sum by blast
qed

theorem timestamp_well_formed_witness:
  "\<exists>t y mo d h mi s. timestamp 1709210096 = Some t \<and> length t = 19 \<and>
     t = pad0 4 (dec y) @ ''-'' @ pad0 2 (dec mo) @ ''-'' @ pad0 2 (dec d) @ '' '' @
         pad0 2 (dec h) @ '':'' @ pad0 2 (dec mi) @ '':'' @ pad0 2 (dec s) \<and>
     valid_date y mo d \<and> h < 24 \<and> mi < 60 \<and> s < 60 \<and>
     civil_days y mo d * 86400 + h * 3600 + mi * 60 + s = 1709210096"
  using timestamp_well_formed [of 1709210096] by simp

section \<open>The log file\<close>

text \<open>A sequence of records: per record how much the system writes, its time stamp, level and text.\<close>

fun log_all :: "(nat \<times> string \<times> Level \<times> string) list \<Rightarrow> NekoLogger \<Rightarrow> string \<times> NekoLogger" where
  "log_all [] self = ([], self)"
| "log_all ((n, ts, lvl, args) # rs) self =
     (case log_record True n ts lvl args self of (e, self1) \<Rightarrow>
        case log_all rs self1 of (es, self2) \<Rightarrow> (e @ es, self2))"

fun enabled_writes :: "Level \<Rightarrow> (nat \<times> string \<times> Level \<times> string) list \<Rightarrow> (nat \<times> string) list" where
  "enabled_writes l [] = []"
| "enabled_writes l ((n, ts, lvl, args) # rs) =
     (if lvl \<le> l then (n, log_message ts lvl args) # enabled_writes l rs else enabled_writes l rs)"

definition write_logs :: "(nat \<times> string) list \<Rightarrow> LogFile \<Rightarrow> LogFile" where
  "write_logs ws = fold (\<lambda>(n, m). log_to_file True n m) ws"

lemma log_all_writes:
  "nl_file self = Some lf \<Longrightarrow>
   log_all rs self =
     (concat (map snd (enabled_writes (nl_level self) rs)),
      self\<lparr>nl_file := Some (write_logs (enabled_writes (nl_level self) rs) lf)\<rparr>)"
  by (induction rs self arbitrary: lf rule: log_all.induct)
    (auto simp: log_record_def write_logs_def Let_def split: prod.splits)

definition lf_inv :: "LogFile \<Rightarrow> bool" where
  "lf_inv lf \<longleftrightarrow> (lf_append lf \<or> lf_pos lf = length (lf_disk lf)) \<and> length (lf_disk lf) \<le> unat (lf_size lf)"

lemma write_all_at_end:
  "lf_append lf \<or> lf_pos lf = length (lf_disk lf) \<Longrightarrow>
   write_all n t lf = lf\<lparr>lf_disk := lf_disk lf @ take n t, lf_pos := length (lf_disk lf @ take n t)\<rparr>"
  by (auto simp: write_all_def Let_def)

text \<open>One record, when the sizes stay in range: start over if it would not fit, then append.\<close>

lemma log_to_file_eq:
  assumes "lf_inv lf" and "unat (lf_size lf) + length m < 2 ^ 64"
  shows "log_to_file True n m lf =
     (if 0 < lf_max_size lf \<and> unat (lf_max_size lf) < unat (lf_size lf) + length m
      then lf\<lparr>lf_disk := take n m, lf_append := False, lf_pos := length (take n m), lf_size := of_nat (length m)\<rparr>
      else lf\<lparr>lf_disk := lf_disk lf @ take n m, lf_pos := length (lf_disk lf @ take n m),
              lf_size := lf_size lf + of_nat (length m)\<rparr>)"
proof -
  have "unat (lf_size lf + of_nat (length m)) = unat (lf_size lf) + length m"
    using assms(2) by (simp add: unat_word_ariths unsigned_of_nat take_bit_eq_mod)
  then have "lf_max_size lf < lf_size lf + of_nat (length m) \<longleftrightarrow> unat (lf_max_size lf) < unat (lf_size lf) + length m"
    by (simp add: word_less_nat_alt)
  then show ?thesis
    using assms(1) by (auto simp: log_to_file_def Let_def write_all_at_end lf_inv_def)
qed

lemma log_to_file_max [simp]: "lf_max_size (log_to_file r n m lf) = lf_max_size lf"
  by (simp add: log_to_file_def write_all_def Let_def)

lemma log_step:
  assumes "lf_inv lf" and "unat (lf_size lf) < 2 ^ 63" and "0 < lf_max_size lf"
    and "length m < 2 ^ 63"
  shows "lf_inv (log_to_file True n m lf)"
    and "unat (lf_size (log_to_file True n m lf)) \<le> max (unat (lf_max_size lf)) (length m)"
    and "lf_disk (log_to_file True n m lf) \<in> {take n m, lf_disk lf @ take n m}"
proof -
  have fits: "unat (lf_size lf) + length m < 2 ^ 64" using assms(2,4) by simp
  have s: "unat (lf_size lf + of_nat (length m)) = unat (lf_size lf) + length m"
    and m: "unat (of_nat (length m) :: u64) = length m"
    using fits by (simp_all add: unat_word_ariths unsigned_of_nat take_bit_eq_mod)
  note eq = log_to_file_eq [OF assms(1) fits, of n]
  show "lf_inv (log_to_file True n m lf)"
    using assms(1) s m unfolding eq by (auto simp: lf_inv_def)
  show "unat (lf_size (log_to_file True n m lf)) \<le> max (unat (lf_max_size lf)) (length m)"
    using assms(3) s m unfolding eq by auto
  show "lf_disk (log_to_file True n m lf) \<in> {take n m, lf_disk lf @ take n m}"
    unfolding eq by auto
qed

lemma write_logs_bounded:
  assumes "lf_inv lf" and "unat (lf_size lf) < 2 ^ 63" and "0 < lf_max_size lf" and "unat (lf_max_size lf) < 2 ^ 63"
    and "list_all (\<lambda>(n, m). length m < 2 ^ 63) ws"
  shows "lf_inv (write_logs ws lf) \<and> unat (lf_size (write_logs ws lf)) < 2 ^ 63 \<and>
     lf_max_size (write_logs ws lf) = lf_max_size lf \<and>
     (ws \<noteq> [] \<longrightarrow> unat (lf_size (write_logs ws lf)) \<le> max (unat (lf_max_size lf)) (length (snd (last ws)))) \<and>
     (\<exists>k\<le>length ws. lf_disk (write_logs ws lf) = concat (drop k (lf_disk lf # map (\<lambda>(n, m). take n m) ws)))"
  using assms(5)
proof (induction ws rule: rev_induct)
  case Nil
  then show ?case using assms by (auto simp: write_logs_def)
next
  case (snoc w ws)
  obtain n m where w: "w = (n, m)" by (cases w)
  let ?lf = "write_logs ws lf"
  have step: "write_logs (ws @ [w]) lf = log_to_file True n m ?lf"
    by (simp add: write_logs_def w)
  have IH: "lf_inv ?lf" "unat (lf_size ?lf) < 2 ^ 63" "lf_max_size ?lf = lf_max_size lf"
    and "\<exists>k\<le>length ws. lf_disk ?lf = concat (drop k (lf_disk lf # map (\<lambda>(n, m). take n m) ws))"
    using snoc by auto
  then obtain k where k: "k \<le> length ws" "lf_disk ?lf = concat (drop k (lf_disk lf # map (\<lambda>(n, m). take n m) ws))"
    by blast
  have m: "length m < 2 ^ 63" using snoc.prems w by simp
  note s = log_step [OF IH(1,2) _ m, of n]
  have "\<exists>k\<le>length (ws @ [w]). lf_disk (log_to_file True n m ?lf) =
      concat (drop k (lf_disk lf # map (\<lambda>(n, m). take n m) (ws @ [w])))"
    using s(3) assms(3) IH(3)
  proof (auto, goal_cases)
    case 1
    then show ?case by (intro exI [of _ "Suc (length ws)"]) (simp add: w)
  next
    case 2
    then show ?case using k by (intro exI [of _ k]) (simp add: w drop_Cons' split: if_splits)
  qed
  with s assms(3,4) m IH(3) show ?case unfolding step by (auto simp: w)
qed

text \<open>
  C38. The log file. Whatever is logged after the start, standard error gets every enabled record in order;
  with a size limit the file never exceeds the limit, or one record if that alone is longer, even when
  writes are cut short; and it always holds an unbroken run of the latest records, up to the last one,
  with what the file held at the start as the oldest. (Sizes below 2 to the 63, and the file can be
  reopened when it is truncated.)
\<close>

theorem log_file_bounded:
  assumes "init existing opens config = Done self" and "log_file config = Some path"
    and "0 < max_size config" and "unat (max_size config) < 2 ^ 63"
    and "length (unwrap_or [] (existing path)) < 2 ^ 63"
    and "ws = enabled_writes (parse_level (level config)) rs" and "ws \<noteq> []"
    and "list_all (\<lambda>(n, m). length m < 2 ^ 63) ws"
  shows "\<exists>err self' lf k. log_all rs self = (err, self') \<and> nl_file self' = Some lf \<and>
     err = concat (map snd ws) \<and>
     length (lf_disk lf) \<le> max (unat (max_size config)) (length (snd (last ws))) \<and>
     k \<le> length ws \<and> lf_disk lf = concat (drop k (unwrap_or [] (existing path) # map (\<lambda>(n, m). take n m) ws))"
proof -
  let ?t = "unwrap_or [] (existing path)"
  let ?lf = "\<lparr>lf_disk = ?t, lf_append = True, lf_pos = 0, lf_size = of_nat (length ?t), lf_max_size = max_size config\<rparr>"
  have self: "nl_file self = Some ?lf" "nl_level self = parse_level (level config)"
    using assms(1,2) by (auto simp: init_def unwrap_or_def split: if_splits option.splits)
  have size: "unat (of_nat (length ?t) :: u64) = length ?t"
    using assms(5) by (simp add: unsigned_of_nat take_bit_eq_mod)
  have "lf_inv ?lf" using size by (simp add: lf_inv_def)
  with write_logs_bounded [of ?lf ws] assms(3-5,7,8) size obtain k where
    "lf_inv (write_logs ws ?lf)" "unat (lf_size (write_logs ws ?lf)) \<le> max (unat (max_size config)) (length (snd (last ws)))"
    "k \<le> length ws" "lf_disk (write_logs ws ?lf) = concat (drop k (?t # map (\<lambda>(n, m). take n m) ws))" by auto
  moreover have "log_all rs self = (concat (map snd ws), self\<lparr>nl_file := Some (write_logs ws ?lf)\<rparr>)"
    using log_all_writes [OF self(1), of rs] assms(6) self(2) by simp
  ultimately show ?thesis by (fastforce simp: lf_inv_def)
qed

definition sample_log :: LogConfig where
  "sample_log = \<lparr>level = ''Warn'', log_file = Some ''l'', max_size = 20, requests = True\<rparr>"

theorem log_file_bounded_witness:
  "\<exists>err self' lf k. log_all [(99, ''t'', Error, ''a''), (99, ''t'', Info, ''b''), (99, ''t'', Warn, ''c'')]
       \<lparr>nl_level = Warn, nl_file = Some \<lparr>lf_disk = ''old'', lf_append = True, lf_pos = 0, lf_size = 3, lf_max_size = 20\<rparr>\<rparr>
       = (err, self') \<and> nl_file self' = Some lf \<and> length (lf_disk lf) \<le> 20 \<and> k \<le> Suc (Suc 0) \<and>
     lf_disk lf = concat (drop k [''old'', log_message ''t'' Error ''a'', log_message ''t'' Warn ''c''])"
proof -
  have lvl: "parse_level (level sample_log) = Warn"
    by (simp add: sample_log_def parse_level_def Let_def to_ascii_lowercase_def ascii_lower_def code_def char_of_def bit_0)
  have i: "init (\<lambda>_. Some ''old'') (\<lambda>_. True) sample_log =
      Done \<lparr>nl_level = Warn, nl_file = Some \<lparr>lf_disk = ''old'', lf_append = True, lf_pos = 0, lf_size = 3, lf_max_size = 20\<rparr>\<rparr>"
    using lvl by (simp add: init_def sample_log_def unwrap_or_def)
  let ?rs = "[(99, ''t'', Error, ''a''), (99, ''t'', Info, ''b''), (99, ''t'', Warn, ''c'')]"
  have ws: "enabled_writes (parse_level (level sample_log)) ?rs =
      [(99, log_message ''t'' Error ''a''), (99, log_message ''t'' Warn ''c'')]"
    by (simp add: lvl less_eq_Level_def)
  show ?thesis
    using log_file_bounded [OF i _ _ _ _ refl, of "''l''" ?rs, unfolded ws]
    by (simp add: sample_log_def unwrap_or_def log_message_def del: log_all.simps) blast
qed

end
