(* ===== verification/Startup.thy ===== *)
theory Startup
  imports Tls_Edge Ng_Log
begin

text \<open>
  The build script \<open>nekoguard/build.rs\<close> and the start of the server, the first part of \<open>main_inner\<close> in
  \<open>nekoguard/src/main.rs\<close>: what has to succeed, in which order, before the first connection is taken.
  The minifiers, the file system, Redis and the binding of ports are arguments.
\<close>

section \<open>Definitions\<close>

subsection \<open>Build script\<close>

type_synonym files = "string \<rightharpoonup> string"

definition minify_challenge ::
  "(string \<Rightarrow> string) \<Rightarrow> (string \<Rightarrow> bool) \<Rightarrow> string \<Rightarrow> files \<Rightarrow> files outcome" where
  "minify_challenge minify_html writable out fs =
     (case fs ''src/challenge.html'' of
        None \<Rightarrow> Panic ''challenge.html not found''
      | Some html_bytes \<Rightarrow>
          (let dest = out @ ''/challenge.min.html'' in
           if writable dest then Done (fs(dest \<mapsto> minify_html html_bytes))
           else Panic ''Failed to write minified HTML to destination''))"

definition minify_guard ::
  "(string \<Rightarrow> string option) \<Rightarrow> (string \<Rightarrow> bool) \<Rightarrow> string \<Rightarrow> files \<Rightarrow> files outcome" where
  "minify_guard minify_js writable out fs =
     (case fs ''src/assets/guard.js'' of
        None \<Rightarrow> Panic ''guard.js not found''
      | Some source \<Rightarrow>
          (case minify_js source of
             None \<Rightarrow> Panic ''minify-js rejected src/assets/guard.js''
           | Some minified \<Rightarrow>
               if \<not> length minified < length source then Panic ''minify-js did not shrink guard.js''
               else (let dest = out @ ''/guard.min.js'' in
                 if writable dest then Done (fs(dest \<mapsto> minified))
                 else Panic ''Failed to write minified JS to destination'')))"

definition build_main ::
  "(string \<Rightarrow> string) \<Rightarrow> (string \<Rightarrow> string option) \<Rightarrow> (string \<Rightarrow> bool) \<Rightarrow> string option \<Rightarrow> files \<Rightarrow> files outcome" where
  "build_main minify_html minify_js writable out_dir fs =
     (case out_dir of
        None \<Rightarrow> Panic ''OUT_DIR environment variable missing''
      | Some out \<Rightarrow>
          bind_outcome (minify_challenge minify_html writable out fs) (minify_guard minify_js writable out))"

subsection \<open>Start of the server\<close>

record ('r, 'c, 'k) host =
  h_existing :: "string \<Rightarrow> string option"
  h_opens :: "string \<Rightarrow> bool"
  h_provider :: bool
  h_connector :: bool
  h_redis_url_ok :: "string \<Rightarrow> bool"
  h_session_connects :: bool
  h_manager_connects :: bool
  h_secrets :: "'r secret_cmds"
  h_random :: "u8 list"
  h_certs :: "('r, 'c, 'k) cert_lib"
  h_binds :: "u16 \<Rightarrow> bool"

record ('c, 'k) edge =
  ed_logger :: NekoLogger
  ed_session :: SessionManager
  ed_certs :: "('c, 'k) cert_map"
  ed_http :: "u16 option"
  ed_port :: u16

text \<open>The plain-HTTP listener is optional and its port may be taken; the TLS port must be free.\<close>

definition open_listeners :: "(u16 \<Rightarrow> bool) \<Rightarrow> Config \<Rightarrow> (u16 option \<times> u16) outcome" where
  "open_listeners binds C =
     (let http = (case port_http C of Some p \<Rightarrow> if binds p then Some p else None | None \<Rightarrow> None) in
      if binds (port C) then Done (http, port C) else Panic ''bind'')"

definition main_inner :: "('r, 'c, 'k) host \<Rightarrow> Config \<Rightarrow> 'r \<Rightarrow> ('c, 'k) edge outcome \<times> 'r" where
  "main_inner H C r =
     (case init (h_existing H) (h_opens H) (Config.log C) of
        Panic m \<Rightarrow> (Panic m, r)
      | Done logger \<Rightarrow>
          if \<not> h_provider H then (Panic ''failed to install rustls crypto provider'', r)
          else if \<not> h_connector H then (Panic ''failed to build trusting TLS connector'', r)
          else if \<not> h_redis_url_ok H (redis_url (redis C)) then (Panic ''failed to connect to Redis'', r)
          else (case new_with_config (h_secrets H) (h_session_connects H) (h_random H)
                       (cfg_cookie_name (cfg_session C)) (cfg_ttl (cfg_session C)) r of
             (Panic m, r1) \<Rightarrow> (Panic m, r1)
           | (Done sess, r1) \<Rightarrow>
               if \<not> h_manager_connects H then (Panic ''failed to connect to Redis'', r1)
               else (bind_outcome (load_tls_config (h_certs H) r1) (\<lambda>certs.
                 bind_outcome (open_listeners (h_binds H) C) (\<lambda>(http, p).
                   Done \<lparr>ed_logger = logger, ed_session = sess, ed_certs = certs, ed_http = http, ed_port = p\<rparr>)), r1)))"

section \<open>Lemmas\<close>

lemma minify_challenge_Done:
  "minify_challenge mh writable out fs = Done fs' \<longleftrightarrow>
     (\<exists>html. fs ''src/challenge.html'' = Some html \<and> writable (out @ ''/challenge.min.html'') \<and>
        fs' = fs(out @ ''/challenge.min.html'' \<mapsto> mh html))"
  by (auto simp: minify_challenge_def Let_def split: option.splits)

lemma minify_guard_Done:
  "minify_guard mj writable out fs = Done fs' \<longleftrightarrow>
     (\<exists>js min. fs ''src/assets/guard.js'' = Some js \<and> mj js = Some min \<and> length min < length js \<and>
        writable (out @ ''/guard.min.js'') \<and> fs' = fs(out @ ''/guard.min.js'' \<mapsto> min))"
proof (cases "fs ''src/assets/guard.js''")
  case (Some js)
  then show ?thesis by (cases "mj js") (auto simp: minify_guard_def Let_def)
qed (simp add: minify_guard_def)

text \<open>A build that succeeds leaves both files, the script shorter than its source, and touches nothing else.\<close>

lemma build_main_files:
  assumes "build_main mh mj writable (Some out) fs = Done fs'"
  shows "\<exists>html js min. fs ''src/challenge.html'' = Some html \<and> mj js = Some min \<and> length min < length js \<and>
     fs' = fs(out @ ''/challenge.min.html'' \<mapsto> mh html, out @ ''/guard.min.js'' \<mapsto> min)"
  using assms by (auto simp: build_main_def bind_outcome_Done minify_challenge_Done minify_guard_Done)

text \<open>A server that starts has the configured session settings, the certificates of the store and its TLS port.\<close>

lemma main_inner_ready:
  assumes "main_inner H C r = (Done e, r')"
  shows "cookie_name (ed_session e) = cfg_cookie_name (cfg_session C) \<and> ttl (ed_session e) = cfg_ttl (cfg_session C) \<and>
     build_tls_config (h_certs H) r' = Done (ed_certs e) \<and> ed_port e = port C \<and> h_binds H (port C) \<and>
     (ed_http e \<noteq> None \<longrightarrow> ed_http e = port_http C)"
  using assms
  by (auto simp: main_inner_def new_with_config_def load_tls_config_def open_listeners_def bind_outcome_Done Let_def
      split: outcome.splits if_splits prod.splits option.splits)

end
