(* ===== verification/Cluster.thy ===== *)
theory Cluster
  imports Startup
begin

text \<open>
  Several edges over one store: the subscriber task of \<open>main_inner\<close> in \<open>nekoguard/src/main.rs\<close> and the
  channel between it and whoever writes certificates. Redis delivers a published message to the
  connections subscribed at that moment and to nobody later. A step is one action of one process: the
  store changes, a name is published, an edge starts, subscribes, loses its connection or handles the next
  message of its connection. Any interleaving is a sequence of steps.
\<close>

section \<open>Definitions\<close>

text \<open>
  \<open>es_certs\<close> is the certificate map in use, \<^const>\<open>None\<close> while the process is down; \<open>es_inbox\<close> are the
  messages sent to its connection and not yet handled, \<^const>\<open>None\<close> while it is not subscribed.
\<close>

record ('c, 'k) edge_state =
  es_certs :: "('c, 'k) cert_map option"
  es_inbox :: "string list option"

record ('r, 'c, 'k) cluster =
  cl_store :: 'r
  cl_edges :: "nat \<Rightarrow> ('c, 'k) edge_state"

datatype 'r cluster_event =
    StoreWrite 'r
  | Publish string
  | EdgeStart nat
  | Subscribe nat
  | Disconnect nat
  | Deliver nat bool bool

definition set_edge :: "nat \<Rightarrow> ('c, 'k) edge_state \<Rightarrow> ('r, 'c, 'k) cluster \<Rightarrow> ('r, 'c, 'k) cluster" where
  "set_edge i e s = s\<lparr>cl_edges := (cl_edges s)(i := e)\<rparr>"

text \<open>A load that panics takes the process down, as the release profile aborts on a panic.\<close>

definition loaded :: "('c, 'k) cert_map outcome \<Rightarrow> string list option \<Rightarrow> ('c, 'k) edge_state" where
  "loaded res box =
     (case res of
        Done m \<Rightarrow> \<lparr>es_certs = Some m, es_inbox = box\<rparr>
      | Panic _ \<Rightarrow> \<lparr>es_certs = None, es_inbox = None\<rparr>)"

text \<open>\<open>Deliver i opens conn\<close> is one turn of the message loop, with whether the reload gets its connection.\<close>

fun cluster_step ::
  "('r, 'c, 'k) cert_lib \<Rightarrow> 'r cluster_event \<Rightarrow> ('r, 'c, 'k) cluster \<Rightarrow> ('r, 'c, 'k) cluster option" where
  "cluster_step L (StoreWrite r) s = Some (s\<lparr>cl_store := r\<rparr>)"
| "cluster_step L (Publish d) s =
     Some (s\<lparr>cl_edges := (\<lambda>i. (cl_edges s i)\<lparr>es_inbox := map_option (\<lambda>b. b @ [d]) (es_inbox (cl_edges s i))\<rparr>)\<rparr>)"
| "cluster_step L (EdgeStart i) s =
     (if es_certs (cl_edges s i) = None then Some (set_edge i (loaded (load_tls_config L (cl_store s)) None) s)
      else None)"
| "cluster_step L (Subscribe i) s =
     (if es_certs (cl_edges s i) \<noteq> None \<and> es_inbox (cl_edges s i) = None
      then Some (set_edge i ((cl_edges s i)\<lparr>es_inbox := Some []\<rparr>) s) else None)"
| "cluster_step L (Disconnect i) s =
     (if es_inbox (cl_edges s i) \<noteq> None then Some (set_edge i ((cl_edges s i)\<lparr>es_inbox := None\<rparr>) s) else None)"
| "cluster_step L (Deliver i opens conn) s =
     (case es_inbox (cl_edges s i) of
        Some (d # box) \<Rightarrow>
          Some (set_edge i (loaded (load_tls_config_raw L opens conn (cl_store s)) (Some box)) s)
      | _ \<Rightarrow> None)"

fun cluster_run ::
  "('r, 'c, 'k) cert_lib \<Rightarrow> 'r cluster_event list \<Rightarrow> ('r, 'c, 'k) cluster \<Rightarrow> ('r, 'c, 'k) cluster option" where
  "cluster_run L [] s = Some s"
| "cluster_run L (e # es) s = Option.bind (cluster_step L e s) (cluster_run L es)"

section \<open>What an edge has\<close>

text \<open>An edge is current when its map is the one that loading the store now would give.\<close>

definition current :: "('r, 'c, 'k) cert_lib \<Rightarrow> nat \<Rightarrow> ('r, 'c, 'k) cluster \<Rightarrow> bool" where
  "current L i s \<longleftrightarrow> (\<exists>m. es_certs (cl_edges s i) = Some m \<and> build_tls_config L (cl_store s) = Done m)"

text \<open>Whether some change of the store has not been published yet.\<close>

fun unannounced :: "bool \<Rightarrow> 'r cluster_event list \<Rightarrow> bool" where
  "unannounced b [] = b"
| "unannounced b (StoreWrite r # es) = unannounced True es"
| "unannounced b (Publish d # es) = unannounced False es"
| "unannounced b (e # es) = unannounced b es"

text \<open>What may have to happen before the edge is current: nothing, a message, or a publication.\<close>

definition informed :: "('r, 'c, 'k) cert_lib \<Rightarrow> nat \<Rightarrow> bool \<Rightarrow> ('r, 'c, 'k) cluster \<Rightarrow> bool" where
  "informed L i b s \<longleftrightarrow>
     es_certs (cl_edges s i) = None \<or>
     (\<exists>box. es_inbox (cl_edges s i) = Some box \<and> (box \<noteq> [] \<or> b \<or> current L i s))"

lemma set_edge_sel [simp]:
  "cl_store (set_edge i e s) = cl_store s" "cl_edges (set_edge i e s) = (cl_edges s)(i := e)"
  by (simp_all add: set_edge_def)

lemma loaded_current:
  "current L i (set_edge i (loaded (build_tls_config L (cl_store s)) box) s) \<or>
   es_certs (loaded (build_tls_config L (cl_store s)) box) = None"
  by (auto simp: current_def loaded_def split: outcome.splits)

lemma informed_step:
  assumes "cluster_step L e s = Some s'" and "informed L i b s" and "e \<noteq> Disconnect i" and "e \<noteq> EdgeStart i"
  shows "informed L i (unannounced b [e]) s'"
proof (cases e)
  case (Deliver j opens conn)
  then obtain d box where box: "es_inbox (cl_edges s j) = Some (d # box)"
    using assms(1) by (auto split: option.splits list.splits)
  then have s': "s' = set_edge j (loaded (load_tls_config_raw L opens conn (cl_store s)) (Some box)) s"
    using assms(1) Deliver by simp
  show ?thesis
  proof (cases "j = i")
    case True
    then show ?thesis using Deliver s'
      by (auto simp: informed_def current_def load_tls_config_raw_def loaded_def split: outcome.splits)
  next
    case False
    then show ?thesis using Deliver s' assms(2) by (auto simp: informed_def current_def)
  qed
qed (use assms in \<open>auto simp: informed_def current_def split: if_splits\<close>)

lemma unannounced_append: "unannounced b (as @ bs) = unannounced (unannounced b as) bs"
  by (induction b as rule: unannounced.induct) auto

lemma informed_run:
  assumes "cluster_run L es s = Some s'" and "informed L i b s"
    and "Disconnect i \<notin> set es" and "EdgeStart i \<notin> set es"
  shows "informed L i (unannounced b es) s'"
  using assms
proof (induction es arbitrary: s b)
  case (Cons e es)
  then obtain s1 where "cluster_step L e s = Some s1" "cluster_run L es s1 = Some s'"
    by (auto simp: bind_eq_Some_conv)
  with Cons informed_step [of L e s s1 i b] unannounced_append [of b "[e]" es] show ?case by auto
qed simp

lemma frozen_run:
  assumes "cluster_run L es s = Some s'" and "es_certs (cl_edges s i) = Some m"
    and "\<forall>e\<in>set es. (\<forall>d. e \<noteq> Publish d)" and "es_inbox (cl_edges s i) \<in> {None, Some []}"
  shows "es_certs (cl_edges s' i) = Some m \<and> es_inbox (cl_edges s' i) \<in> {None, Some []}"
  using assms
proof (induction es arbitrary: s)
  case (Cons e es)
  then obtain s1 where s1: "cluster_step L e s = Some s1" "cluster_run L es s1 = Some s'"
    by (auto simp: bind_eq_Some_conv)
  have "es_certs (cl_edges s1 i) = Some m \<and> es_inbox (cl_edges s1 i) \<in> {None, Some []}"
    using s1(1) Cons.prems(2-4) by (cases e) (auto split: if_splits option.splits list.splits)
  with Cons s1 show ?case by auto
qed simp

lemma store_kept:
  assumes "cluster_run L es s = Some s'" and "\<forall>e\<in>set es. \<forall>r. e \<noteq> StoreWrite r"
  shows "cl_store s' = cl_store s"
  using assms
proof (induction es arbitrary: s)
  case (Cons e es)
  then obtain s1 where s1: "cluster_step L e s = Some s1" "cluster_run L es s1 = Some s'"
    by (auto simp: bind_eq_Some_conv)
  have "cl_store s1 = cl_store s"
    using s1(1) Cons.prems(2) by (cases e) (auto split: if_splits option.splits list.splits)
  with Cons s1 show ?case by auto
qed simp

text \<open>Which turns of the message loop a process survives.\<close>

lemma deliver_survives:
  assumes "cluster_step L (Deliver i opens conn) s = Some s'"
  shows "es_certs (cl_edges s' i) \<noteq> None \<longleftrightarrow> opens \<and> conn \<and> (\<exists>m. build_tls_config L (cl_store s) = Done m)"
  using assms
  by (auto simp: loaded_def load_tls_config_raw_def split: option.splits list.splits outcome.splits if_splits)

section \<open>Properties\<close>

text \<open>
  Edges converge. Take an edge that is subscribed and has the certificates of the store, and any
  interleaving of writes, publications, other edges' steps and its own turns in which its connection
  holds. When every write has been followed by a publication and the edge has handled its messages, it
  again has exactly the certificates of the store, unless its process was aborted by a load that panicked.
\<close>

theorem edge_converges:
  assumes "cluster_run L es s = Some s'" and "current L i s" and "es_inbox (cl_edges s i) = Some box"
    and "Disconnect i \<notin> set es" and "EdgeStart i \<notin> set es" and "\<not> unannounced False es"
    and "es_inbox (cl_edges s' i) = Some []" and "es_certs (cl_edges s' i) \<noteq> None"
  shows "current L i s'"
proof -
  have "informed L i False s" using assms(2,3) by (simp add: informed_def)
  from informed_run [OF assms(1) this assms(4,5)] assms(6-8) show ?thesis by (auto simp: informed_def)
qed

definition one_edge :: "(string \<times> string) list \<Rightarrow> (string, string) cert_map \<Rightarrow> string list option \<Rightarrow>
    ((string \<times> string) list, string, string) cluster" where
  "one_edge r m box = \<lparr>cl_store = r, cl_edges = (\<lambda>_. \<lparr>es_certs = Some m, es_inbox = box\<rparr>)\<rparr>"

lemma plain_empty: "build_tls_config plain_certs [] = Done Map.empty"
  by (simp add: build_tls_config_def plain_certs_def unwrap_or_def)

lemma plain_one:
  "build_tls_config plain_certs [(cert_prefix @ ''a'', ''xy'')] = Done [''a'' \<mapsto> ([''xy''], ''y'')]"
  by (simp add: build_tls_config_def plain_certs_def unwrap_or_def load_cert_def strip_prefix_def Let_def)

theorem edge_converges_witness:
  "\<exists>s'. cluster_run plain_certs
      [StoreWrite [(cert_prefix @ ''a'', ''xy'')], Publish ''a'', Deliver 0 True True] (one_edge [] Map.empty (Some [])) = Some s' \<and>
    current plain_certs 0 s'"
proof -
  let ?es = "[StoreWrite [(cert_prefix @ ''a'', ''xy'')], Publish ''a'', Deliver 0 True True]"
  obtain s' where s': "cluster_run plain_certs ?es (one_edge [] Map.empty (Some [])) = Some s'"
    "es_inbox (cl_edges s' 0) = Some []" "es_certs (cl_edges s' 0) \<noteq> None"
    by (simp add: one_edge_def loaded_def load_tls_config_raw_def plain_one)
  have c: "current plain_certs 0 (one_edge [] Map.empty (Some []))"
    by (simp add: current_def one_edge_def plain_empty)
  have b: "es_inbox (cl_edges (one_edge [] Map.empty (Some [])) 0) = Some []" by (simp add: one_edge_def)
  from edge_converges [OF s'(1) c b _ _ _ s'(2,3)] s'(1) show ?thesis by auto
qed

text \<open>
  C17. An update published while an edge is not subscribed is lost. The loop subscribes, again after each
  break, without loading, so an edge whose connection was down, or whose process had loaded its
  certificates and not subscribed yet, keeps the old ones, whatever happens until another name is
  published, although the store has the new ones.
\<close>

theorem update_lost:
  assumes "es_certs (cl_edges s i) = Some m0" and "es_inbox (cl_edges s i) = None"
    and "cluster_run L ([StoreWrite r, Publish d, Subscribe i] @ es) s = Some s'"
    and "\<forall>e\<in>set es. \<forall>d r. e \<noteq> Publish d \<and> e \<noteq> StoreWrite r"
    and "build_tls_config L r = Done m" and "m \<noteq> m0"
  shows "cl_store s' = r \<and> es_certs (cl_edges s' i) = Some m0 \<and> \<not> current L i s'"
proof -
  obtain s1 where s1: "cluster_run L [StoreWrite r, Publish d, Subscribe i] s = Some s1" "cluster_run L es s1 = Some s'"
    using assms(3) by (auto simp: bind_eq_Some_conv)
  have e1: "es_certs (cl_edges s1 i) = Some m0" "es_inbox (cl_edges s1 i) = Some []" "cl_store s1 = r"
    using s1(1) assms(1,2) by (auto split: if_splits)
  have "es_certs (cl_edges s' i) = Some m0"
    using frozen_run [OF s1(2) e1(1)] assms(4) e1(2) by blast
  moreover have "cl_store s' = r" using store_kept [OF s1(2)] assms(4) e1(3) by blast
  ultimately show ?thesis using assms(5,6) by (auto simp: current_def)
qed

theorem update_lost_witness:
  "\<exists>s'. cluster_run plain_certs
      [StoreWrite [(cert_prefix @ ''a'', ''xy'')], Publish ''a'', Subscribe 0] (one_edge [] Map.empty None) = Some s' \<and>
    es_certs (cl_edges s' 0) = Some Map.empty \<and> \<not> current plain_certs 0 s'"
proof -
  let ?r = "[(cert_prefix @ ''a'', ''xy'')]"
  have e: "es_certs (cl_edges (one_edge [] Map.empty None) 0) = Some Map.empty"
    "es_inbox (cl_edges (one_edge [] Map.empty None) 0) = None"
    by (simp_all add: one_edge_def)
  obtain s' where s': "cluster_run plain_certs ([StoreWrite ?r, Publish ''a'', Subscribe 0] @ [])
      (one_edge [] Map.empty None) = Some s'"
    by (simp add: one_edge_def)
  have ne: "[''a'' \<mapsto> ([''xy''], ''y'')] \<noteq> Map.empty" by simp
  from update_lost [OF e s' _ plain_one ne] s' show ?thesis by auto
qed

end
