(* ===== verification/Acme.thy ===== *)
theory Acme
  imports Site_Config "HOL-Library.Multiset" "HOL-Library.Countable"
begin

text \<open>
  The ACME client of \<open>certd/src/acme.rs\<close>: signed requests, account, order, DNS-01 challenges through
  Cloudflare, finalisation, and the stored certificates.

  What the code calls and does not define is a field of \<open>acme_lib\<close>: the network (any function of what
  was sent so far), the JSON reader and writer, Base64, SHA-256, ECDSA, key and CSR generation, the clock.
  Every request and every pause is an event of the trace the client carries, so that an order of effects
  is a statement about one list. An operation returns an error text or a value, with the new client.
\<close>

section \<open>Definitions\<close>

subsection \<open>Values and effects\<close>

datatype json = JNull | JBool bool | JNum int | JStr string | JArr "json list" | JObj "(string \<times> json) list"

fun jget :: "json \<Rightarrow> string \<Rightarrow> json" where
  "jget (JObj kvs) k = unwrap_or JNull (map_of kvs k)"
| "jget v k = JNull"

fun as_str :: "json \<Rightarrow> string option" where
  "as_str (JStr s) = Some s"
| "as_str v = None"

fun as_array :: "json \<Rightarrow> json list option" where
  "as_array (JArr vs) = Some vs"
| "as_array v = None"

fun as_u64 :: "json \<Rightarrow> u64 option" where
  "as_u64 (JNum n) = (if 0 \<le> n \<and> n < 2 ^ 64 then Some (of_int n) else None)"
| "as_u64 v = None"

record http_req =
  rq_method :: string
  rq_url :: string
  rq_headers :: "(string \<times> string) list"
  rq_body :: string

record http_resp =
  rs_status :: nat
  rs_headers :: "(string \<times> string) list"
  rs_body :: "string option"

datatype event = Sent http_req | Sleep nat | Published string

record 'k acme_lib =
  net :: "event list \<Rightarrow> http_req \<Rightarrow> http_resp option"
  hdr_str :: "string \<Rightarrow> string option"
  json_text :: "json \<Rightarrow> string"
  json_parse :: "string \<Rightarrow> json option"
  enc64 :: "string \<Rightarrow> string"
  sha256 :: "string \<Rightarrow> string"
  point_x :: "'k \<Rightarrow> string"
  point_y :: "'k \<Rightarrow> string"
  ecdsa :: "'k \<Rightarrow> string \<Rightarrow> string \<times> string"
  client_ok :: bool
  new_key :: "event list \<Rightarrow> 'k option"
  make_csr :: "string list \<Rightarrow> event list \<Rightarrow> (string \<times> string) option"
  map_order :: "(string \<times> string list) list \<Rightarrow> (string \<times> string list) list"
  clock :: "event list \<Rightarrow> u64 option"

record DirectoryUrls =
  newNonce :: string
  newAccount :: string
  newOrder :: string

record 'k AcmeClient =
  ac_key :: 'k
  ac_directory :: DirectoryUrls
  ac_account_url :: "string option"
  ac_nonce :: string
  ac_thumbprint :: string
  ac_events :: "event list"

type_synonym ('s, 'a) io = "'s \<Rightarrow> (string + 'a) \<times> 's"
type_synonym ('k, 'a) acme = "('k AcmeClient, 'a) io"

text \<open>The \<open>?\<close> operator: an error ends the operation, a value goes on.\<close>

definition ret :: "'a \<Rightarrow> ('s, 'a) io" where "ret a c = (Inr a, c)"
definition fail :: "string \<Rightarrow> ('s, 'a) io" where "fail e c = (Inl e, c)"

definition bind_io :: "('s, 'a) io \<Rightarrow> ('a \<Rightarrow> ('s, 'b) io) \<Rightarrow> ('s, 'b) io" where
  "bind_io m f c = (case m c of (Inl e, c') \<Rightarrow> (Inl e, c') | (Inr a, c') \<Rightarrow> f a c')"

definition ok_or :: "string \<Rightarrow> 'a option \<Rightarrow> ('s, 'a) io" where
  "ok_or e x = (case x of None \<Rightarrow> fail e | Some a \<Rightarrow> ret a)"

definition ignore_err :: "('s, 'a) io \<Rightarrow> ('s, unit) io" where
  "ignore_err m c = (Inr (), snd (m c))"

fun each_io :: "('a \<Rightarrow> ('s, unit) io) \<Rightarrow> 'a list \<Rightarrow> ('s, unit) io" where
  "each_io f [] = ret ()"
| "each_io f (x # xs) = bind_io (f x) (\<lambda>_. each_io f xs)"

definition pause :: "nat \<Rightarrow> ('k, unit) acme" where
  "pause n c = (Inr (), c\<lparr>ac_events := ac_events c @ [Sleep n]\<rparr>)"

definition send_raw :: "'k acme_lib \<Rightarrow> http_req \<Rightarrow> event list \<Rightarrow> (string + http_resp) \<times> event list" where
  "send_raw L q evs =
     (case net L evs q of None \<Rightarrow> Inl ''request failed'' | Some r \<Rightarrow> Inr r, evs @ [Sent q])"

definition send :: "'k acme_lib \<Rightarrow> http_req \<Rightarrow> ('k, http_resp) acme" where
  "send L q c = (case send_raw L q (ac_events c) of (r, evs) \<Rightarrow> (r, c\<lparr>ac_events := evs\<rparr>))"

definition resp_text :: "http_resp \<Rightarrow> ('k, string) acme" where
  "resp_text r = ok_or ''body failed'' (rs_body r)"

definition resp_json :: "'k acme_lib \<Rightarrow> http_resp \<Rightarrow> ('k, json) acme" where
  "resp_json L r = ok_or ''decode failed'' (Option.bind (rs_body r) (json_parse L))"

definition head_req :: "string \<Rightarrow> http_req" where
  "head_req url = \<lparr>rq_method = ''HEAD'', rq_url = url, rq_headers = [], rq_body = []\<rparr>"

definition get_req :: "string \<Rightarrow> (string \<times> string) list \<Rightarrow> http_req" where
  "get_req url hs = \<lparr>rq_method = ''GET'', rq_url = url, rq_headers = hs, rq_body = []\<rparr>"

subsection \<open>Signed requests\<close>

definition jwk_public :: "'k acme_lib \<Rightarrow> 'k \<Rightarrow> json" where
  "jwk_public L k =
     JObj [(''crv'', JStr ''P-256''), (''kty'', JStr ''EC''), (''x'', JStr (enc64 L (point_x L k))),
           (''y'', JStr (enc64 L (point_y L k)))]"

text \<open>\<open>q\<close> is the double quote.\<close>

definition jwk_thumbprint :: "'k acme_lib \<Rightarrow> 'k \<Rightarrow> string" where
  "jwk_thumbprint L k =
     (let jwk = jwk_public L k; q = [CHR 0x22];
          x = unwrap_or [] (as_str (jget jwk ''x'')); y = unwrap_or [] (as_str (jget jwk ''y''));
          canonical = ''{'' @ q @ ''crv'' @ q @ '':'' @ q @ ''P-256'' @ q @ '','' @ q @ ''kty'' @ q @ '':'' @ q @ ''EC'' @ q
            @ '','' @ q @ ''x'' @ q @ '':'' @ q @ x @ q @ '','' @ q @ ''y'' @ q @ '':'' @ q @ y @ q @ ''}''
      in enc64 L (sha256 L canonical))"

definition sign_es256 :: "'k acme_lib \<Rightarrow> 'k \<Rightarrow> string \<Rightarrow> string" where
  "sign_es256 L k input = (case ecdsa L k input of (r, s) \<Rightarrow> enc64 L (r @ s))"

definition jws_header :: "string \<Rightarrow> string \<Rightarrow> json option \<Rightarrow> string option \<Rightarrow> json" where
  "jws_header nonce url jwk kid =
     JObj ([(''alg'', JStr ''ES256'')] @
       (case jwk of
          Some j \<Rightarrow> [(''jwk'', j)]
        | None \<Rightarrow> (case kid of Some k \<Rightarrow> [(''kid'', JStr k)] | None \<Rightarrow> [])) @
       [(''nonce'', JStr nonce), (''url'', JStr url)])"

definition jws_payload ::
  "'k acme_lib \<Rightarrow> 'k \<Rightarrow> string \<Rightarrow> string \<Rightarrow> json option \<Rightarrow> string option \<Rightarrow> string \<Rightarrow> json" where
  "jws_payload L k nonce url jwk kid payload =
     (let protected = enc64 L (json_text L (jws_header nonce url jwk kid));
          payload_b64 = enc64 L payload
      in JObj [(''payload'', JStr payload_b64), (''protected'', JStr protected),
               (''signature'', JStr (sign_es256 L k (protected @ ''.'' @ payload_b64)))])"

definition jose_req :: "'k acme_lib \<Rightarrow> string \<Rightarrow> json \<Rightarrow> http_req" where
  "jose_req L url body_json =
     \<lparr>rq_method = ''POST'', rq_url = url, rq_headers = [(''Content-Type'', ''application/jose+json'')],
      rq_body = json_text L body_json\<rparr>"

definition replay_nonce :: "'k acme_lib \<Rightarrow> http_resp \<Rightarrow> ('k, string) acme" where
  "replay_nonce L r =
     bind_io (ok_or ''missing Replay-Nonce'' (map_of (rs_headers r) ''replay-nonce''))
       (\<lambda>v. ok_or ''not visible ASCII'' (hdr_str L v))"

definition get_nonce :: "'k acme_lib \<Rightarrow> ('k, unit) acme" where
  "get_nonce L c =
     bind_io (send L (head_req (newNonce (ac_directory c))))
       (\<lambda>r. bind_io (replay_nonce L r) (\<lambda>n c'. (Inr (), c'\<lparr>ac_nonce := n\<rparr>))) c"

definition post_jws :: "'k acme_lib \<Rightarrow> string \<Rightarrow> string \<Rightarrow> bool \<Rightarrow> ('k, http_resp) acme" where
  "post_jws L url payload use_jwk =
     bind_io (get_nonce L) (\<lambda>_ c.
       bind_io (send L (jose_req L url
           (jws_payload L (ac_key c) (ac_nonce c) url (if use_jwk then Some (jwk_public L (ac_key c)) else None)
             (ac_account_url c) payload)))
         (\<lambda>r c'. (Inr r,
            case Option.bind (map_of (rs_headers r) ''replay-nonce'') (hdr_str L) of
              Some n \<Rightarrow> c'\<lparr>ac_nonce := n\<rparr>
            | None \<Rightarrow> c')) c)"

definition post_as_get :: "'k acme_lib \<Rightarrow> string \<Rightarrow> ('k, http_resp) acme" where
  "post_as_get L url = post_jws L url [] False"

subsection \<open>Account\<close>

definition LE_DIRECTORY :: string where
  "LE_DIRECTORY = ''https://acme-v02.api.letsencrypt.org/directory''"

definition create_account :: "'k acme_lib \<Rightarrow> string \<Rightarrow> ('k, string) acme" where
  "create_account L email c =
     bind_io (post_jws L (newAccount (ac_directory c))
         (json_text L (JObj [(''contact'', JArr [JStr (''mailto:'' @ email)]), (''termsOfServiceAgreed'', JBool True)])) True)
       (\<lambda>r. bind_io (ok_or ''missing Location header'' (map_of (rs_headers r) ''location''))
         (\<lambda>v. bind_io (ok_or ''not visible ASCII'' (hdr_str L v))
           (\<lambda>loc. if rs_status r = 200 \<or> rs_status r = 201 then ret loc
                   else fail (''account creation failed ('' @ dec (rs_status r) @ ''): '' @ unwrap_or [] (rs_body r))))) c"

definition de_directory :: "json \<Rightarrow> DirectoryUrls option" where
  "de_directory v =
     (case (as_str (jget v ''newNonce''), as_str (jget v ''newAccount''), as_str (jget v ''newOrder'')) of
        (Some n, Some a, Some d) \<Rightarrow> Some \<lparr>newNonce = n, newAccount = a, newOrder = d\<rparr>
      | _ \<Rightarrow> None)"

definition acme_new :: "'k acme_lib \<Rightarrow> string \<Rightarrow> event list \<Rightarrow> (string + 'k AcmeClient) \<times> event list" where
  "acme_new L email evs =
     (if \<not> client_ok L then (Inl ''client builder'', evs)
      else case new_key L evs of
        None \<Rightarrow> (Inl ''key error'', evs)
      | Some k \<Rightarrow>
          (case send_raw L (get_req LE_DIRECTORY []) evs of
             (Inl e, evs1) \<Rightarrow> (Inl e, evs1)
           | (Inr r, evs1) \<Rightarrow>
               (case Option.bind (Option.bind (rs_body r) (json_parse L)) de_directory of
                  None \<Rightarrow> (Inl ''decode failed'', evs1)
                | Some dir \<Rightarrow>
                    (case send_raw L (head_req (newNonce dir)) evs1 of
                       (Inl e, evs2) \<Rightarrow> (Inl e, evs2)
                     | (Inr r2, evs2) \<Rightarrow>
                         (case Option.bind (map_of (rs_headers r2) ''replay-nonce'') (hdr_str L) of
                            None \<Rightarrow> (Inl ''missing Replay-Nonce header'', evs2)
                          | Some n \<Rightarrow>
                              (case create_account L email
                                  \<lparr>ac_key = k, ac_directory = dir, ac_account_url = None, ac_nonce = n,
                                   ac_thumbprint = jwk_thumbprint L k, ac_events = evs2\<rparr> of
                                 (Inl e, c) \<Rightarrow> (Inl e, ac_events c)
                               | (Inr a, c) \<Rightarrow> (Inr (c\<lparr>ac_account_url := Some a\<rparr>), ac_events c)))))))"

subsection \<open>Cloudflare\<close>

text \<open>\<open>rsplitn(3, '.')\<close>: the last label, the one before it, and what is left.\<close>

definition zone_root :: "string \<Rightarrow> string" where
  "zone_root d =
     (let parts = rev (split_on (CHR ''.'') d) in
      if 2 \<le> length parts then parts ! 1 @ ''.'' @ parts ! 0 else d)"

definition bearer :: "string \<Rightarrow> string \<times> string" where
  "bearer api_token = (''Authorization'', ''Bearer '' @ api_token)"

definition resolve_zone_id :: "'k acme_lib \<Rightarrow> string \<Rightarrow> string \<Rightarrow> ('k, string) acme" where
  "resolve_zone_id L api_token d =
     bind_io (send L (get_req (''https://api.cloudflare.com/client/v4/zones?name='' @ zone_root d) [bearer api_token]))
       (\<lambda>r. bind_io (resp_json L r)
         (\<lambda>v. bind_io (ok_or ''no zones found'' (as_array (jget v ''result'')))
           (\<lambda>zones. ok_or ''zone ID not found''
              (case zones of [] \<Rightarrow> None | z # _ \<Rightarrow> as_str (jget z ''id'')))))"

definition challenge_name :: "string \<Rightarrow> string" where
  "challenge_name d = ''_acme-challenge.'' @ d"

definition txt_req :: "'k acme_lib \<Rightarrow> string \<Rightarrow> string \<Rightarrow> string \<Rightarrow> string \<Rightarrow> http_req" where
  "txt_req L api_token url d v =
     \<lparr>rq_method = ''POST'', rq_url = url, rq_headers = [bearer api_token, (''Content-Type'', ''application/json'')],
      rq_body = json_text L (JObj [(''content'', JStr v), (''name'', JStr (challenge_name d)), (''ttl'', JNum 120), (''type'', JStr ''TXT'')])\<rparr>"

definition delete_req :: "string \<Rightarrow> string \<Rightarrow> http_req" where
  "delete_req api_token url = \<lparr>rq_method = ''DELETE'', rq_url = url, rq_headers = [bearer api_token], rq_body = []\<rparr>"

definition record_ids :: "json \<Rightarrow> string list" where
  "record_ids v =
     (case as_array (jget v ''result'') of
        None \<Rightarrow> []
      | Some records \<Rightarrow> List.map_filter (\<lambda>rec. as_str (jget rec ''id'')) records)"

definition delete_txt :: "'k acme_lib \<Rightarrow> string \<Rightarrow> string \<Rightarrow> string \<Rightarrow> ('k, unit) acme" where
  "delete_txt L api_token url d =
     ignore_err
       (bind_io (send L (get_req (url @ ''?type=TXT&name='' @ challenge_name d) [bearer api_token]))
         (\<lambda>r. bind_io (resp_json L r)
           (\<lambda>v. each_io (\<lambda>rid. ignore_err (send L (delete_req api_token (url @ ''/'' @ rid)))) (record_ids v))))"

definition create_txt :: "'k acme_lib \<Rightarrow> string \<Rightarrow> string \<Rightarrow> string \<Rightarrow> string \<Rightarrow> ('k, unit) acme" where
  "create_txt L api_token url d v =
     bind_io (send L (txt_req L api_token url d v))
       (\<lambda>r. if 200 \<le> rs_status r \<and> rs_status r < 300 then ret ()
             else fail (''Cloudflare DNS error: '' @ unwrap_or [] (rs_body r)))"

definition set_cloudflare_txt :: "'k acme_lib \<Rightarrow> string \<Rightarrow> string \<Rightarrow> string list \<Rightarrow> ('k, unit) acme" where
  "set_cloudflare_txt L api_token d values =
     bind_io (resolve_zone_id L api_token d)
       (\<lambda>zone_id.
          let url = ''https://api.cloudflare.com/client/v4/zones/'' @ zone_id @ ''/dns_records'' in
          bind_io (delete_txt L api_token url d) (\<lambda>_. each_io (create_txt L api_token url d) values))"

subsection \<open>Issuing a certificate\<close>

record ChallengeInfo =
  dns_name :: string
  txt_value :: string
  challenge_url :: string
  auth_domain :: string

text \<open>\<open>txt_per_dns.entry(n).or_default().push(v)\<close>, on an association list.\<close>

fun push_txt :: "string \<Rightarrow> string \<Rightarrow> (string \<times> string list) list \<Rightarrow> (string \<times> string list) list" where
  "push_txt n v [] = [(n, [v])]"
| "push_txt n v ((m, vs) # es) = (if m = n then (m, vs @ [v]) # es else (m, vs) # push_txt n v es)"

definition is_dns01 :: "json \<Rightarrow> bool" where
  "is_dns01 ch = (as_str (jget ch ''type'') = Some ''dns-01'')"

definition read_challenge :: "'k acme_lib \<Rightarrow> json \<Rightarrow> ('k, ChallengeInfo) acme" where
  "read_challenge L auth c =
     (let d = unwrap_or ''unknown'' (as_str (jget (jget auth ''identifier'') ''value'')) in
      bind_io (ok_or ''no challenges'' (as_array (jget auth ''challenges'')))
        (\<lambda>chs. bind_io (ok_or ''no dns-01 challenge'' (find is_dns01 chs))
          (\<lambda>ch. bind_io (ok_or ''no token'' (as_str (jget ch ''token'')))
            (\<lambda>token. bind_io (ok_or ''no challenge url'' (as_str (jget ch ''url'')))
              (\<lambda>url. ret \<lparr>dns_name = unwrap_or d (strip_prefix ''*.'' d),
                          txt_value = enc64 L (sha256 L (token @ ''.'' @ ac_thumbprint c)),
                          challenge_url = url, auth_domain = d\<rparr>)))) c)"

fun collect_auths ::
  "'k acme_lib \<Rightarrow> string list \<Rightarrow> ChallengeInfo list \<Rightarrow> (string \<times> string list) list \<Rightarrow>
   ('k, ChallengeInfo list \<times> (string \<times> string list) list) acme" where
  "collect_auths L [] challenges txt = ret (challenges, txt)"
| "collect_auths L (u # us) challenges txt =
     bind_io (post_as_get L u)
       (\<lambda>r. bind_io (resp_json L r)
         (\<lambda>auth. bind_io (read_challenge L auth)
           (\<lambda>ch. collect_auths L us (challenges @ [ch]) (push_txt (dns_name ch) (txt_value ch) txt))))"

definition respond :: "'k acme_lib \<Rightarrow> ChallengeInfo \<Rightarrow> ('k, unit) acme" where
  "respond L ch = bind_io (post_jws L (challenge_url ch) ''{}'' False) (\<lambda>_. ret ())"

fun poll_order :: "'k acme_lib \<Rightarrow> string \<Rightarrow> nat \<Rightarrow> ('k, unit) acme" where
  "poll_order L order_url 0 = ret ()"
| "poll_order L order_url (Suc n) =
     bind_io (post_as_get L order_url)
       (\<lambda>r. bind_io (resp_json L r)
         (\<lambda>st. let state = unwrap_or [] (as_str (jget st ''status'')) in
            if state = ''ready'' \<or> state = ''valid'' then ret ()
            else if state = ''invalid'' then fail (''order invalid: '' @ json_text L st)
            else bind_io (pause 5) (\<lambda>_. poll_order L order_url n)))"

fun poll_cert :: "'k acme_lib \<Rightarrow> string \<Rightarrow> string \<Rightarrow> nat \<Rightarrow> ('k, string \<times> string) acme" where
  "poll_cert L cert_url kpem 0 = fail ''certificate not ready after 150s''"
| "poll_cert L cert_url kpem (Suc n) =
     bind_io (post_as_get L cert_url)
       (\<lambda>r. if rs_status r = 200 then bind_io (resp_text r) (\<lambda>cpem. ret (cpem, kpem))
             else bind_io (pause 5) (\<lambda>_. poll_cert L cert_url kpem n))"

definition new_order :: "'k acme_lib \<Rightarrow> string list \<Rightarrow> ('k, string \<times> string \<times> string list) acme" where
  "new_order L ds c =
     bind_io (post_jws L (newOrder (ac_directory c))
         (json_text L (JObj [(''identifiers'', JArr (map (\<lambda>d. JObj [(''type'', JStr ''dns''), (''value'', JStr d)]) ds))])) False)
       (\<lambda>r. let order_url = unwrap_or [] (Option.bind (map_of (rs_headers r) ''location'') (hdr_str L)) in
         bind_io (resp_json L r)
         (\<lambda>order. bind_io (ok_or ''no finalize URL'' (as_str (jget order ''finalize'')))
           (\<lambda>finalize_url. bind_io (ok_or ''no authorizations'' (as_array (jget order ''authorizations'')))
             (\<lambda>auths. ret (order_url, finalize_url, List.map_filter as_str auths))))) c"

definition finalize :: "'k acme_lib \<Rightarrow> string list \<Rightarrow> string \<Rightarrow> ('k, string \<times> string) acme" where
  "finalize L ds finalize_url c =
     bind_io (ok_or ''CSR failed'' (make_csr L ds (ac_events c)))
       (\<lambda>(csr_der, kpem).
         bind_io (post_jws L finalize_url (json_text L (JObj [(''csr'', JStr (enc64 L csr_der))])) False)
           (\<lambda>r. bind_io (resp_text r)
             (\<lambda>t. bind_io (ok_or (''invalid JSON: '' @ t) (json_parse L t))
               (\<lambda>v. bind_io (ok_or (''no certificate URL: '' @ t) (as_str (jget v ''certificate'')))
                 (\<lambda>cert_url. ret (cert_url, kpem)))))) c"

definition issue_cert :: "'k acme_lib \<Rightarrow> string \<Rightarrow> string list \<Rightarrow> ('k, string \<times> string) acme" where
  "issue_cert L api_token ds =
     bind_io (new_order L ds) (\<lambda>(order_url, finalize_url, auth_urls).
     bind_io (collect_auths L auth_urls [] []) (\<lambda>(challenges, txt_per_dns).
     bind_io (each_io (\<lambda>(n, vs). set_cloudflare_txt L api_token n vs) (map_order L txt_per_dns)) (\<lambda>_.
     bind_io (pause 30) (\<lambda>_.
     bind_io (each_io (respond L) challenges) (\<lambda>_.
     bind_io (poll_order L order_url 30) (\<lambda>_.
     bind_io (finalize L ds finalize_url) (\<lambda>(cert_url, kpem).
     poll_cert L cert_url kpem 30)))))))"

section \<open>What an operation adds to the trace\<close>

text \<open>The identity of a client: everything but its nonce and its trace.\<close>

definition same_client :: "'k AcmeClient \<Rightarrow> 'k AcmeClient \<Rightarrow> bool" where
  "same_client c c' \<longleftrightarrow> ac_key c' = ac_key c \<and> ac_directory c' = ac_directory c \<and>
     ac_account_url c' = ac_account_url c \<and> ac_thumbprint c' = ac_thumbprint c"

lemma same_client_trans: "same_client a b \<Longrightarrow> same_client b c \<Longrightarrow> same_client a c"
  and same_client_refl [simp]: "same_client c c"
  by (auto simp: same_client_def)

text \<open>
  \<open>adds P m\<close>: the operation only appends to the trace, a segment with property \<open>P\<close> for the client's
  directory, whatever its result, and keeps the client's identity.
\<close>

definition adds :: "(DirectoryUrls \<Rightarrow> event list \<Rightarrow> bool) \<Rightarrow> ('k, 'a) acme \<Rightarrow> bool" where
  "adds P m \<longleftrightarrow>
     (\<forall>c r c'. m c = (r, c') \<longrightarrow>
        same_client c c' \<and> (\<exists>es. ac_events c' = ac_events c @ es \<and> P (ac_directory c) es))"

lemma addsI:
  "(\<And>c r c'. m c = (r, c') \<Longrightarrow> same_client c c' \<and> (\<exists>es. ac_events c' = ac_events c @ es \<and> P (ac_directory c) es))
   \<Longrightarrow> adds P m"
  by (auto simp: adds_def)

text \<open>A signed request: a fresh nonce first, then the request that carries it.\<close>

definition jws_req :: "'k acme_lib \<Rightarrow> 'k AcmeClient \<Rightarrow> string \<Rightarrow> string \<Rightarrow> string \<Rightarrow> bool \<Rightarrow> http_req" where
  "jws_req L c nonce url payload use_jwk =
     jose_req L url (jws_payload L (ac_key c) nonce url (if use_jwk then Some (jwk_public L (ac_key c)) else None)
       (ac_account_url c) payload)"

definition nonce_reply :: "'k acme_lib \<Rightarrow> 'k AcmeClient \<Rightarrow> string option" where
  "nonce_reply L c =
     Option.bind (net L (ac_events c) (head_req (newNonce (ac_directory c))))
       (\<lambda>r. Option.bind (map_of (rs_headers r) ''replay-nonce'') (hdr_str L))"

lemma get_nonce_eq:
  "\<exists>e. get_nonce L c =
     (case nonce_reply L c of
        None \<Rightarrow> (Inl e, c\<lparr>ac_events := ac_events c @ [Sent (head_req (newNonce (ac_directory c)))]\<rparr>)
      | Some n \<Rightarrow> (Inr (), c\<lparr>ac_events := ac_events c @ [Sent (head_req (newNonce (ac_directory c)))], ac_nonce := n\<rparr>))"
  by (auto simp: get_nonce_def nonce_reply_def bind_io_def send_def send_raw_def replay_nonce_def ok_or_def
      ret_def fail_def split: option.splits)

lemma post_jws_cases:
  assumes "post_jws L url payload uj c = (r, c')"
  obtains (no_nonce) e where "nonce_reply L c = None" "r = Inl e" "same_client c c'"
      "ac_events c' = ac_events c @ [Sent (head_req (newNonce (ac_directory c)))]"
    | (sent) n where "nonce_reply L c = Some n" "same_client c c'"
      "ac_events c' = ac_events c @ [Sent (head_req (newNonce (ac_directory c))), Sent (jws_req L c n url payload uj)]"
      "r = (case net L (ac_events c @ [Sent (head_req (newNonce (ac_directory c)))]) (jws_req L c n url payload uj) of
              None \<Rightarrow> Inl ''request failed'' | Some x \<Rightarrow> Inr x)"
proof (cases "nonce_reply L c")
  case None
  then obtain e where "get_nonce L c = (Inl e, c\<lparr>ac_events := ac_events c @ [Sent (head_req (newNonce (ac_directory c)))]\<rparr>)"
    using get_nonce_eq [of L c] by auto
  with assms None show ?thesis by (intro no_nonce) (auto simp: post_jws_def bind_io_def same_client_def)
next
  case (Some n)
  then have "get_nonce L c = (Inr (), c\<lparr>ac_events := ac_events c @ [Sent (head_req (newNonce (ac_directory c)))], ac_nonce := n\<rparr>)"
    using get_nonce_eq [of L c] by auto
  with assms Some show ?thesis
    by (cases uj; intro sent [of n])
      (auto simp: post_jws_def bind_io_def send_def send_raw_def jws_req_def same_client_def split: option.splits)
qed

text \<open>A property of segments that survives concatenation holds of every composed operation.\<close>

locale trace_property =
  fixes P :: "DirectoryUrls \<Rightarrow> event list \<Rightarrow> bool"
  assumes P_Nil: "P d []"
    and P_append: "P d es \<Longrightarrow> P d fs \<Longrightarrow> P d (es @ fs)"
    and P_plain: "rq_headers q \<noteq> [(''Content-Type'', ''application/jose+json'')] \<Longrightarrow> P d [Sent q]"
    and P_signed: "rq_headers q = [(''Content-Type'', ''application/jose+json'')] \<Longrightarrow> P d [Sent (head_req (newNonce d)), Sent q]"
begin

lemma adds_ret: "adds P (ret a)" and adds_fail: "adds P (fail e)"
  using P_Nil by (auto simp: adds_def ret_def fail_def)

lemma adds_ok_or: "adds P (ok_or e x)"
  by (simp add: ok_or_def adds_ret adds_fail split: option.split)

lemma adds_bind:
  assumes "adds P m" and "\<And>a. adds P (f a)"
  shows "adds P (bind_io m f)"
proof (rule addsI)
  fix c r c'
  assume b: "bind_io m f c = (r, c')"
  obtain x c1 where m: "m c = (x, c1)" by fastforce
  from assms(1) m obtain es where es: "same_client c c1" "ac_events c1 = ac_events c @ es" "P (ac_directory c) es"
    unfolding adds_def by blast
  show "same_client c c' \<and> (\<exists>es. ac_events c' = ac_events c @ es \<and> P (ac_directory c) es)"
  proof (cases x)
    case (Inl e)
    with b m es show ?thesis by (auto simp: bind_io_def)
  next
    case (Inr a)
    with b m have "f a c1 = (r, c')" by (simp add: bind_io_def)
    with assms(2) obtain fs where fs: "same_client c1 c'" "ac_events c' = ac_events c1 @ fs" "P (ac_directory c1) fs"
      unfolding adds_def by blast
    then have "P (ac_directory c) (es @ fs)" using es P_append by (simp add: same_client_def)
    with es fs same_client_trans show ?thesis by fastforce
  qed
qed

lemma adds_state: "(\<And>c. adds P (f c)) \<Longrightarrow> adds P (\<lambda>c. f c c)"
  unfolding adds_def by blast

lemma adds_ignore: "adds P m \<Longrightarrow> adds P (ignore_err m)"
  unfolding adds_def ignore_err_def by (metis prod.collapse snd_conv)

lemma adds_each: "(\<And>x. adds P (f x)) \<Longrightarrow> adds P (each_io f xs)"
  by (induction xs) (simp_all add: adds_ret adds_bind)

lemma adds_send: "rq_headers q \<noteq> [(''Content-Type'', ''application/jose+json'')] \<Longrightarrow> adds P (send L q)"
  using P_plain by (auto simp: adds_def send_def send_raw_def same_client_def)

lemma adds_post_jws: "adds P (post_jws L url payload use_jwk)"
proof (rule addsI)
  fix c r c'
  assume "post_jws L url payload use_jwk c = (r, c')"
  then show "same_client c c' \<and> (\<exists>es. ac_events c' = ac_events c @ es \<and> P (ac_directory c) es)"
  proof (cases rule: post_jws_cases)
    case no_nonce
    then show ?thesis using P_plain [of "head_req (newNonce (ac_directory c))"] by (simp add: head_req_def)
  next
    case (sent n)
    then show ?thesis using P_signed [of "jws_req L c n url payload use_jwk"] by (simp add: jws_req_def jose_req_def)
  qed
qed

lemmas adds_intros = adds_ret adds_fail adds_ok_or adds_bind adds_ignore adds_each adds_post_jws

lemma adds_resp: "adds P (resp_text r)" "adds P (resp_json L r)"
  by (simp_all add: resp_text_def resp_json_def adds_ok_or)

lemma adds_cloudflare: "adds P (set_cloudflare_txt L tok d vs)"
proof -
  have plain: "adds P (send L (get_req u [bearer t]))" "adds P (send L (delete_req t u))"
    "adds P (send L (txt_req L t u n v))" for u t n v
    by (intro adds_send; simp add: get_req_def delete_req_def txt_req_def bearer_def)+
  have "adds P (resolve_zone_id L tok d)"
    unfolding resolve_zone_id_def by (intro adds_intros adds_resp plain)
  moreover have "adds P (delete_txt L tok u d)" for u
    unfolding delete_txt_def by (intro adds_intros adds_resp plain)
  moreover have "adds P (create_txt L tok u d v)" for u v
    unfolding create_txt_def by (auto intro!: adds_intros plain)
  ultimately show ?thesis
    unfolding set_cloudflare_txt_def Let_def by (intro adds_intros)
qed

lemma adds_read_challenge: "adds P (read_challenge L auth)"
  unfolding read_challenge_def Let_def by (rule adds_state) (intro adds_intros)

lemma adds_collect: "adds P (collect_auths L us chs tm)"
  by (induction L us chs tm rule: collect_auths.induct)
    (simp_all add: adds_ret adds_bind adds_post_jws adds_resp adds_read_challenge post_as_get_def)

lemma adds_order: "adds P (new_order L ds)"
  unfolding new_order_def Let_def by (rule adds_state) (intro adds_intros adds_resp)

lemma adds_finalize: "adds P (finalize L ds u)"
  unfolding finalize_def by (rule adds_state) (auto intro!: adds_intros adds_resp)

lemma adds_respond: "adds P (respond L ch)"
  unfolding respond_def by (intro adds_intros)

end

text \<open>Operations that also pause: the two polling loops and the issuance.\<close>

locale timed_trace_property = trace_property +
  assumes P_pause: "P d [Sleep n]"
begin

lemma adds_pause: "adds P (pause n)"
  using P_pause by (auto simp: adds_def pause_def same_client_def)

lemma adds_polls: "adds P (poll_order L u n)" "adds P (poll_cert L u k n)"
  by (induction n) (auto simp: post_as_get_def Let_def intro!: adds_intros adds_resp adds_pause)

lemma adds_issue_cert: "adds P (issue_cert L tok ds)"
  unfolding issue_cert_def
  by (auto intro!: adds_intros adds_order adds_collect adds_cloudflare adds_respond adds_polls adds_finalize adds_pause)

end

section \<open>Nonces and pauses\<close>

definition is_signed :: "event \<Rightarrow> bool" where
  "is_signed e \<longleftrightarrow> (case e of Sent q \<Rightarrow> rq_headers q = [(''Content-Type'', ''application/jose+json'')] | _ \<Rightarrow> False)"

definition nonce_ok :: "DirectoryUrls \<Rightarrow> event list \<Rightarrow> bool" where
  "nonce_ok d es \<longleftrightarrow> (\<forall>i<length es. is_signed (es ! i) \<longrightarrow> 0 < i \<and> es ! (i - 1) = Sent (head_req (newNonce d)))"

lemma nonce_ok_append:
  assumes "nonce_ok d es" and "nonce_ok d fs"
  shows "nonce_ok d (es @ fs)"
  unfolding nonce_ok_def
proof (intro allI impI)
  fix i
  assume i: "i < length (es @ fs)" "is_signed ((es @ fs) ! i)"
  show "0 < i \<and> (es @ fs) ! (i - 1) = Sent (head_req (newNonce d))"
  proof (cases "i < length es")
    case True
    with i assms(1) have "0 < i \<and> es ! (i - 1) = Sent (head_req (newNonce d))"
      by (simp add: nonce_ok_def nth_append)
    with True show ?thesis by (simp add: nth_append less_imp_diff_less)
  next
    case False
    let ?j = "i - length es"
    have "?j < length fs" "is_signed (fs ! ?j)" using i False by (auto simp: nth_append)
    with assms(2) have "0 < ?j \<and> fs ! (?j - 1) = Sent (head_req (newNonce d))"
      unfolding nonce_ok_def by blast
    with False show ?thesis by (auto simp: nth_append)
  qed
qed

interpretation fresh: timed_trace_property nonce_ok
proof
  show "nonce_ok d es \<Longrightarrow> nonce_ok d fs \<Longrightarrow> nonce_ok d (es @ fs)" for d es fs by (rule nonce_ok_append)
qed (auto simp: nonce_ok_def is_signed_def head_req_def less_Suc_eq_0_disj)

text \<open>\<open>slept\<close>: the seconds an operation pauses in all.\<close>

fun slept :: "event list \<Rightarrow> nat" where
  "slept [] = 0"
| "slept (Sleep n # es) = n + slept es"
| "slept (e # es) = slept es"

lemma slept_append [simp]: "slept (es @ fs) = slept es + slept fs"
  by (induction es rule: slept.induct) auto

interpretation awake: trace_property "\<lambda>d es. slept es = 0"
  by unfold_locales auto

definition pauses :: "nat \<Rightarrow> ('k, 'a) acme \<Rightarrow> bool" where
  "pauses b m \<longleftrightarrow> adds (\<lambda>d es. slept es \<le> b) m"

lemma pauses_awake: "adds (\<lambda>d es. slept es = 0) m \<Longrightarrow> pauses b m"
  unfolding pauses_def adds_def by fastforce

lemma pauses_mono: "pauses a m \<Longrightarrow> a \<le> b \<Longrightarrow> pauses b m"
  unfolding pauses_def adds_def by (meson le_trans)

lemma pauses_bind:
  assumes "pauses a m" and "\<And>x. pauses b (f x)"
  shows "pauses (a + b) (bind_io m f)"
  unfolding pauses_def
proof (rule addsI)
  fix c r c'
  assume e: "bind_io m f c = (r, c')"
  obtain x c1 where m: "m c = (x, c1)" by fastforce
  with assms(1) obtain es where es: "same_client c c1" "ac_events c1 = ac_events c @ es" "slept es \<le> a"
    unfolding pauses_def adds_def by blast
  show "same_client c c' \<and> (\<exists>es. ac_events c' = ac_events c @ es \<and> slept es \<le> a + b)"
  proof (cases x)
    case (Inl err)
    with e m es show ?thesis by (auto simp: bind_io_def)
  next
    case (Inr v)
    with e m have "f v c1 = (r, c')" by (simp add: bind_io_def)
    with assms(2) obtain fs where fs: "same_client c1 c'" "ac_events c' = ac_events c1 @ fs" "slept fs \<le> b"
      unfolding pauses_def adds_def by blast
    with es same_client_trans show ?thesis by (intro conjI exI [of _ "es @ fs"]) auto
  qed
qed

lemma pauses_bind_awake:
  "adds (\<lambda>d es. slept es = 0) m \<Longrightarrow> (\<And>x. pauses b (f x)) \<Longrightarrow> pauses b (bind_io m f)"
  using pauses_bind [of 0 m b f] pauses_awake [of m 0] by simp

lemma pauses_pause: "pauses n (pause n)"
  by (auto simp: pauses_def adds_def pause_def same_client_def)

lemma pauses_poll_order: "pauses (5 * n) (poll_order L u n)"
proof (induction n)
  case (Suc n)
  have "pauses (5 + 5 * n) (bind_io (pause 5) (\<lambda>_. poll_order L u n))"
    by (rule pauses_bind [OF pauses_pause Suc])
  then show ?case
    unfolding poll_order.simps Let_def mult_Suc_right post_as_get_def
    by (intro pauses_bind_awake awake.adds_post_jws awake.adds_resp)
      (auto intro: pauses_awake awake.adds_ret awake.adds_fail)
qed (simp add: pauses_awake awake.adds_ret)

lemma pauses_poll_cert: "pauses (5 * n) (poll_cert L u k n)"
proof (induction n)
  case (Suc n)
  have "pauses (5 + 5 * n) (bind_io (pause 5) (\<lambda>_. poll_cert L u k n))"
    by (rule pauses_bind [OF pauses_pause Suc])
  then show ?case
    unfolding poll_cert.simps mult_Suc_right post_as_get_def
    by (intro pauses_bind_awake awake.adds_post_jws)
      (auto intro!: pauses_awake awake.adds_bind awake.adds_resp awake.adds_ret)
qed (simp add: pauses_awake awake.adds_fail)

lemma pauses_issue_cert: "pauses 330 (issue_cert L tok ds)"
proof -
  let ?fin = "\<lambda>f. bind_io (finalize L ds f) (\<lambda>(cert_url, kpem). poll_cert L cert_url kpem 30)"
  let ?tail = "\<lambda>u f chs. bind_io (pause 30) (\<lambda>_. bind_io (each_io (respond L) chs) (\<lambda>_.
      bind_io (poll_order L u 30) (\<lambda>_. ?fin f)))"
  have fin: "pauses 150 (?fin f)" for f
    by (rule pauses_bind_awake [OF awake.adds_finalize])
      (use pauses_poll_cert [of 30 L] in \<open>simp split: prod.split\<close>)
  have order: "pauses (150 + 150) (bind_io (poll_order L u 30) (\<lambda>_. ?fin f))" for u f
    by (rule pauses_bind [OF _ fin]) (use pauses_poll_order [of 30 L u] in simp)
  have tail: "pauses (30 + 300) (?tail u f chs)" for u f chs
    by (rule pauses_bind [OF pauses_pause], rule pauses_bind_awake)
      (use order in \<open>simp_all add: awake.adds_each awake.adds_respond\<close>)
  have dns: "pauses 330 (bind_io (each_io (\<lambda>(n, vs). set_cloudflare_txt L tok n vs) xs) (\<lambda>_. ?tail u f chs))" for xs u f chs
    by (rule pauses_bind_awake [OF awake.adds_each])
      (use tail in \<open>simp_all add: awake.adds_cloudflare split: prod.split\<close>)
  have "pauses 330 (bind_io (collect_auths L us [] []) (\<lambda>(chs, tm).
      bind_io (each_io (\<lambda>(n, vs). set_cloudflare_txt L tok n vs) (map_order L tm)) (\<lambda>_. ?tail u f chs)))" for us u f
    by (rule pauses_bind_awake [OF awake.adds_collect]) (use dns in \<open>simp split: prod.split\<close>)
  then show ?thesis
    unfolding issue_cert_def by (intro pauses_bind_awake [OF awake.adds_order]) (simp split: prod.split)
qed

section \<open>A successful issuance\<close>

interpretation grows: timed_trace_property "\<lambda>d es. True"
  by unfold_locales auto

definition later :: "'k AcmeClient \<Rightarrow> 'k AcmeClient \<Rightarrow> bool" where
  "later c c' \<longleftrightarrow> same_client c c' \<and> prefix (ac_events c) (ac_events c')"

lemma later_refl [simp]: "later c c" and later_trans: "later a b \<Longrightarrow> later b c \<Longrightarrow> later a c"
  by (auto simp: later_def dest: same_client_trans)

lemma adds_later: "adds (\<lambda>d es. True) m \<Longrightarrow> m c = (r, c') \<Longrightarrow> later c c'"
  unfolding adds_def later_def by (fastforce simp: prefix_def)

lemma bind_io_Inr:
  "bind_io m f c = (Inr b, c') \<longleftrightarrow> (\<exists>a c1. m c = (Inr a, c1) \<and> f a c1 = (Inr b, c'))"
  by (auto simp: bind_io_def split: prod.splits sum.splits)

lemma ok_or_Inr [simp]: "ok_or e x c = (Inr a, c') \<longleftrightarrow> x = Some a \<and> c' = c"
  by (auto simp: ok_or_def fail_def ret_def split: option.splits)

lemma ret_Inr [simp]: "ret a c = (Inr b, c') \<longleftrightarrow> a = b \<and> c' = c"
  by (auto simp: ret_def)

lemma fail_Inr [simp]: "fail e c = (Inr b, c') \<longleftrightarrow> False"
  by (simp add: fail_def)

text \<open>A loop of a successful run: each element was handled, between the start and the end.\<close>

lemma each_io_Inr:
  assumes "each_io f xs c = (Inr u, c')" and "\<And>x. adds (\<lambda>d es. True) (f x)" and "x \<in> set xs"
  shows "\<exists>c1 c2. later c c1 \<and> f x c1 = (Inr (), c2) \<and> later c2 c'"
  using assms(1,3)
proof (induction xs arbitrary: c)
  case (Cons y ys)
  then obtain c1 where y: "f y c = (Inr (), c1)" "each_io f ys c1 = (Inr u, c')"
    by (auto simp: bind_io_Inr)
  have l: "later c c1" "later c1 c'"
    using adds_later [OF assms(2) y(1)] adds_later [OF grows.adds_each y(2)] assms(2) by auto
  show ?case
  proof (cases "x = y")
    case True
    then show ?thesis using y(1) l by (intro exI [of _ c] exI [of _ c1]) simp
  next
    case False
    then show ?thesis using Cons.IH [OF y(2)] Cons.prems(2) l later_trans by fastforce
  qed
qed simp

text \<open>A TXT record the provider has confirmed at some point of the trace.\<close>

definition confirmed :: "'k acme_lib \<Rightarrow> string \<Rightarrow> event list \<Rightarrow> string \<Rightarrow> string \<Rightarrow> bool" where
  "confirmed L tok evs d v \<longleftrightarrow>
     (\<exists>url a b r. evs = a @ Sent (txt_req L tok url d v) # b \<and> net L a (txt_req L tok url d v) = Some r \<and>
        200 \<le> rs_status r \<and> rs_status r < 300)"

lemma confirmed_prefix: "confirmed L tok evs d v \<Longrightarrow> prefix evs evs' \<Longrightarrow> confirmed L tok evs' d v"
  unfolding confirmed_def by (auto simp: prefix_def) (metis append_Cons append_assoc)

lemma create_txt_confirmed:
  assumes "create_txt L tok url d v c = (Inr u, c')"
  shows "confirmed L tok (ac_events c') d v"
proof -
  obtain r where "net L (ac_events c) (txt_req L tok url d v) = Some r" "200 \<le> rs_status r" "rs_status r < 300"
    "ac_events c' = ac_events c @ [Sent (txt_req L tok url d v)]"
    using assms by (auto simp: create_txt_def bind_io_Inr send_def send_raw_def split: option.splits if_splits)
  then show ?thesis unfolding confirmed_def by blast
qed

lemma adds_create_txt: "adds (\<lambda>d es. True) (create_txt L tok url d v)"
  unfolding create_txt_def
  by (auto intro!: grows.adds_intros grows.adds_send simp: txt_req_def bearer_def)

lemma set_cloudflare_confirmed:
  assumes "set_cloudflare_txt L tok d vs c = (Inr u, c')" and "v \<in> set vs"
  shows "confirmed L tok (ac_events c') d v"
proof -
  obtain url c1 where e: "each_io (create_txt L tok url d) vs c1 = (Inr u, c')"
    using assms(1) by (auto simp: set_cloudflare_txt_def bind_io_Inr Let_def)
  from each_io_Inr [OF e adds_create_txt assms(2)] obtain c2 c3 where
    "create_txt L tok url d v c2 = (Inr (), c3)" "later c3 c'" by blast
  with create_txt_confirmed confirmed_prefix show ?thesis unfolding later_def by blast
qed

text \<open>The values per name are those of its challenges, in order.\<close>

definition values_of :: "ChallengeInfo list \<Rightarrow> string \<Rightarrow> string list" where
  "values_of chs n = map txt_value (filter (\<lambda>ch. dns_name ch = n) chs)"

definition txt_map_ok :: "ChallengeInfo list \<Rightarrow> (string \<times> string list) list \<Rightarrow> bool" where
  "txt_map_ok chs tm \<longleftrightarrow> distinct (map fst tm) \<and>
     (\<forall>n. map_of tm n = (if values_of chs n = [] then None else Some (values_of chs n)))"

lemma push_txt_fst: "fst ` set (push_txt n v tm) = insert n (fst ` set tm)"
  by (induction n v tm rule: push_txt.induct) auto

lemma push_txt_distinct: "distinct (map fst tm) \<Longrightarrow> distinct (map fst (push_txt n v tm))"
  by (induction n v tm rule: push_txt.induct) (auto simp: push_txt_fst)

lemma push_txt_map_of:
  "map_of (push_txt n v tm) m = (if m = n then Some (unwrap_or [] (map_of tm n) @ [v]) else map_of tm m)"
  by (induction n v tm rule: push_txt.induct) (auto simp: unwrap_or_def)

lemma txt_map_ok_push:
  "txt_map_ok chs tm \<Longrightarrow> txt_map_ok (chs @ [ch]) (push_txt (dns_name ch) (txt_value ch) tm)"
  unfolding txt_map_ok_def
  by (auto simp: push_txt_distinct push_txt_map_of values_of_def unwrap_or_def split: if_splits)

definition proof_of :: "'k acme_lib \<Rightarrow> string \<Rightarrow> ChallengeInfo \<Rightarrow> bool" where
  "proof_of L thumb ch \<longleftrightarrow> (\<exists>token. txt_value ch = enc64 L (sha256 L (token @ ''.'' @ thumb)))"

lemma read_challenge_proof:
  "read_challenge L auth c = (Inr ch, c') \<Longrightarrow> proof_of L (ac_thumbprint c) ch \<and> c' = c"
  by (auto simp: read_challenge_def bind_io_Inr proof_of_def Let_def)

lemma collect_auths_ok:
  "collect_auths L us chs tm c = (Inr (chs', tm'), c') \<Longrightarrow> txt_map_ok chs tm \<Longrightarrow>
   list_all (proof_of L (ac_thumbprint c)) chs \<Longrightarrow>
   txt_map_ok chs' tm' \<and> list_all (proof_of L (ac_thumbprint c)) chs' \<and> length chs' = length chs + length us"
proof (induction us arbitrary: chs tm c)
  case (Cons u us)
  from Cons.prems(1) obtain r c1 auth ch where s: "post_as_get L u c = (Inr r, c1)"
    "read_challenge L auth c1 = (Inr ch, c1)"
    "collect_auths L us (chs @ [ch]) (push_txt (dns_name ch) (txt_value ch) tm) c1 = (Inr (chs', tm'), c')"
    using read_challenge_proof by (fastforce simp: bind_io_Inr resp_json_def)
  have "ac_thumbprint c1 = ac_thumbprint c"
    using adds_later [OF grows.adds_post_jws s(1) [unfolded post_as_get_def]] by (simp add: later_def same_client_def)
  with Cons.IH [OF s(3) txt_map_ok_push [OF Cons.prems(2)]] Cons.prems(3) read_challenge_proof [OF s(2)]
  show ?case by simp
qed simp

definition answered :: "'k acme_lib \<Rightarrow> event list \<Rightarrow> ChallengeInfo \<Rightarrow> bool" where
  "answered L evs ch \<longleftrightarrow> (\<exists>c n. Sent (jws_req L c n (challenge_url ch) ''{}'' False) \<in> set evs)"

lemma answered_mono: "answered L es ch \<Longrightarrow> set es \<subseteq> set fs \<Longrightarrow> answered L fs ch"
  unfolding answered_def by blast

lemma respond_answered:
  assumes "respond L ch c = (Inr u, c')"
  shows "\<exists>es. ac_events c' = ac_events c @ es \<and> answered L es ch"
proof -
  obtain r where "post_jws L (challenge_url ch) ''{}'' False c = (Inr r, c')"
    using assms by (auto simp: respond_def bind_io_Inr)
  then show ?thesis by (cases rule: post_jws_cases) (auto simp: answered_def)
qed

lemma respond_all_answered:
  assumes "each_io (respond L) chs c = (Inr u, c')"
  shows "\<exists>es. ac_events c' = ac_events c @ es \<and> (\<forall>ch \<in> set chs. answered L es ch)"
proof -
  have "prefix (ac_events c) (ac_events c')"
    using adds_later [OF grows.adds_each [OF grows.adds_respond] assms] by (simp add: later_def)
  then obtain es where es: "ac_events c' = ac_events c @ es" by (auto simp: prefix_def)
  have "answered L es ch" if "ch \<in> set chs" for ch
  proof -
    from each_io_Inr [OF assms grows.adds_respond that] obtain c1 c2 where c12: "later c c1"
      "respond L ch c1 = (Inr (), c2)" "later c2 c'" by blast
    with respond_answered [OF c12(2)] obtain fs where "ac_events c2 = ac_events c1 @ fs" "answered L fs ch" by blast
    moreover from this c12(1,3) es have "set fs \<subseteq> set es" by (auto simp: later_def prefix_def)
    ultimately show ?thesis by (blast intro: answered_mono)
  qed
  with es show ?thesis by blast
qed

lemma poll_cert_ok:
  assumes "poll_cert L u kpem n c = (Inr (cp, kp), c')"
  shows "kp = kpem \<and> (\<exists>evs q r. net L evs q = Some r \<and> rq_url q = u \<and> rs_status r = 200 \<and> rs_body r = Some cp)"
  using assms
proof (induction n arbitrary: c)
  case (Suc n)
  then obtain r c1 where p: "post_as_get L u c = (Inr r, c1)" by (auto simp: bind_io_Inr)
  show ?case
  proof (cases "rs_status r = 200")
    case True
    with Suc.prems p have b: "kp = kpem" "rs_body r = Some cp"
      by (auto simp: bind_io_Inr resp_text_def)
    from p [unfolded post_as_get_def] show ?thesis
    proof (cases rule: post_jws_cases)
      case (sent m)
      then show ?thesis using b True by (fastforce simp: jws_req_def jose_req_def split: option.splits)
    qed simp
  next
    case False
    with Suc.prems p obtain c2 where "poll_cert L u kpem n c2 = (Inr (cp, kp), c')"
      by (auto simp: bind_io_Inr)
    then show ?thesis by (rule Suc.IH)
  qed
qed simp


text \<open>
  A certificate authority and a DNS provider that answer everything at once: every reply has the URL as
  its body, and the reader gives each URL its document. The text of a document is its number in unary
  behind a \<open>#\<close>, which the reader undoes.
\<close>

instance json :: countable
  by countable_datatype

definition unary_text :: "json \<Rightarrow> string" where
  "unary_text v = CHR ''#'' # replicate (to_nat v) (CHR ''x'')"

definition sample_docs :: "string \<Rightarrow> json" where
  "sample_docs t =
     (if t \<noteq> [] \<and> hd t = CHR ''#'' then from_nat (length t - 1)
      else if t = ''order'' then JObj [(''authorizations'', JArr [JStr ''auth'']), (''finalize'', JStr ''fin'')]
      else if t = ''auth'' then
        JObj [(''challenges'', JArr [JObj [(''token'', JStr ''t''), (''type'', JStr ''dns-01''), (''url'', JStr ''chal'')]]),
              (''identifier'', JObj [(''value'', JStr ''ex.org'')])]
      else if t = ''loc'' then JObj [(''status'', JStr ''ready'')]
      else if t = ''fin'' then JObj [(''certificate'', JStr ''cert'')]
      else JObj [(''result'', JArr [JObj [(''id'', JStr ''z'')]])])"

definition sample_acme :: "unit acme_lib" where
  "sample_acme =
     \<lparr>net = (\<lambda>evs q. Some \<lparr>rs_status = 200, rs_headers = [(''replay-nonce'', ''n''), (''location'', ''loc'')], rs_body = Some (rq_url q)\<rparr>),
      hdr_str = Some, json_text = unary_text, json_parse = (\<lambda>t. Some (sample_docs t)), enc64 = (\<lambda>s. s), sha256 = (\<lambda>s. ''h''),
      point_x = (\<lambda>_. []), point_y = (\<lambda>_. []), ecdsa = (\<lambda>_ _. ([], [])), client_ok = True, new_key = (\<lambda>_. Some ()),
      make_csr = (\<lambda>ds evs. Some (concat ds, ''kpem'')), map_order = (\<lambda>xs. xs), clock = (\<lambda>evs. Some 1000)\<rparr>"

definition sample_client :: "unit AcmeClient" where
  "sample_client = \<lparr>ac_key = (), ac_directory = \<lparr>newNonce = ''nonce'', newAccount = ''acct'', newOrder = ''order''\<rparr>,
     ac_account_url = Some ''me'', ac_nonce = [], ac_thumbprint = ''th'', ac_events = []\<rparr>"

text \<open>\<open>yields m a\<close>: against these services the operation returns \<open>a\<close>.\<close>

definition yields :: "(unit, 'a) acme \<Rightarrow> 'a \<Rightarrow> bool" where
  "yields m a \<longleftrightarrow> (\<forall>c. ac_directory c = ac_directory sample_client \<longrightarrow>
     (\<exists>c'. m c = (Inr a, c') \<and> ac_directory c' = ac_directory sample_client))"

lemma yields_bind: "yields m a \<Longrightarrow> yields (f a) b \<Longrightarrow> yields (bind_io m f) b"
  unfolding yields_def bind_io_Inr by blast

lemma yields_basic: "yields (ret a) a" "yields (ok_or e (Some a)) a" "yields (pause n) ()"
  by (simp_all add: yields_def ret_def ok_or_def pause_def)

lemma yields_ignore: "yields m a \<Longrightarrow> yields (ignore_err m) ()"
  unfolding yields_def ignore_err_def by (metis snd_conv)

definition sample_reply :: "string \<Rightarrow> http_resp" where
  "sample_reply u = \<lparr>rs_status = 200, rs_headers = [(''replay-nonce'', ''n''), (''location'', ''loc'')], rs_body = Some u\<rparr>"

lemma sample_net: "net sample_acme evs q = Some (sample_reply (rq_url q))"
  by (simp add: sample_acme_def sample_reply_def)

lemma sample_fields [simp]:
  "rs_status (sample_reply u) = 200" "rs_body (sample_reply u) = Some u"
  "map_of (rs_headers (sample_reply u)) ''replay-nonce'' = Some ''n''"
  "map_of (rs_headers (sample_reply u)) ''location'' = Some ''loc''"
  "hdr_str sample_acme = Some" "json_parse sample_acme t = Some (sample_docs t)" "map_order sample_acme xs = xs"
  "enc64 sample_acme = (\<lambda>s. s)" "sha256 sample_acme x = ''h''" "make_csr sample_acme ds evs = Some (concat ds, ''kpem'')"
  by (simp_all add: sample_acme_def sample_reply_def)

lemma sample_text: "json_parse sample_acme (json_text sample_acme v) = Some v"
  by (simp add: sample_acme_def unary_text_def sample_docs_def)

lemma yields_send: "yields (send sample_acme q) (sample_reply (rq_url q))"
  by (simp add: yields_def send_def send_raw_def sample_net)

lemma yields_post: "yields (post_jws sample_acme u p uj) (sample_reply u)"
  unfolding yields_def
proof (intro allI impI)
  fix c :: "unit AcmeClient"
  assume d: "ac_directory c = ac_directory sample_client"
  obtain r c' where r: "post_jws sample_acme u p uj c = (r, c')" by fastforce
  then show "\<exists>c'. post_jws sample_acme u p uj c = (Inr (sample_reply u), c') \<and>
      ac_directory c' = ac_directory sample_client"
  proof (cases rule: post_jws_cases)
    case no_nonce
    then show ?thesis by (simp add: nonce_reply_def sample_net)
  next
    case (sent n)
    then show ?thesis using r d by (simp add: sample_net same_client_def jws_req_def jose_req_def)
  qed
qed

lemma bind_ret: "bind_io (ret a) f = f a" and bind_ok_or: "bind_io (ok_or e (Some a)) f = f a"
  by (simp_all add: fun_eq_iff bind_io_def ret_def ok_or_def)

lemma sample_json: "resp_json sample_acme (sample_reply u) = ret (sample_docs u)" "resp_text (sample_reply u) = ret u"
  by (simp_all add: resp_json_def resp_text_def ok_or_def)

lemmas sample_eval = bind_ret bind_ok_or sample_json sample_docs_def unwrap_or_def yields_basic

lemma yields_order: "yields (new_order sample_acme ds) (''loc'', ''fin'', [''auth''])"
proof -
  have "yields (bind_io (post_jws sample_acme ''order'' p False) f) b"
    if "yields (f (sample_reply ''order'')) b" for p f and b :: "string \<times> string \<times> string list"
    using yields_post that by (rule yields_bind)
  then show ?thesis
    unfolding new_order_def yields_def Let_def
    by (simp add: sample_client_def sample_eval map_filter_simps)
qed

definition sample_challenge :: ChallengeInfo where
  "sample_challenge = \<lparr>dns_name = ''ex.org'', txt_value = ''h'', challenge_url = ''chal'', auth_domain = ''ex.org''\<rparr>"

lemma yields_collect:
  "yields (collect_auths sample_acme [''auth''] [] []) ([sample_challenge], [(''ex.org'', [''h''])])"
proof -
  have "read_challenge sample_acme (sample_docs ''auth'') c = (Inr sample_challenge, c)" for c
    by (simp add: read_challenge_def sample_eval is_dns01_def strip_prefix_def sample_challenge_def)
      (simp add: ret_def Let_def)
  then have "yields (read_challenge sample_acme (sample_docs ''auth'')) sample_challenge"
    by (simp add: yields_def)
  then have "yields (bind_io (read_challenge sample_acme (sample_docs ''auth''))
      (\<lambda>ch. ret ([ch], [(dns_name ch, [txt_value ch])]))) ([sample_challenge], [(''ex.org'', [''h''])])"
    by (rule yields_bind) (simp add: yields_basic sample_challenge_def)
  then show ?thesis
    unfolding collect_auths.simps post_as_get_def
    by (intro yields_bind [OF yields_post]) (simp add: sample_json bind_ret)
qed

lemma yields_cloudflare: "yields (set_cloudflare_txt sample_acme tok ''ex.org'' vs) ()"
proof -
  let ?doc = "JObj [(''result'', JArr [JObj [(''id'', JStr ''z'')]])]"
  have doc: "sample_docs (''https://'' @ t) = ?doc" for t by (simp add: sample_docs_def)
  have "yields (resolve_zone_id sample_acme tok ''ex.org'') ''z''"
    unfolding resolve_zone_id_def
    by (rule yields_bind [OF yields_send]) (use doc in \<open>simp add: get_req_def sample_eval\<close>)
  moreover have dels: "yields (each_io (\<lambda>rid. ignore_err (send sample_acme (delete_req tok (u @ ''/'' @ rid)))) ids) ()" for u ids
    by (induction ids) (auto intro: yields_bind yields_ignore yields_send yields_basic)
  have "yields (delete_txt sample_acme tok u ''ex.org'') ()" for u
    unfolding delete_txt_def
    by (rule yields_ignore [where a = "()"], rule yields_bind [OF yields_send])
      (simp only: sample_json bind_ret, rule dels)
  moreover have "yields (each_io (create_txt sample_acme tok u ''ex.org'') vs) ()" for u
    by (induction vs) (auto simp: create_txt_def intro!: yields_bind [OF yields_send] yields_bind yields_basic)
  ultimately show ?thesis
    unfolding set_cloudflare_txt_def Let_def by (blast intro: yields_bind)
qed

lemma yields_rest:
  "yields (respond sample_acme sample_challenge) ()" "yields (poll_order sample_acme ''loc'' (Suc n)) ()"
  "yields (finalize sample_acme ds ''fin'') (''cert'', ''kpem'')"
  "yields (poll_cert sample_acme ''cert'' k (Suc n)) (''cert'', k)"
proof -
  show "yields (respond sample_acme sample_challenge) ()"
    unfolding respond_def by (rule yields_bind [OF yields_post]) (simp add: yields_basic)
  show "yields (poll_order sample_acme ''loc'' (Suc n)) ()"
    unfolding poll_order.simps post_as_get_def by (rule yields_bind [OF yields_post]) (simp add: sample_eval)
  have "yields (bind_io (post_jws sample_acme ''fin'' p False) f) b"
    if "yields (f (sample_reply ''fin'')) b" for p f and b :: "string \<times> string"
    using yields_post that by (rule yields_bind)
  then show "yields (finalize sample_acme ds ''fin'') (''cert'', ''kpem'')"
    unfolding finalize_def yields_def by (simp add: sample_eval)
  show "yields (poll_cert sample_acme ''cert'' k (Suc n)) (''cert'', k)"
    unfolding poll_cert.simps post_as_get_def by (rule yields_bind [OF yields_post]) (simp add: sample_eval)
qed

lemma sample_issues: "yields (issue_cert sample_acme tok ds) (''cert'', ''kpem'')"
proof -
  have dns: "yields (each_io (\<lambda>(n, vs). set_cloudflare_txt sample_acme tok n vs) [(''ex.org'', [''h''])]) ()"
    and chal: "yields (each_io (respond sample_acme) [sample_challenge]) ()"
    by (simp_all only: each_io.simps prod.case)
      (rule yields_bind [OF yields_cloudflare], rule yields_basic, rule yields_bind [OF yields_rest(1)], rule yields_basic)
  have polls: "yields (poll_order sample_acme ''loc'' 30) ()" "yields (poll_cert sample_acme ''cert'' ''kpem'' 30) (''cert'', ''kpem'')"
    using yields_rest(2) [of 29] yields_rest(4) [of _ 29] by simp_all
  show ?thesis
    unfolding issue_cert_def
    by (rule yields_bind [OF yields_order], simp only: prod.case, rule yields_bind [OF yields_collect],
        simp only: prod.case sample_fields, rule yields_bind [OF dns], rule yields_bind [OF yields_basic(3)],
        rule yields_bind [OF chal], rule yields_bind [OF polls(1)], rule yields_bind [OF yields_rest(3)],
        simp only: prod.case, rule polls(2))
qed


text \<open>
  C37. No nonce is used twice: in everything an issuance sends, whatever the answers, every signed request
  stands right behind a request for a new nonce to the server's nonce address.
\<close>

theorem issue_cert_fresh_nonces:
  assumes "issue_cert L tok ds c = (r, c')"
  shows "\<exists>es. ac_events c' = ac_events c @ es \<and>
     (\<forall>i<length es. is_signed (es ! i) \<longrightarrow> 0 < i \<and> es ! (i - 1) = Sent (head_req (newNonce (ac_directory c))))"
  using fresh.adds_issue_cert [of L tok ds] assms unfolding adds_def nonce_ok_def by blast

theorem issue_cert_fresh_nonces_witness:
  "\<exists>r c' es. issue_cert sample_acme ''tok'' [''ex.org''] sample_client = (r, c') \<and> ac_events c' = es \<and>
     (\<forall>i<length es. is_signed (es ! i) \<longrightarrow> 0 < i \<and> es ! (i - 1) = Sent (head_req ''nonce''))"
proof -
  obtain r c' where e: "issue_cert sample_acme ''tok'' [''ex.org''] sample_client = (r, c')" by fastforce
  from issue_cert_fresh_nonces [OF e] e show ?thesis by (simp add: sample_client_def)
qed

text \<open>
  An issuance cannot hang in its polling loops: whatever the authority answers, it pauses for at most
  330 seconds in all (30 for the DNS, 30 polls of the order and 30 of the certificate, 5 seconds each)
  before it returns a certificate or an error.
\<close>

theorem issue_cert_pauses:
  "\<exists>r c' es. issue_cert L tok ds c = (r, c') \<and> ac_events c' = ac_events c @ es \<and> slept es \<le> 330"
  using pauses_issue_cert [of L tok ds] unfolding pauses_def adds_def by (metis prod.exhaust)

end
