(* ===== verification/Certd.thy ===== *)
theory Certd
  imports Acme
begin

text \<open>
  The certificate daemon: \<open>certd/src/config.rs\<close>, the storage and the issue and renewal loop of
  \<open>certd/src/acme.rs\<close>, and the HTTP interface and the list of names of \<open>certd/src/main.rs\<close>.

  Redis is a parameter: \<open>rd_get\<close> and \<open>rd_set\<close> (which leaves the store as it is when the command fails)
  and whether a connection can be made, at each point of the trace. The endless renewal loop is modelled
  for any number of rounds.
\<close>

section \<open>Definitions\<close>

subsection \<open>Configuration\<close>

record certd_site =
  cs_domain :: string
  cs_upstream :: string
  cs_bypass :: "string list"
  cs_sub :: "string list"

text \<open>A site as TOML gives it; of a subsite only the name matters here.\<close>

record certd_site_doc =
  dcs_domain :: "string option"
  dcs_upstream :: "string option"
  dcs_bypass :: "string list option"
  dcs_sub :: "string option list option"

record CertdConfig =
  cd_port :: u16
  cd_contact_email :: string
  cd_cloudflare_api_token :: string
  cd_renewal_interval :: u64

record CertdConfig_doc =
  dcd_port :: "u16 option"
  dcd_contact_email :: "string option"
  dcd_cloudflare_api_token :: "string option"
  dcd_renewal_interval :: "u64 option"

definition certd_default_port :: u16 where "certd_default_port = 8443"
definition default_renewal_interval :: u64 where "default_renewal_interval = 86400"

text \<open>The derived \<open>Default\<close> instance, which a missing table gets.\<close>

definition default_CertdConfig :: CertdConfig where
  "default_CertdConfig =
     \<lparr>cd_port = 0, cd_contact_email = [], cd_cloudflare_api_token = [], cd_renewal_interval = 0\<rparr>"

definition de_CertdConfig :: "CertdConfig_doc \<Rightarrow> CertdConfig option" where
  "de_CertdConfig d =
     (case (dcd_contact_email d, dcd_cloudflare_api_token d) of
        (Some e, Some t) \<Rightarrow>
          Some \<lparr>cd_port = unwrap_or certd_default_port (dcd_port d), cd_contact_email = e,
                cd_cloudflare_api_token = t,
                cd_renewal_interval = unwrap_or default_renewal_interval (dcd_renewal_interval d)\<rparr>
      | _ \<Rightarrow> None)"

definition all_some :: "'a option list \<Rightarrow> 'a list option" where
  "all_some xs = (if list_all (\<lambda>x. x \<noteq> None) xs then Some (map the xs) else None)"

definition de_certd_site :: "certd_site_doc \<Rightarrow> certd_site option" where
  "de_certd_site d =
     (case (dcs_domain d, dcs_upstream d, all_some (unwrap_or [] (dcs_sub d))) of
        (Some n, Some u, Some subs) \<Rightarrow>
          Some \<lparr>cs_domain = n, cs_upstream = u, cs_bypass = unwrap_or [] (dcs_bypass d), cs_sub = subs\<rparr>
      | _ \<Rightarrow> None)"

record certd_cfg =
  cc_sites :: "certd_site list"
  cc_redis_url :: string
  cc_certd :: CertdConfig

record certd_cfg_doc =
  dcc_sites :: "certd_site_doc list option"
  dcc_redis :: "string option option"
  dcc_certd :: "CertdConfig_doc option"

definition certd_default_redis_url :: string where
  "certd_default_redis_url = ''redis://127.0.0.1:6379''"

definition certd_config :: "certd_cfg_doc \<Rightarrow> certd_cfg option" where
  "certd_config d =
     (case (Option.bind (dcc_sites d) (\<lambda>ss. all_some (map de_certd_site ss)),
            case dcc_certd d of None \<Rightarrow> Some default_CertdConfig | Some t \<Rightarrow> de_CertdConfig t) of
        (Some ss, Some c) \<Rightarrow>
          Some \<lparr>cc_sites = ss,
                cc_redis_url = (case dcc_redis d of None \<Rightarrow> [] | Some u \<Rightarrow> unwrap_or certd_default_redis_url u),
                cc_certd = c\<rparr>
      | _ \<Rightarrow> None)"

text \<open>\<open>CONFIG\<close>: an unreadable or ill-formed file panics on first use.\<close>

definition certd_CONFIG ::
  "(string \<Rightarrow> string option) \<Rightarrow> (string \<Rightarrow> certd_cfg_doc option) \<Rightarrow> string option \<Rightarrow> certd_cfg outcome" where
  "certd_CONFIG read_file from_toml ng_config =
     (let path = unwrap_or ''nekoguard.toml'' ng_config in
      case read_file path of
        None \<Rightarrow> Panic (''failed to read config '' @ path)
      | Some raw \<Rightarrow>
          (case Option.bind (from_toml raw) certd_config of
             None \<Rightarrow> Panic (''failed to parse config '' @ path)
           | Some c \<Rightarrow> Done c))"

subsection \<open>Stored certificates\<close>

record AcmeCert =
  a_cert_pem :: string
  a_key_pem :: string
  issued_at :: u64
  expires_at :: u64

definition CERT_PREFIX :: string where
  "CERT_PREFIX = ''nekoguard:cert:''"

definition cert_value :: "AcmeCert \<Rightarrow> json" where
  "cert_value c =
     JObj [(''cert_pem'', JStr (a_cert_pem c)), (''key_pem'', JStr (a_key_pem c)),
           (''issued_at'', JNum (uint (issued_at c))), (''expires_at'', JNum (uint (expires_at c)))]"

definition de_cert :: "json \<Rightarrow> AcmeCert option" where
  "de_cert v =
     (case (as_str (jget v ''cert_pem''), as_str (jget v ''key_pem''), as_u64 (jget v ''issued_at''), as_u64 (jget v ''expires_at'')) of
        (Some c, Some k, Some i, Some e) \<Rightarrow> Some \<lparr>a_cert_pem = c, a_key_pem = k, issued_at = i, expires_at = e\<rparr>
      | _ \<Rightarrow> None)"

record 'r cert_redis =
  rd_get :: "string \<Rightarrow> 'r \<Rightarrow> string option"
  rd_set :: "string \<Rightarrow> string \<Rightarrow> 'r \<Rightarrow> 'r"
  rd_connects :: "event list \<Rightarrow> bool"

definition store_cert :: "'k acme_lib \<Rightarrow> 'r cert_redis \<Rightarrow> string \<Rightarrow> AcmeCert \<Rightarrow> 'r \<Rightarrow> 'r" where
  "store_cert L R d cert = rd_set R (CERT_PREFIX @ d) (json_text L (cert_value cert))"

definition load_stored :: "'k acme_lib \<Rightarrow> 'r cert_redis \<Rightarrow> string \<Rightarrow> 'r \<Rightarrow> AcmeCert option" where
  "load_stored L R d r =
     Option.bind (rd_get R (CERT_PREFIX @ d) r) (\<lambda>t. Option.bind (json_parse L t) de_cert)"

fun get_all_certs :: "'k acme_lib \<Rightarrow> 'r cert_redis \<Rightarrow> string list \<Rightarrow> 'r \<Rightarrow> (string \<times> AcmeCert) list" where
  "get_all_certs L R [] r = []"
| "get_all_certs L R (d # ds) r =
     (case load_stored L R d r of None \<Rightarrow> [] | Some c \<Rightarrow> [(d, c)]) @ get_all_certs L R ds r"

subsection \<open>The issue and renewal loop\<close>

text \<open>The loop's state: the client and the store.\<close>

record ('k, 'r) certd_state =
  st_client :: "'k AcmeClient"
  st_redis :: 'r

type_synonym ('k, 'r, 'a) certd = "(('k, 'r) certd_state, 'a) io"

definition wildcard :: "string \<Rightarrow> string" where
  "wildcard d = ''*.'' @ d"

definition cert_group :: "string list \<Rightarrow> string \<Rightarrow> string list" where
  "cert_group ds d = [d] @ (if wildcard d \<in> set ds then [wildcard d] else [])"

definition base_domains :: "string list \<Rightarrow> string list" where
  "base_domains ds = filter (\<lambda>d. \<not> starts_with ''*.'' d) ds"

definition new_cert :: "string \<times> string \<Rightarrow> u64 \<Rightarrow> AcmeCert" where
  "new_cert p now = \<lparr>a_cert_pem = fst p, a_key_pem = snd p, issued_at = now, expires_at = now + 80 * 86400\<rparr>"

definition store_and_publish ::
  "'k acme_lib \<Rightarrow> 'r cert_redis \<Rightarrow> string \<Rightarrow> AcmeCert \<Rightarrow> ('k, 'r, unit) certd" where
  "store_and_publish L R d cert s =
     (Inr (), s\<lparr>st_redis := store_cert L R d cert (st_redis s),
                st_client := (st_client s)\<lparr>ac_events := ac_events (st_client s) @ [Published d]\<rparr>\<rparr>)"

definition issue_first ::
  "'k acme_lib \<Rightarrow> 'r cert_redis \<Rightarrow> string \<Rightarrow> string list \<Rightarrow> string \<Rightarrow> ('k, 'r, unit) certd" where
  "issue_first L R tok ds d s =
     (case issue_cert L tok (cert_group ds d) (st_client s) of
        (Inl e, c) \<Rightarrow> (Inr (), s\<lparr>st_client := c\<rparr>)
      | (Inr p, c) \<Rightarrow>
          (case clock L (ac_events c) of
             None \<Rightarrow> (Inl ''clock before epoch'', s\<lparr>st_client := c\<rparr>)
           | Some now \<Rightarrow>
               if rd_connects R (ac_events c)
               then store_and_publish L R d (new_cert p now) (s\<lparr>st_client := c\<rparr>)
               else (Inl ''redis connection'', s\<lparr>st_client := c\<rparr>)))"

definition renewal_due :: "AcmeCert \<Rightarrow> u64 \<Rightarrow> bool" where
  "renewal_due cert now \<longleftrightarrow> expires_at cert > 0 \<and> expires_at cert < now + 30 * 86400"

definition renew_one ::
  "'k acme_lib \<Rightarrow> 'r cert_redis \<Rightarrow> string \<Rightarrow> string list \<Rightarrow> string \<Rightarrow> ('k, 'r, unit) certd" where
  "renew_one L R tok ds d s =
     (case load_stored L R d (st_redis s) of
        None \<Rightarrow> (Inr (), s)
      | Some cert \<Rightarrow>
          (case clock L (ac_events (st_client s)) of
             None \<Rightarrow> (Inl ''clock before epoch'', s)
           | Some now \<Rightarrow>
               if renewal_due cert now then
                 (case issue_cert L tok (cert_group ds d) (st_client s) of
                    (Inl e, c) \<Rightarrow> (Inr (), s\<lparr>st_client := c\<rparr>)
                  | (Inr p, c) \<Rightarrow> store_and_publish L R d (new_cert p now) (s\<lparr>st_client := c\<rparr>))
               else (Inr (), s)))"

definition renew_round ::
  "'k acme_lib \<Rightarrow> 'r cert_redis \<Rightarrow> CertdConfig \<Rightarrow> string list \<Rightarrow> ('k, 'r, unit) certd" where
  "renew_round L R cfg ds s =
     (let c = snd (pause (unat (cd_renewal_interval cfg)) (st_client s)); s1 = s\<lparr>st_client := c\<rparr> in
      if rd_connects R (ac_events c) then each_io (renew_one L R (cd_cloudflare_api_token cfg) ds) ds s1
      else (Inl ''redis connection'', s1))"

fun renew_rounds ::
  "'k acme_lib \<Rightarrow> 'r cert_redis \<Rightarrow> CertdConfig \<Rightarrow> string list \<Rightarrow> nat \<Rightarrow> ('k, 'r, unit) certd" where
  "renew_rounds L R cfg ds 0 = ret ()"
| "renew_rounds L R cfg ds (Suc n) = bind_io (renew_round L R cfg ds) (\<lambda>_. renew_rounds L R cfg ds n)"

definition run_acme_loop ::
  "'k acme_lib \<Rightarrow> 'r cert_redis \<Rightarrow> CertdConfig \<Rightarrow> string list \<Rightarrow> nat \<Rightarrow> event list \<Rightarrow> 'r \<Rightarrow>
   (string + unit) \<times> event list \<times> 'r" where
  "run_acme_loop L R cfg ds rounds evs r =
     (case acme_new L (cd_contact_email cfg) evs of
        (Inl e, evs') \<Rightarrow> (Inl e, evs', r)
      | (Inr client, evs') \<Rightarrow>
          (case bind_io (each_io (issue_first L R (cd_cloudflare_api_token cfg) ds) (base_domains ds))
                  (\<lambda>_. renew_rounds L R cfg ds rounds) \<lparr>st_client = client, st_redis = r\<rparr> of
             (x, s) \<Rightarrow> (x, ac_events (st_client s), st_redis s)))"

subsection \<open>The HTTP interface\<close>

text \<open>The names to issue for: every site, and its wildcard when it has subsites.\<close>

fun certd_domains :: "certd_site list \<Rightarrow> string list" where
  "certd_domains [] = []"
| "certd_domains (s # ss) = cs_domain s # (if cs_sub s \<noteq> [] then [wildcard (cs_domain s)] else []) @ certd_domains ss"

text \<open>A reply is its status and its JSON body; \<open>q\<close> is the double quote.\<close>

definition certd_handle ::
  "'k acme_lib \<Rightarrow> 'r cert_redis \<Rightarrow> event list \<Rightarrow> certd_cfg \<Rightarrow> 'r \<Rightarrow> string \<Rightarrow> string \<Rightarrow> (nat \<times> string) outcome" where
  "certd_handle L R evs cfg r m path =
     (let q = [CHR 0x22] in
      if m = ''GET'' \<and> path = ''/health'' then Done (200, ''{'' @ q @ ''status'' @ q @ '':'' @ q @ ''ok'' @ q @ ''}'')
      else if m = ''GET'' \<and> path = ''/certs'' then
        (if rd_connects R evs
         then Done (200, json_text L (JArr (map (\<lambda>(d, c). JArr [JStr d, cert_value c])
                (get_all_certs L R (map cs_domain (cc_sites cfg)) r))))
         else Panic ''redis connect'')
      else if m = ''GET'' \<and> starts_with ''/certs/'' path then
        (if rd_connects R evs
         then (case load_stored L R (drop 7 path) r of
                 Some cert \<Rightarrow> Done (200, json_text L (cert_value cert))
               | None \<Rightarrow> Done (404, ''{'' @ q @ ''error'' @ q @ '':'' @ q @ ''cert not found'' @ q @ ''}''))
         else Panic ''redis connect'')
      else Done (404, ''{'' @ q @ ''error'' @ q @ '':'' @ q @ ''not found'' @ q @ ''}''))"

text \<open>
  \<open>main\<close>: the loop starts with the names to issue for, then the port is bound and every accepted
  connection's requests are answered; whether the crypto provider was there already does not matter. The
  result is what the loop is started with and the answers. A port that is taken takes the loop down too.
\<close>

definition certd_main ::
  "'k acme_lib \<Rightarrow> 'r cert_redis \<Rightarrow> (u16 \<Rightarrow> bool) \<Rightarrow> event list \<Rightarrow> certd_cfg \<Rightarrow> 'r \<Rightarrow>
   (string \<times> string) list option list \<Rightarrow> (string list \<times> (nat \<times> string) outcome list) outcome" where
  "certd_main L R binds evs cfg r accepted =
     (if binds (cd_port (cc_certd cfg))
      then Done (certd_domains (cc_sites cfg),
             concat (map (\<lambda>conn. case conn of
                 Some reqs \<Rightarrow> map (\<lambda>(m, path). certd_handle L R evs cfg r m path) reqs
               | None \<Rightarrow> []) accepted))
      else Panic ''bind failed'')"

section \<open>The store\<close>

text \<open>A step of the loop changes the store only by putting a certificate just issued for a name under that name.\<close>

definition issued_for :: "'k acme_lib \<Rightarrow> string \<Rightarrow> string list \<Rightarrow> string \<Rightarrow> AcmeCert \<Rightarrow> bool" where
  "issued_for L tok ds d cert \<longleftrightarrow>
     (\<exists>p now c c'. cert = new_cert p now \<and> issue_cert L tok (cert_group ds d) c = (Inr p, c'))"

definition only_issued :: "'k acme_lib \<Rightarrow> 'r cert_redis \<Rightarrow> string \<Rightarrow> string list \<Rightarrow> string set \<Rightarrow> 'r \<Rightarrow> 'r \<Rightarrow> bool" where
  "only_issued L R tok ds D r r' \<longleftrightarrow>
     (\<forall>d. load_stored L R d r' = load_stored L R d r \<or>
        d \<in> D \<and> (\<exists>cert. load_stored L R d r' = Some cert \<and> issued_for L tok ds d cert))"

text \<open>
  What the daemon relies on: JSON text reads back, a \<open>SET\<close> touches no other key, and the key itself gets
  the value or, if the command fails, keeps what it had.
\<close>

locale cert_store =
  fixes L :: "'k acme_lib" and R :: "'r cert_redis"
  assumes text_back: "json_parse L (json_text L v) = Some v"
    and set_other: "k \<noteq> k' \<Longrightarrow> rd_get R k (rd_set R k' t r) = rd_get R k r"
    and set_same: "rd_get R k (rd_set R k t r) = Some t \<or> rd_get R k (rd_set R k t r) = rd_get R k r"
begin

lemma de_cert_value: "de_cert (cert_value c) = Some c"
proof -
  have "uint (w :: u64) < 2 ^ 64" for w using uint_lt2p [of w] by simp
  then show ?thesis by (simp add: de_cert_def cert_value_def unwrap_or_def)
qed

lemma load_other: "d \<noteq> d' \<Longrightarrow> load_stored L R d (store_cert L R d' c r) = load_stored L R d r"
  by (simp add: load_stored_def store_cert_def set_other)

lemma load_same:
  "load_stored L R d (store_cert L R d c r) = Some c \<or> load_stored L R d (store_cert L R d c r) = load_stored L R d r"
  using set_same [of "CERT_PREFIX @ d" "json_text L (cert_value c)" r]
  by (auto simp: load_stored_def store_cert_def text_back de_cert_value)

lemma only_issued_refl: "only_issued L R tok ds D r r"
  by (simp add: only_issued_def)

lemma only_issued_trans:
  "only_issued L R tok ds D r r' \<Longrightarrow> only_issued L R tok ds D r' r'' \<Longrightarrow> only_issued L R tok ds D r r''"
  unfolding only_issued_def by metis

lemma store_only_issued:
  assumes "issue_cert L tok (cert_group ds d) c = (Inr p, c')" and "d \<in> D"
  shows "only_issued L R tok ds D r (store_cert L R d (new_cert p now) r)"
proof -
  have "issued_for L tok ds d (new_cert p now)" using assms(1) unfolding issued_for_def by blast
  with assms(2) load_other load_same show ?thesis unfolding only_issued_def by metis
qed

lemma issue_first_only_issued:
  "issue_first L R tok ds d s = (x, s') \<Longrightarrow> d \<in> D \<Longrightarrow> only_issued L R tok ds D (st_redis s) (st_redis s')"
  by (auto simp: issue_first_def store_and_publish_def only_issued_refl
      intro!: store_only_issued split: prod.splits sum.splits option.splits if_splits)

lemma renew_one_only_issued:
  "renew_one L R tok ds d s = (x, s') \<Longrightarrow> d \<in> D \<Longrightarrow> only_issued L R tok ds D (st_redis s) (st_redis s')"
  by (auto simp: renew_one_def store_and_publish_def only_issued_refl
      intro!: store_only_issued split: prod.splits sum.splits option.splits if_splits)

lemma each_only_issued:
  assumes "\<And>d s x s'. f d s = (x, s') \<Longrightarrow> d \<in> D \<Longrightarrow> only_issued L R tok ds D (st_redis s) (st_redis s')"
  shows "set xs \<subseteq> D \<Longrightarrow> each_io f xs s = (x, s') \<Longrightarrow> only_issued L R tok ds D (st_redis s) (st_redis s')"
proof (induction xs arbitrary: s)
  case (Cons y ys)
  obtain z s1 where y: "f y s = (z, s1)" by fastforce
  with assms Cons.prems(1) have 1: "only_issued L R tok ds D (st_redis s) (st_redis s1)" by auto
  show ?case
  proof (cases z)
    case (Inl e)
    with Cons.prems(2) y 1 show ?thesis by (simp add: bind_io_def)
  next
    case (Inr u)
    with Cons.prems y have "each_io f ys s1 = (x, s')" by (simp add: bind_io_def)
    with Cons.IH Cons.prems(1) 1 only_issued_trans show ?thesis by auto
  qed
qed (simp add: ret_def only_issued_refl)

lemma renew_round_only_issued:
  assumes "renew_round L R cfg ds s = (x, s')"
  shows "only_issued L R (cd_cloudflare_api_token cfg) ds (set ds) (st_redis s) (st_redis s')"
  using assms each_only_issued [where f = "renew_one L R (cd_cloudflare_api_token cfg) ds" and D = "set ds" and xs = ds,
      OF renew_one_only_issued]
  by (fastforce simp: renew_round_def Let_def only_issued_refl split: if_splits)

lemma renew_rounds_only_issued:
  "renew_rounds L R cfg ds n s = (x, s') \<Longrightarrow>
   only_issued L R (cd_cloudflare_api_token cfg) ds (set ds) (st_redis s) (st_redis s')"
proof (induction n arbitrary: s)
  case (Suc n)
  obtain z s1 where z: "renew_round L R cfg ds s = (z, s1)" by fastforce
  then show ?case
    using Suc renew_round_only_issued [OF z] only_issued_trans
    by (cases z) (auto simp: bind_io_def)
qed (simp add: ret_def only_issued_refl)

text \<open>A name without a stored certificate is not renewed either.\<close>

lemma renew_one_missing:
  "renew_one L R tok ds d' s = (x, s') \<Longrightarrow> load_stored L R d (st_redis s) = None \<Longrightarrow>
   load_stored L R d (st_redis s') = None"
  by (cases "d = d'")
    (auto simp: renew_one_def store_and_publish_def load_other
      split: prod.splits sum.splits option.splits if_splits)

lemma each_renew_missing:
  "each_io (renew_one L R tok ds) xs s = (x, s') \<Longrightarrow> load_stored L R d (st_redis s) = None \<Longrightarrow>
   load_stored L R d (st_redis s') = None"
proof (induction xs arbitrary: s)
  case (Cons y ys)
  obtain z s1 where y: "renew_one L R tok ds y s = (z, s1)" by fastforce
  with renew_one_missing Cons.prems(2) have "load_stored L R d (st_redis s1) = None" by blast
  with Cons y show ?case by (cases z) (auto simp: bind_io_def)
qed (simp add: ret_def)

lemma renew_rounds_missing:
  "renew_rounds L R cfg ds n s = (x, s') \<Longrightarrow> load_stored L R d (st_redis s) = None \<Longrightarrow>
   load_stored L R d (st_redis s') = None"
proof (induction n arbitrary: s)
  case (Suc n)
  obtain z s1 where z: "renew_round L R cfg ds s = (z, s1)" by fastforce
  then have "load_stored L R d (st_redis s1) = None"
    using each_renew_missing Suc.prems(2) by (fastforce simp: renew_round_def Let_def split: if_splits)
  with Suc z show ?case by (cases z) (auto simp: bind_io_def)
qed (simp add: ret_def)

end

section \<open>Properties\<close>

text \<open>A store that is an association list, always reachable.\<close>

definition list_redis :: "(string \<times> string) list cert_redis" where
  "list_redis = \<lparr>rd_get = (\<lambda>k r. map_of r k), rd_set = (\<lambda>k v r. (k, v) # r), rd_connects = (\<lambda>_. True)\<rparr>"

interpretation mr: cert_store sample_acme list_redis
  by unfold_locales (rule sample_text, simp_all add: list_redis_def)

text \<open>
  C24. The daemon stores only what it was issued. However often it has run, under each name of the store
  is either the certificate that was there before, or one that an issuance returned for exactly that
  configured name (with its wildcard when that is configured), dated by the clock and with 80 days to
  live. The hypotheses are the laws of the store and of the JSON text.
\<close>

theorem certd_stores_only_issued:
  assumes "cert_store L R" and "run_acme_loop L R cfg ds n evs r = (x, evs', r')"
  shows "load_stored L R d r' = load_stored L R d r \<or>
     d \<in> set ds \<and> (\<exists>p now c c'. load_stored L R d r' = Some (new_cert p now) \<and>
        issue_cert L (cd_cloudflare_api_token cfg) (cert_group ds d) c = (Inr p, c'))"
proof -
  let ?tok = "cd_cloudflare_api_token cfg"
  have "only_issued L R ?tok ds (set ds) r r'"
  proof (cases "acme_new L (cd_contact_email cfg) evs")
    case (Pair y evs1)
    show ?thesis
    proof (cases y)
      case (Inl e)
      with Pair assms(2) show ?thesis
        by (simp add: run_acme_loop_def cert_store.only_issued_refl [OF assms(1)])
    next
      case (Inr client)
      let ?s = "\<lparr>st_client = client, st_redis = r\<rparr>"
      obtain z s1 where z: "each_io (issue_first L R ?tok ds) (base_domains ds) ?s = (z, s1)" by fastforce
      have 1: "only_issued L R ?tok ds (set ds) r (st_redis s1)"
        using cert_store.each_only_issued [OF assms(1) cert_store.issue_first_only_issued [OF assms(1)] _ z]
        by (auto simp: base_domains_def)
      obtain s2 x2 where "r' = st_redis s2" "s2 = s1 \<or> renew_rounds L R cfg ds n s1 = (x2, s2)"
        using assms(2) Pair Inr z
        by (auto simp: run_acme_loop_def bind_io_def split: prod.splits sum.splits)
      with 1 cert_store.renew_rounds_only_issued [OF assms(1)] cert_store.only_issued_trans [OF assms(1)]
      show ?thesis by blast
    qed
  qed
  then show ?thesis unfolding only_issued_def issued_for_def by blast
qed

definition sample_certd :: CertdConfig where
  "sample_certd = \<lparr>cd_port = 8443, cd_contact_email = ''a'', cd_cloudflare_api_token = ''tok'', cd_renewal_interval = 86400\<rparr>"

theorem certd_stores_only_issued_witness:
  "\<exists>x evs' r'. run_acme_loop sample_acme list_redis sample_certd [''ex.org''] 3 [] [] = (x, evs', r') \<and>
     (load_stored sample_acme list_redis ''ex.org'' r' = None \<or>
      (\<exists>p now c c'. load_stored sample_acme list_redis ''ex.org'' r' = Some (new_cert p now) \<and>
         issue_cert sample_acme ''tok'' (cert_group [''ex.org''] ''ex.org'') c = (Inr p, c')))"
proof -
  obtain x evs' r' where run: "run_acme_loop sample_acme list_redis sample_certd [''ex.org''] 3 [] [] = (x, evs', r')"
    by (metis prod_cases3)
  have "load_stored sample_acme list_redis ''ex.org'' [] = None"
    by (simp add: load_stored_def list_redis_def)
  with certd_stores_only_issued [OF mr.cert_store_axioms run, of "''ex.org''"] run
  show ?thesis by (auto simp: sample_certd_def)
qed

text \<open>
  A name that has no certificate after the first pass never gets one: the renewal rounds, however
  many, leave every name without a stored certificate without one. A failed first issuance is thus not
  retried before the daemon is restarted.
\<close>

theorem missing_cert_not_renewed:
  assumes "cert_store L R" and "load_stored L R d (st_redis s) = None"
    and "renew_rounds L R cfg ds n s = (x, s')"
  shows "load_stored L R d (st_redis s') = None"
  using cert_store.renew_rounds_missing [OF assms(1,3,2)] .

theorem missing_cert_not_renewed_witness:
  "\<exists>x s'. renew_rounds sample_acme list_redis sample_certd [''ex.org''] 1000
        \<lparr>st_client = sample_client, st_redis = []\<rparr> = (x, s') \<and>
     load_stored sample_acme list_redis ''ex.org'' (st_redis s') = None"
proof -
  let ?s = "\<lparr>st_client = sample_client, st_redis = []\<rparr>"
  obtain x s' where run: "renew_rounds sample_acme list_redis sample_certd [''ex.org''] 1000 ?s = (x, s')" by fastforce
  have "load_stored sample_acme list_redis ''ex.org'' (st_redis ?s) = None"
    by (simp add: load_stored_def list_redis_def)
  from missing_cert_not_renewed [OF mr.cert_store_axioms this run] run show ?thesis by blast
qed

text \<open>
  When a renewal falls due. A certificate the daemon has stored is renewed by the first round that
  finds it more than 50 days old, and by none before, for all dates the 64-bit arithmetic holds.
\<close>

theorem renewal_due_after_50_days:
  assumes "unat issued < 2 ^ 62" and "unat now < 2 ^ 62"
  shows "renewal_due (new_cert p issued) now \<longleftrightarrow> unat issued + 50 * 86400 < unat now"
proof -
  have "unat (issued + 6912000) = unat issued + 6912000" "unat (now + 2592000) = unat now + 2592000"
    using assms by (simp_all add: unat_word_ariths)
  then show ?thesis
    by (auto simp: renewal_due_def new_cert_def word_less_nat_alt)
qed

theorem renewal_due_after_50_days_witness:
  "renewal_due (new_cert (''c'', ''k'') 1000) 4321001 \<and> \<not> renewal_due (new_cert (''c'', ''k'') 1000) 4321000"
  using renewal_due_after_50_days [of 1000 4321001 "(''c'', ''k'')"]
    renewal_due_after_50_days [of 1000 4321000 "(''c'', ''k'')"] by simp

lemma renew_rounds_add:
  "renew_rounds L R cfg ds (k + n) = bind_io (renew_rounds L R cfg ds k) (\<lambda>_. renew_rounds L R cfg ds n)"
proof (induction k)
  case (Suc k)
  then show ?case by (auto simp: fun_eq_iff bind_io_def split: prod.splits sum.splits)
qed (simp add: bind_ret)

text \<open>
  One failed connection ends the renewals. If Redis cannot be reached when a round starts, the loop
  returns an error and no later round runs, however long the daemon lives on: asking for more rounds
  changes nothing of the result.
\<close>

theorem renewal_stops_on_outage:
  assumes "renew_rounds L R cfg ds k s = (Inr (), s1)"
    and "\<not> rd_connects R (ac_events (st_client s1) @ [Sleep (unat (cd_renewal_interval cfg))])"
  shows "\<exists>s2. (\<forall>n>k. renew_rounds L R cfg ds n s = (Inl ''redis connection'', s2)) \<and> st_redis s2 = st_redis s1"
proof -
  let ?s2 = "s1\<lparr>st_client := snd (pause (unat (cd_renewal_interval cfg)) (st_client s1))\<rparr>"
  have "renew_round L R cfg ds s1 = (Inl ''redis connection'', ?s2)"
    using assms(2) by (simp add: renew_round_def Let_def pause_def)
  then have "renew_rounds L R cfg ds (k + Suc m) s = (Inl ''redis connection'', ?s2)" for m
    using assms(1) by (simp only: renew_rounds_add renew_rounds.simps) (simp add: bind_io_def)
  then have "\<forall>n>k. renew_rounds L R cfg ds n s = (Inl ''redis connection'', ?s2)"
    by (metis less_imp_Suc_add add_Suc_right)
  then show ?thesis by (intro exI [of _ ?s2]) simp
qed

theorem renewal_stops_on_outage_witness:
  "\<exists>s2. \<forall>n>0. renew_rounds sample_acme (list_redis\<lparr>rd_connects := (\<lambda>_. False)\<rparr>) sample_certd [''ex.org''] n
      \<lparr>st_client = sample_client, st_redis = []\<rparr> = (Inl ''redis connection'', s2)"
  using renewal_stops_on_outage [of sample_acme "list_redis\<lparr>rd_connects := (\<lambda>_. False)\<rparr>" sample_certd "[''ex.org'']" 0
      "\<lparr>st_client = sample_client, st_redis = []\<rparr>" "\<lparr>st_client = sample_client, st_redis = []\<rparr>"]
  by (auto simp: ret_def)

section \<open>Configuration and interface\<close>

text \<open>A missing table gets no field defaults: the loop then never pauses between two rounds.\<close>

lemma missing_certd_table:
  assumes "certd_config d = Some c" and "dcc_certd d = None"
  shows "cd_renewal_interval (cc_certd c) = 0 \<and> cd_port (cc_certd c) = 0"
  using assms by (auto simp: certd_config_def default_CertdConfig_def split: option.splits)

lemma certd_domains_group:
  "d \<in> set (base_domains (certd_domains ss)) \<longleftrightarrow> (\<exists>s \<in> set ss. d = cs_domain s \<and> \<not> starts_with ''*.'' d)"
  by (induction ss rule: certd_domains.induct) (auto simp: base_domains_def wildcard_def starts_with_def)

text \<open>
  What the daemon's HTTP interface hands out: for a name with a stored certificate, anyone who can
  connect gets the record back whole, the private key included; for other names the reply is 404.
\<close>

theorem certd_serves_stored:
  assumes "cert_store L R" and "rd_connects R evs"
  shows "case load_stored L R d r of
       Some cert \<Rightarrow> \<exists>b. certd_handle L R evs cfg r ''GET'' (''/certs/'' @ d) = Done (200, b) \<and>
         Option.bind (json_parse L b) de_cert = Some cert
     | None \<Rightarrow> \<exists>b. certd_handle L R evs cfg r ''GET'' (''/certs/'' @ d) = Done (404, b)"
  using assms(2) cert_store.text_back [OF assms(1)] cert_store.de_cert_value [OF assms(1)]
  by (auto simp: certd_handle_def starts_with_def Let_def split: option.splits)

theorem certd_serves_stored_witness:
  "\<exists>b. certd_handle sample_acme list_redis [] \<lparr>cc_sites = [], cc_redis_url = [], cc_certd = sample_certd\<rparr>
        (store_cert sample_acme list_redis ''d'' (new_cert (''c'', ''k'') 7) []) ''GET'' ''/certs/d'' = Done (200, b) \<and>
     Option.bind (json_parse sample_acme b) de_cert = Some (new_cert (''c'', ''k'') 7)"
proof -
  let ?r = "store_cert sample_acme list_redis ''d'' (new_cert (''c'', ''k'') 7) []"
  have "load_stored sample_acme list_redis ''d'' ?r = Some (new_cert (''c'', ''k'') 7)"
    by (simp add: load_stored_def store_cert_def list_redis_def mr.text_back mr.de_cert_value del: sample_fields(6))
  then show ?thesis
    using certd_serves_stored [OF mr.cert_store_axioms, where evs = "[]" and d = "''d''" and r = ?r and
        cfg = "\<lparr>cc_sites = [], cc_redis_url = [], cc_certd = sample_certd\<rparr>"]
    by (simp add: list_redis_def)
qed

text \<open>\<open>POST /issue\<close> has no route.\<close>

lemma issue_route_missing: "\<exists>b. certd_handle L R evs cfg r ''POST'' ''/issue'' = Done (404, b)"
  by (simp add: certd_handle_def Let_def)

end
