(* ===== verification/Deployment.thy ===== *)
theory Deployment
  imports Cluster Certd
begin

text \<open>
  The whole deployment: the daemon of \<open>certd/acme.rs\<close> and the edges of \<open>nekoguard/src/main.rs\<close> over one
  Redis. The daemon works through its names one action at a time: it obtains a certificate and sets its
  record, then publishes the name, and between any two actions every edge may do what it does. The store
  changes only by the daemon, so what a round has loaded is what is stored until it sets a record itself.
\<close>

section \<open>Definitions\<close>

datatype stage = Issuing | Renewing

text \<open>
  What the loop makes of one name before it sets a record: an error that ends the loop, nothing to store, or
  a new certificate.
\<close>

definition obtain_cert ::
  "'k acme_lib \<Rightarrow> 'r cert_redis \<Rightarrow> string \<Rightarrow> string list \<Rightarrow> stage \<Rightarrow> string \<Rightarrow> 'r \<Rightarrow> 'k AcmeClient \<Rightarrow>
   (string + AcmeCert option) \<times> 'k AcmeClient" where
  "obtain_cert L R tok ds g d r c0 =
     (case g of
        Issuing \<Rightarrow>
          (case issue_cert L tok (cert_group ds d) c0 of
             (Inl e, c) \<Rightarrow> (Inr None, c)
           | (Inr p, c) \<Rightarrow>
               (case clock L (ac_events c) of
                  None \<Rightarrow> (Inl ''clock before epoch'', c)
                | Some now \<Rightarrow>
                    if rd_connects R (ac_events c) then (Inr (Some (new_cert p now)), c)
                    else (Inl ''redis connection'', c)))
      | Renewing \<Rightarrow>
          (case load_stored L R d r of
             None \<Rightarrow> (Inr None, c0)
           | Some cert \<Rightarrow>
               (case clock L (ac_events c0) of
                  None \<Rightarrow> (Inl ''clock before epoch'', c0)
                | Some now \<Rightarrow>
                    if renewal_due cert now then
                      (case issue_cert L tok (cert_group ds d) c0 of
                         (Inl e, c) \<Rightarrow> (Inr None, c)
                       | (Inr p, c) \<Rightarrow> (Inr (Some (new_cert p now)), c))
                    else (Inr None, c0))))"

text \<open>
  \<open>dp_todo\<close> are the names left in the pass, \<open>dp_stored\<close> the one whose record is set and which is not
  published yet; the loop has ended when \<open>dp_runs\<close> is false. \<open>Daemon heard\<close> is one action of the daemon,
  with whether Redis takes a publication: the loop disregards its failure.
\<close>

record ('k, 'r, 'c, 'p) deployment =
  dp_client :: "'k AcmeClient"
  dp_stage :: stage
  dp_todo :: "string list"
  dp_stored :: "string option"
  dp_runs :: bool
  dp_cluster :: "('r, 'c, 'p) cluster"

datatype 'r dep_event = Daemon bool | Edge "'r cluster_event"

fun edge_event :: "'r cluster_event \<Rightarrow> bool" where
  "edge_event (StoreWrite r) = False"
| "edge_event (Publish d) = False"
| "edge_event e = True"

fun dep_step ::
  "'k acme_lib \<Rightarrow> 'r cert_redis \<Rightarrow> ('r, 'c, 'p) cert_lib \<Rightarrow> CertdConfig \<Rightarrow> string list \<Rightarrow> 'r dep_event \<Rightarrow>
   ('k, 'r, 'c, 'p) deployment \<Rightarrow> ('k, 'r, 'c, 'p) deployment option" where
  "dep_step L R E cfg ds (Daemon heard) s =
     (if \<not> dp_runs s then None
      else case dp_stored s of
        Some d \<Rightarrow>
          map_option (\<lambda>cl. s\<lparr>dp_cluster := cl, dp_stored := None,
              dp_client := (dp_client s)\<lparr>ac_events := ac_events (dp_client s) @ [Published d]\<rparr>\<rparr>)
            (if heard then cluster_step E (Publish d) (dp_cluster s) else Some (dp_cluster s))
      | None \<Rightarrow>
          (case dp_todo s of
             d # todo \<Rightarrow>
               (case obtain_cert L R (cd_cloudflare_api_token cfg) ds (dp_stage s) d (cl_store (dp_cluster s)) (dp_client s) of
                  (Inl e, c) \<Rightarrow> Some (s\<lparr>dp_client := c, dp_runs := False\<rparr>)
                | (Inr None, c) \<Rightarrow> Some (s\<lparr>dp_client := c, dp_todo := todo\<rparr>)
                | (Inr (Some cert), c) \<Rightarrow>
                    map_option (\<lambda>cl. s\<lparr>dp_client := c, dp_todo := todo, dp_stored := Some d, dp_cluster := cl\<rparr>)
                      (cluster_step E (StoreWrite (store_cert L R d cert (cl_store (dp_cluster s)))) (dp_cluster s)))
           | [] \<Rightarrow>
               (let c = snd (pause (unat (cd_renewal_interval cfg)) (dp_client s)) in
                Some (s\<lparr>dp_client := c, dp_stage := Renewing, dp_todo := ds, dp_runs := rd_connects R (ac_events c)\<rparr>))))"
| "dep_step L R E cfg ds (Edge e) s =
     (if edge_event e then map_option (\<lambda>cl. s\<lparr>dp_cluster := cl\<rparr>) (cluster_step E e (dp_cluster s)) else None)"

fun dep_run ::
  "'k acme_lib \<Rightarrow> 'r cert_redis \<Rightarrow> ('r, 'c, 'p) cert_lib \<Rightarrow> CertdConfig \<Rightarrow> string list \<Rightarrow> 'r dep_event list \<Rightarrow>
   ('k, 'r, 'c, 'p) deployment \<Rightarrow> ('k, 'r, 'c, 'p) deployment option" where
  "dep_run L R E cfg ds [] s = Some s"
| "dep_run L R E cfg ds (e # es) s = Option.bind (dep_step L R E cfg ds e s) (dep_run L R E cfg ds es)"

text \<open>The publication that is still to come, as the daemon's next action.\<close>

definition announcement :: "('k, 'r, 'c, 'p) deployment \<Rightarrow> 'r dep_event list" where
  "announcement s = (if dp_stored s = None then [] else [Daemon True])"

section \<open>The daemon alone is the loop\<close>

text \<open>What the sequential model of the loop sees of a deployment.\<close>

definition alone :: "('k, 'r, 'c, 'p) deployment \<Rightarrow> ('k, 'r) certd_state" where
  "alone s = \<lparr>st_client = dp_client s, st_redis = cl_store (dp_cluster s)\<rparr>"

lemma alone_eq: "alone s = t \<longleftrightarrow> dp_client s = st_client t \<and> cl_store (dp_cluster s) = st_redis t"
  by (cases t) (auto simp: alone_def)

lemma body_obtain:
  "(case g of Issuing \<Rightarrow> issue_first L R tok ds d s | Renewing \<Rightarrow> renew_one L R tok ds d s) =
   (case obtain_cert L R tok ds g d (st_redis s) (st_client s) of
      (Inl e, c) \<Rightarrow> (Inl e, s\<lparr>st_client := c\<rparr>)
    | (Inr None, c) \<Rightarrow> (Inr (), s\<lparr>st_client := c\<rparr>)
    | (Inr (Some cert), c) \<Rightarrow> store_and_publish L R d cert (s\<lparr>st_client := c\<rparr>))"
  by (auto simp: obtain_cert_def issue_first_def renew_one_def split: stage.splits prod.splits sum.splits option.splits)

lemma dep_run_append: "dep_run L R E cfg ds (as @ bs) s = Option.bind (dep_run L R E cfg ds as s) (dep_run L R E cfg ds bs)"
proof (induction as arbitrary: s)
  case (Cons a as)
  then show ?case by (cases "dep_step L R E cfg ds a s") simp_all
qed simp

text \<open>The body of the loop for one name: one action, and a second one that publishes.\<close>

lemma daemon_name:
  assumes "dp_runs s" and "dp_stored s = None" and "dp_todo s = d # todo"
    and "(case dp_stage s of Issuing \<Rightarrow> issue_first L R (cd_cloudflare_api_token cfg) ds d (alone s)
      | Renewing \<Rightarrow> renew_one L R (cd_cloudflare_api_token cfg) ds d (alone s)) = (x, t)"
  shows "\<exists>n s'. dep_run L R E cfg ds (replicate n (Daemon True)) s = Some s' \<and> alone s' = t \<and>
    (if x = Inr () then dp_runs s' \<and> dp_stored s' = None \<and> dp_todo s' = todo \<and> dp_stage s' = dp_stage s else \<not> dp_runs s')"
proof -
  obtain y c where o: "obtain_cert L R (cd_cloudflare_api_token cfg) ds (dp_stage s) d (cl_store (dp_cluster s)) (dp_client s) = (y, c)"
    by fastforce
  have b: "(case (y, c) of
      (Inl e, c) \<Rightarrow> (Inl e, (alone s)\<lparr>st_client := c\<rparr>)
    | (Inr None, c) \<Rightarrow> (Inr (), (alone s)\<lparr>st_client := c\<rparr>)
    | (Inr (Some cert), c) \<Rightarrow> store_and_publish L R d cert ((alone s)\<lparr>st_client := c\<rparr>)) = (x, t)"
    using assms(4) unfolding body_obtain by (simp add: alone_def o)
  show ?thesis
  proof (cases "\<exists>cert. y = Inr (Some cert)")
    case True
    then show ?thesis using assms(1-3) o b
      by (intro exI [of _ "Suc (Suc 0)"]) (auto simp: alone_def store_and_publish_def)
  next
    case False
    then show ?thesis using assms(1-3) o b
      by (intro exI [of _ "Suc 0"]) (auto simp: alone_def split: sum.splits option.splits)
  qed
qed

lemma run_twice:
  "dep_run L R E cfg ds (replicate n a) s = Some s1 \<Longrightarrow> dep_run L R E cfg ds (replicate m a) s1 = Some s2 \<Longrightarrow>
   dep_run L R E cfg ds (replicate (n + m) a) s = Some s2"
  by (simp add: replicate_add dep_run_append)

lemma daemon_pass:
  assumes "dp_runs s" and "dp_stored s = None" and "dp_todo s = xs"
    and "each_io (case dp_stage s of Issuing \<Rightarrow> issue_first L R (cd_cloudflare_api_token cfg) ds
      | Renewing \<Rightarrow> renew_one L R (cd_cloudflare_api_token cfg) ds) xs (alone s) = (x, t)"
  shows "\<exists>n s'. dep_run L R E cfg ds (replicate n (Daemon True)) s = Some s' \<and> alone s' = t \<and>
    (if x = Inr () then dp_runs s' \<and> dp_stored s' = None \<and> dp_todo s' = [] else \<not> dp_runs s')"
  using assms
proof (induction xs arbitrary: s)
  case Nil
  then show ?case by (intro exI [of _ 0]) (auto simp: ret_def)
next
  case (Cons d xs)
  obtain y u where y: "(case dp_stage s of Issuing \<Rightarrow> issue_first L R (cd_cloudflare_api_token cfg) ds d (alone s)
      | Renewing \<Rightarrow> renew_one L R (cd_cloudflare_api_token cfg) ds d (alone s)) = (y, u)"
    by fastforce
  from daemon_name [OF Cons.prems(1-3) this] obtain n s1 where
    n: "dep_run L R E cfg ds (replicate n (Daemon True)) s = Some s1" "alone s1 = u"
      "if y = Inr () then dp_runs s1 \<and> dp_stored s1 = None \<and> dp_todo s1 = xs \<and> dp_stage s1 = dp_stage s else \<not> dp_runs s1"
    by blast
  show ?case
  proof (cases y)
    case (Inl e)
    then show ?thesis using n y Cons.prems(4) by (auto simp: bind_io_def split: stage.splits)
  next
    case (Inr v)
    then have s1: "dp_runs s1" "dp_stored s1 = None" "dp_todo s1 = xs" "dp_stage s1 = dp_stage s" using n(3) by simp_all
    have "each_io (case dp_stage s1 of Issuing \<Rightarrow> issue_first L R (cd_cloudflare_api_token cfg) ds
      | Renewing \<Rightarrow> renew_one L R (cd_cloudflare_api_token cfg) ds) xs (alone s1) = (x, t)"
      using Cons.prems(4) y Inr n(2) s1(4) by (auto simp: bind_io_def split: stage.splits)
    from Cons.IH [OF s1(1-3) this] run_twice [OF n(1)] show ?thesis by blast
  qed
qed

lemma daemon_round:
  assumes "dp_runs s" and "dp_stored s = None" and "dp_todo s = []" and "renew_round L R cfg ds (alone s) = (x, t)"
  shows "\<exists>n s'. dep_run L R E cfg ds (replicate n (Daemon True)) s = Some s' \<and> alone s' = t \<and>
    (if x = Inr () then dp_runs s' \<and> dp_stored s' = None \<and> dp_todo s' = [] else \<not> dp_runs s')"
proof -
  let ?c = "snd (pause (unat (cd_renewal_interval cfg)) (dp_client s))"
  let ?s1 = "s\<lparr>dp_client := ?c, dp_stage := Renewing, dp_todo := ds, dp_runs := rd_connects R (ac_events ?c)\<rparr>"
  have 1: "dep_run L R E cfg ds (replicate 1 (Daemon True)) s = Some ?s1" using assms(1-3) by (simp add: Let_def)
  have a: "alone ?s1 = (alone s)\<lparr>st_client := ?c\<rparr>" by (simp add: alone_def)
  show ?thesis
  proof (cases "rd_connects R (ac_events ?c)")
    case True
    then have "each_io (case dp_stage ?s1 of Issuing \<Rightarrow> issue_first L R (cd_cloudflare_api_token cfg) ds
      | Renewing \<Rightarrow> renew_one L R (cd_cloudflare_api_token cfg) ds) ds (alone ?s1) = (x, t)"
      using assms(4) by (simp add: renew_round_def Let_def alone_def)
    moreover have "dp_runs ?s1" "dp_stored ?s1 = None" "dp_todo ?s1 = ds" using True assms(2) by simp_all
    ultimately show ?thesis using daemon_pass [of ?s1 ds L R cfg ds x t E] run_twice [OF 1] by blast
  next
    case False
    then have "x = Inl ''redis connection''" "t = alone ?s1"
      using assms(4) by (auto simp: renew_round_def Let_def alone_def)
    then show ?thesis using 1 False by (intro exI [of _ 1] exI [of _ ?s1]) simp
  qed
qed

lemma daemon_rounds:
  assumes "dp_runs s" and "dp_stored s = None" and "dp_todo s = []" and "renew_rounds L R cfg ds k (alone s) = (x, t)"
  shows "\<exists>n s'. dep_run L R E cfg ds (replicate n (Daemon True)) s = Some s' \<and> alone s' = t"
  using assms
proof (induction k arbitrary: s)
  case 0
  then show ?case by (intro exI [of _ 0]) (auto simp: ret_def)
next
  case (Suc k)
  obtain y u where y: "renew_round L R cfg ds (alone s) = (y, u)" by fastforce
  from daemon_round [OF Suc.prems(1-3) this] obtain n s1 where
    n: "dep_run L R E cfg ds (replicate n (Daemon True)) s = Some s1" "alone s1 = u"
      "if y = Inr () then dp_runs s1 \<and> dp_stored s1 = None \<and> dp_todo s1 = [] else \<not> dp_runs s1"
    by blast
  show ?case
  proof (cases y)
    case (Inl e)
    then show ?thesis using n y Suc.prems(4) by (auto simp: bind_io_def)
  next
    case (Inr v)
    then have s1: "dp_runs s1" "dp_stored s1 = None" "dp_todo s1 = []" using n(3) by simp_all
    have "renew_rounds L R cfg ds k (alone s1) = (x, t)" using Suc.prems(4) y Inr n(2) by (simp add: bind_io_def)
    from Suc.IH [OF s1 this] run_twice [OF n(1)] show ?thesis by blast
  qed
qed

definition deployed :: "'k AcmeClient \<Rightarrow> string list \<Rightarrow> ('r, 'c, 'p) cluster \<Rightarrow> ('k, 'r, 'c, 'p) deployment" where
  "deployed client ds cl =
     \<lparr>dp_client = client, dp_stage = Issuing, dp_todo = base_domains ds, dp_stored = None, dp_runs = True, dp_cluster = cl\<rparr>"

lemma daemon_loop:
  assumes "acme_new L (cd_contact_email cfg) evs0 = (Inr client, evs1)"
    and "run_acme_loop L R cfg ds k evs0 (cl_store cl) = (x, evs, r)"
  shows "\<exists>n s'. dep_run L R E cfg ds (replicate n (Daemon True)) (deployed client ds cl) = Some s' \<and>
    ac_events (dp_client s') = evs \<and> cl_store (dp_cluster s') = r"
proof -
  let ?s = "deployed client ds cl"
  obtain t where t: "bind_io (each_io (issue_first L R (cd_cloudflare_api_token cfg) ds) (base_domains ds))
      (\<lambda>_. renew_rounds L R cfg ds k) (alone ?s) = (x, t)" "ac_events (st_client t) = evs" "st_redis t = r"
    using assms by (auto simp: run_acme_loop_def deployed_def alone_def split: prod.splits)
  obtain y u where y: "each_io (issue_first L R (cd_cloudflare_api_token cfg) ds) (base_domains ds) (alone ?s) = (y, u)"
    by fastforce
  then have "each_io (case dp_stage ?s of Issuing \<Rightarrow> issue_first L R (cd_cloudflare_api_token cfg) ds
      | Renewing \<Rightarrow> renew_one L R (cd_cloudflare_api_token cfg) ds) (base_domains ds) (alone ?s) = (y, u)"
    by (simp add: deployed_def)
  from daemon_pass [OF _ _ _ this, of E] obtain n s1 where
    n: "dep_run L R E cfg ds (replicate n (Daemon True)) ?s = Some s1" "alone s1 = u"
      "if y = Inr () then dp_runs s1 \<and> dp_stored s1 = None \<and> dp_todo s1 = [] else \<not> dp_runs s1"
    by (auto simp: deployed_def)
  show ?thesis
  proof (cases y)
    case (Inl e)
    then have "alone s1 = t" using n(2) y t(1) by (simp add: bind_io_def)
    with n(1) t(2,3) show ?thesis unfolding alone_eq by metis
  next
    case (Inr v)
    then have s1: "dp_runs s1" "dp_stored s1 = None" "dp_todo s1 = []" using n(3) by simp_all
    have "renew_rounds L R cfg ds k (alone s1) = (x, t)" using t(1) y Inr n(2) by (simp add: bind_io_def)
    from daemon_rounds [OF s1 this, of E] obtain m s' where
      "dep_run L R E cfg ds (replicate m (Daemon True)) s1 = Some s'" "alone s' = t"
      by blast
    with run_twice [OF n(1)] t(2,3) show ?thesis unfolding alone_eq by metis
  qed
qed

section \<open>The edges follow\<close>

lemma dep_step_informed:
  assumes "dep_step L R E cfg ds e s = Some s'" and "informed E i (dp_stored s \<noteq> None) (dp_cluster s)"
    and "e \<noteq> Daemon False" and "e \<noteq> Edge (Disconnect i)" and "e \<noteq> Edge (EdgeStart i)"
  shows "informed E i (dp_stored s' \<noteq> None) (dp_cluster s')"
proof (cases e)
  case (Daemon heard)
  then show ?thesis
  proof (cases "dp_stored s")
    case None
    then show ?thesis
      using assms(1,2) Daemon informed_step [of E "StoreWrite r" "dp_cluster s" _ i False for r]
      by (auto simp: Let_def split: if_splits list.splits prod.splits sum.splits option.splits)
  next
    case (Some d)
    then show ?thesis
      using assms(1-3) Daemon informed_step [of E "Publish d" "dp_cluster s" _ i True]
      by (auto split: if_splits)
  qed
next
  case (Edge ev)
  then obtain cl where cl: "cluster_step E ev (dp_cluster s) = Some cl" "edge_event ev" "s' = s\<lparr>dp_cluster := cl\<rparr>"
    using assms(1) by (auto split: if_splits)
  then have "unannounced b [ev] = b" for b by (cases ev) simp_all
  with cl informed_step [OF cl(1) assms(2)] assms(4,5) Edge show ?thesis by simp
qed

lemma dep_run_informed:
  assumes "dep_run L R E cfg ds es s = Some s'" and "informed E i (dp_stored s \<noteq> None) (dp_cluster s)"
    and "Daemon False \<notin> set es" and "Edge (Disconnect i) \<notin> set es" and "Edge (EdgeStart i) \<notin> set es"
  shows "informed E i (dp_stored s' \<noteq> None) (dp_cluster s')"
  using assms
proof (induction es arbitrary: s)
  case (Cons e es)
  then obtain s1 where "dep_step L R E cfg ds e s = Some s1" "dep_run L R E cfg ds es s1 = Some s'"
    by (auto simp: bind_eq_Some_conv)
  with Cons dep_step_informed [of L R E cfg ds e s s1 i] show ?case by (metis list.set_intros(1,2))
qed simp

lemma dep_step_runs: "dep_step L R E cfg ds e s = Some s' \<Longrightarrow> dp_stored s \<noteq> None \<longrightarrow> dp_runs s \<Longrightarrow> dp_stored s' \<noteq> None \<longrightarrow> dp_runs s'"
  by (cases e) (auto simp: Let_def split: if_splits list.splits prod.splits sum.splits option.splits)

lemma dep_run_runs:
  "dep_run L R E cfg ds es s = Some s' \<Longrightarrow> dp_stored s \<noteq> None \<longrightarrow> dp_runs s \<Longrightarrow> dp_stored s' \<noteq> None \<longrightarrow> dp_runs s'"
proof (induction es arbitrary: s)
  case (Cons e es)
  then obtain s1 where "dep_step L R E cfg ds e s = Some s1" "dep_run L R E cfg ds es s1 = Some s'"
    by (auto simp: bind_eq_Some_conv)
  with Cons dep_step_runs show ?case by metis
qed simp

text \<open>Handling every message, with connections that open, ends with what the store then has.\<close>

lemma drained:
  assumes "es_inbox (cl_edges (dp_cluster s) i) = Some box" and "build_tls_config E (cl_store (dp_cluster s)) = Done m"
    and "es_certs (cl_edges (dp_cluster s) i) \<noteq> None"
    and "box \<noteq> [] \<or> current E i (dp_cluster s)"
  shows "\<exists>s'. dep_run L R E cfg ds (replicate (length box) (Edge (Deliver i True True))) s = Some s' \<and>
    es_certs (cl_edges (dp_cluster s') i) = Some m \<and> es_inbox (cl_edges (dp_cluster s') i) = Some [] \<and>
    cl_store (dp_cluster s') = cl_store (dp_cluster s)"
  using assms
proof (induction box arbitrary: s)
  case Nil
  then show ?case by (simp add: current_def)
next
  case (Cons d box)
  let ?s1 = "s\<lparr>dp_cluster := set_edge i \<lparr>es_certs = Some m, es_inbox = Some box\<rparr> (dp_cluster s)\<rparr>"
  have 1: "dep_step L R E cfg ds (Edge (Deliver i True True)) s = Some ?s1"
    using Cons.prems by (simp add: load_tls_config_raw_def loaded_def)
  have "\<exists>s'. dep_run L R E cfg ds (replicate (length box) (Edge (Deliver i True True))) ?s1 = Some s' \<and>
    es_certs (cl_edges (dp_cluster s') i) = Some m \<and> es_inbox (cl_edges (dp_cluster s') i) = Some [] \<and>
    cl_store (dp_cluster s') = cl_store (dp_cluster ?s1)"
    by (rule Cons.IH) (use Cons.prems in \<open>simp_all add: current_def\<close>)
  then show ?case unfolding length_Cons replicate_Suc dep_run.simps 1 bind.bind_lunit by simp
qed

lemma settled:
  assumes "informed E i (dp_stored s \<noteq> None) (dp_cluster s)" and "dp_stored s \<noteq> None \<longrightarrow> dp_runs s"
    and "es_certs (cl_edges (dp_cluster s) i) \<noteq> None" and "build_tls_config E (cl_store (dp_cluster s)) = Done m"
  shows "\<exists>n s'. dep_run L R E cfg ds (announcement s @ replicate n (Edge (Deliver i True True))) s = Some s' \<and>
    es_certs (cl_edges (dp_cluster s') i) = Some m \<and> es_inbox (cl_edges (dp_cluster s') i) = Some [] \<and>
    cl_store (dp_cluster s') = cl_store (dp_cluster s)"
proof -
  obtain box where box: "es_inbox (cl_edges (dp_cluster s) i) = Some box"
    "box \<noteq> [] \<or> dp_stored s \<noteq> None \<or> current E i (dp_cluster s)"
    using assms(1,3) by (auto simp: informed_def)
  show ?thesis
  proof (cases "dp_stored s")
    case None
    then have "box \<noteq> [] \<or> current E i (dp_cluster s)" using box(2) by simp
    from drained [OF box(1) assms(4,3) this] None show ?thesis unfolding announcement_def by fastforce
  next
    case (Some d)
    then obtain s1 where s1: "dep_step L R E cfg ds (Daemon True) s = Some s1"
      "cl_store (dp_cluster s1) = cl_store (dp_cluster s)" "es_inbox (cl_edges (dp_cluster s1) i) = Some (box @ [d])"
      "es_certs (cl_edges (dp_cluster s1) i) = es_certs (cl_edges (dp_cluster s) i)"
      using assms(2) box(1) by simp
    have "\<exists>s'. dep_run L R E cfg ds (replicate (length (box @ [d])) (Edge (Deliver i True True))) s1 = Some s' \<and>
      es_certs (cl_edges (dp_cluster s') i) = Some m \<and> es_inbox (cl_edges (dp_cluster s') i) = Some [] \<and>
      cl_store (dp_cluster s') = cl_store (dp_cluster s1)"
      by (rule drained) (use s1 assms(3,4) in simp_all)
    then obtain s' where "dep_run L R E cfg ds (replicate (length (box @ [d])) (Edge (Deliver i True True))) s1 = Some s'"
      "es_certs (cl_edges (dp_cluster s') i) = Some m" "es_inbox (cl_edges (dp_cluster s') i) = Some []"
      "cl_store (dp_cluster s') = cl_store (dp_cluster s)"
      using s1(2) by metis
    moreover have "announcement s = [Daemon True]" using Some by (simp add: announcement_def)
    ultimately show ?thesis using s1(1)
      by (intro exI [of _ "length (box @ [d])"] exI [of _ s'] conjI) (simp_all only: append.simps dep_run.simps bind.bind_lunit)
  qed
qed

section \<open>What the store comes to hold\<close>

lemma obtained_issued:
  assumes "obtain_cert L R tok ds g d r c = (Inr (Some cert), c')"
  shows "issued_for L tok ds d cert"
  using assms by (auto simp: obtain_cert_def issued_for_def split: stage.splits prod.splits sum.splits option.splits if_splits)

lemma edge_store: "cluster_step E e s = Some s' \<Longrightarrow> edge_event e \<Longrightarrow> cl_store s' = cl_store s"
  by (cases e) (auto split: if_splits option.splits list.splits)

context cert_store
begin

lemma dep_step_store:
  assumes "dep_step L R E cfg ds e s = Some s'" and "set (dp_todo s) \<subseteq> set ds"
  shows "set (dp_todo s') \<subseteq> set ds \<and>
    only_issued L R (cd_cloudflare_api_token cfg) ds (set ds) (cl_store (dp_cluster s)) (cl_store (dp_cluster s'))"
proof (cases "cl_store (dp_cluster s') = cl_store (dp_cluster s)")
  case True
  have "set (dp_todo s') \<subseteq> set ds"
    using assms by (cases e) (auto simp: Let_def split: if_splits list.splits prod.splits sum.splits option.splits)
  with True show ?thesis by (simp add: only_issued_refl)
next
  case False
  then obtain d todo cert c where d: "dp_todo s = d # todo"
    "obtain_cert L R (cd_cloudflare_api_token cfg) ds (dp_stage s) d (cl_store (dp_cluster s)) (dp_client s) = (Inr (Some cert), c)"
    "dp_todo s' = todo" "cl_store (dp_cluster s') = store_cert L R d cert (cl_store (dp_cluster s))"
    using assms(1) by (cases e)
      (auto simp: Let_def split: if_splits list.splits prod.splits sum.splits option.splits dest!: edge_store)
  have "d \<in> set ds" using d(1) assms(2) by auto
  with obtained_issued [OF d(2)] load_same [of d cert "cl_store (dp_cluster s)"]
    load_other [of _ d cert "cl_store (dp_cluster s)"] d(1,3,4) assms(2)
  show ?thesis by (auto simp: only_issued_def) metis+
qed

lemma dep_run_store:
  "dep_run L R E cfg ds es s = Some s' \<Longrightarrow> set (dp_todo s) \<subseteq> set ds \<Longrightarrow>
   only_issued L R (cd_cloudflare_api_token cfg) ds (set ds) (cl_store (dp_cluster s)) (cl_store (dp_cluster s'))"
proof (induction es arbitrary: s)
  case Nil
  then show ?case by (simp add: only_issued_refl)
next
  case (Cons e es)
  then obtain s1 where "dep_step L R E cfg ds e s = Some s1" "dep_run L R E cfg ds es s1 = Some s'"
    by (auto simp: bind_eq_Some_conv)
  with Cons dep_step_store [of E cfg ds e s s1] show ?case using only_issued_trans by metis
qed

end

end
