(* ===== verification/System.thy ===== *)
theory System
  imports Handler "HOL-Library.Multiset"
begin

text \<open>
  The running server of \<open>nekoguard/src/main.rs\<close>: the requests its connections hand to \<open>handle\<close> and the
  ticks of the task that sweeps the challenge store, as one sequence. A request touches the challenge
  store at most once, so every interleaving of concurrent connections has the effect on it of one of
  these sequences.
\<close>

section \<open>Definitions\<close>

datatype 'h server_event =
    Serve readings ipaddr "'h Request"
  | Tick nat

fun serve ::
  "('h, 'r) server \<Rightarrow> 'h server_event list \<Rightarrow> ('h, 'r) world \<Rightarrow>
   (('h Request \<times> 'h Response) list \<times> ('h, 'r) world) outcome" where
  "serve S [] w = Done ([], w)"
| "serve S (Tick now # es) w = serve S es (w\<lparr>w_challenges := sweep now (w_challenges w)\<rparr>)"
| "serve S (Serve T peer req # es) w =
     bind_outcome (handle S T peer req w) (\<lambda>(r, w1).
       bind_outcome (serve S es w1) (\<lambda>(rs, w2). Done ((req, r) # rs, w2)))"

section \<open>What a run does to the challenge store\<close>

text \<open>The store operations a request stands for, read off the request alone.\<close>

definition asks_challenge :: "'h Request \<Rightarrow> bool" where
  "asks_challenge req \<longleftrightarrow> uri_path (req_uri req) = ''/__ng/challenge'' \<and> req_method req = ''GET''"

definition posts_solution :: "'h Request \<Rightarrow> bool" where
  "posts_solution req \<longleftrightarrow> uri_path (req_uri req) = ''/__ng/verify'' \<and> req_method req = ''POST''"

fun store_events :: "('h, 'r) server \<Rightarrow> 'h server_event \<Rightarrow> pow_event list" where
  "store_events S (Tick now) = [Sweep now]"
| "store_events S (Serve T peer req) =
     (if posts_solution req then
        (case submission S (req_body req) of
           Some p \<Rightarrow> [Submit (vp_challenge p) (vp_nonce p) (now_inst T)]
         | None \<Rightarrow> [])
      else if asks_challenge req \<or> \<not> local_route req \<and> \<not> cleared S T peer req then
        [Issue (rnd_challenge T) (now_inst T) CHALLENGE_TTL]
      else [])"

definition granted :: "'h Request \<times> 'h Response \<Rightarrow> bool" where
  "granted x \<longleftrightarrow> posts_solution (fst x) \<and> status (snd x) = 200"

text \<open>The challenge that was paid with.\<close>

definition paid_with :: "('h, 'r) server \<Rightarrow> 'h Request \<times> 'h Response \<Rightarrow> string" where
  "paid_with S x = vp_challenge (the (submission S (req_body (fst x))))"

text \<open>The names of the challenges a run puts into the store.\<close>

fun issued_names :: "(u8 list \<Rightarrow> string) \<Rightarrow> pow_event list \<Rightarrow> string list" where
  "issued_names hx [] = []"
| "issued_names hx (Issue bs now t # es) = hx bs # issued_names hx es"
| "issued_names hx (e # es) = issued_names hx es"

lemma issued_names_append [simp]: "issued_names hx (as @ bs) = issued_names hx as @ issued_names hx bs"
  by (induction hx as rule: issued_names.induct) auto

lemma issued_count: "issued hx es c = count_list (issued_names hx es) c"
  by (induction hx es c rule: issued.induct) auto

lemma pow_run_append:
  "pow_run hx sha (as @ bs) m =
     bind_outcome (pow_run hx sha as m) (\<lambda>(acc, m1).
       bind_outcome (pow_run hx sha bs m1) (\<lambda>(acc', m2). Done (acc @ acc', m2)))"
proof (induction hx sha as m rule: pow_run.induct)
  case (1 hx sha m)
  then show ?case by (cases "pow_run hx sha bs m") auto
next
  case (4 hx sha c n now es m)
  then show ?case
    by (cases "check_pow sha c n now m") (auto simp: bind_outcome_assoc split: prod.splits intro!: bind_outcome_ext)
qed auto

lemma local_unchanged:
  assumes "handle S T peer req w = Done (r, w')" and "local_route req"
    and "\<not> asks_challenge req" and "\<not> posts_solution req"
  shows "w_challenges w' = w_challenges w"
  using assms
  by (auto simp: handle_def local_route_def Let_def asks_challenge_def posts_solution_def favicon_route_def
      split: if_splits prod.splits)

lemma forward_challenges:
  "forward S T req allowed byp ipo ups w = Done (r, w') \<Longrightarrow> w_challenges w' = w_challenges w"
  by (auto simp: forward_def Let_def log_request_def split: prod.splits option.splits if_splits)

text \<open>One call of \<open>handle\<close> is one step of the store.\<close>

lemma handle_simulates:
  assumes d: "digest32 (e_sha (s_embed S))" and h: "handle S T peer req w = Done (r, w')"
  shows "\<exists>acc. pow_run (e_hex (s_embed S)) (e_sha (s_embed S)) (store_events S (Serve T peer req)) (w_challenges w) =
      Done (acc, w_challenges w') \<and> acc = map (paid_with S) (filter granted [(req, r)])"
proof -
  obtain a where a: "real_ip (s_http S) (req_headers req) peer = Some a"
    using real_ip_Some [of "s_http S" "req_headers req" peer] by auto
  consider (post) "posts_solution req" | (get) "asks_challenge req" "\<not> posts_solution req"
    | (local) "local_route req" "\<not> asks_challenge req" "\<not> posts_solution req"
    | (gate) "\<not> local_route req" by blast
  then show ?thesis
  proof cases
    case post
    then have v: "verify_route S T (req_body req) (Some a) w = Done (r, w')"
      using h a by (simp add: handle_def posts_solution_def Let_def)
    show ?thesis
    proof (cases "submission S (req_body req)")
      case None
      then have "w' = w" "status r = 400" using v by (auto simp: verify_route_eq [OF d] text_resp_def)
      with post None show ?thesis by (simp add: granted_def)
    next
      case (Some p)
      then show ?thesis using v post
        by (auto simp: verify_route_eq [OF d] Let_def text_resp_def bind_outcome_Done check_pow_eq [OF d]
            solved_def granted_def paid_with_def split: if_splits option.splits)
    qed
  next
    case get
    then have "challenge_route S T w = Done (r, w')"
      using h by (simp add: handle_def asks_challenge_def starts_with_def Let_def)
    with get show ?thesis
      by (auto simp: challenge_route_def new_challenge_def Let_def granted_def)
  next
    case local
    then show ?thesis using local_unchanged [OF h] by (simp add: granted_def)
  next
    case gate
    then have n: "\<not> posts_solution req" "\<not> asks_challenge req"
      by (auto simp: local_route_def posts_solution_def asks_challenge_def Let_def)
    show ?thesis
    proof (cases "cleared S T peer req")
      case True
      then show ?thesis using h n gate by (auto simp: handle_gate Let_def granted_def dest: forward_challenges)
    next
      case False
      then obtain ups where "interstitial S T req ups w = Done (r, w')" using h gate by (auto simp: handle_gate Let_def)
      then have "w_challenges w' = (w_challenges w)(e_hex (s_embed S) (rnd_challenge T) \<mapsto> now_inst T + CHALLENGE_TTL)"
        using interstitial_issues [of S T req ups w] by auto
      then show ?thesis using n gate False by (simp add: new_challenge_def Let_def granted_def)
    qed
  qed
qed

lemma serve_simulates:
  assumes d: "digest32 (e_sha (s_embed S))"
  shows "serve S es w = Done (rs, w') \<Longrightarrow>
    \<exists>acc. pow_run (e_hex (s_embed S)) (e_sha (s_embed S)) (concat (map (store_events S) es)) (w_challenges w) =
      Done (acc, w_challenges w') \<and> acc = map (paid_with S) (filter granted rs)"
proof (induction es arbitrary: w rs)
  case (Cons e es)
  show ?case
  proof (cases e)
    case (Tick now)
    with Cons show ?thesis by fastforce
  next
    case (Serve T peer req)
    obtain r w1 rs1 where h: "handle S T peer req w = Done (r, w1)" and s: "serve S es w1 = Done (rs1, w')"
      and rs: "rs = (req, r) # rs1"
      using Cons.prems Serve by (auto simp: bind_outcome_Done)
    from handle_simulates [OF d h] Cons.IH [OF s] rs Serve show ?thesis
      by (auto simp: pow_run_append simp del: store_events.simps)
  qed
qed simp

lemma serve_total:
  assumes "digest32 (e_sha (s_embed S))" and "seal_lib_ok (s_seal S) (key (s_session S))"
    and "b64_clean (s_seal S)" and "cookie_text (cookie_name (s_session S))" and "printable_ok (s_http S)"
  shows "\<exists>rs w'. serve S es w = Done (rs, w') \<and>
    map fst rs = concat (map (\<lambda>e. case e of Serve T peer req \<Rightarrow> [req] | Tick now \<Rightarrow> []) es)"
proof (induction es arbitrary: w)
  case (Cons e es)
  show ?case
  proof (cases e)
    case (Serve T peer req)
    obtain r w1 where "handle S T peer req w = Done (r, w1)" using handle_never_panics [OF assms] by blast
    with Cons [of w1] Serve show ?thesis by fastforce
  qed (use Cons in simp)
qed simp

text \<open>A client that asks for a challenge and posts its solution twice.\<close>

definition twice :: "(string \<times> string) list server_event list" where
  "twice =
     (let get = sample_request\<lparr>req_uri := (req_uri sample_request)\<lparr>uri_path := ''/__ng/challenge''\<rparr>\<rparr>;
          post = sample_request\<lparr>req_method := ''POST'', req_body := [Some ''x''],
            req_uri := (req_uri sample_request)\<lparr>uri_path := ''/__ng/verify''\<rparr>\<rparr>
      in [Serve sample_readings (V4 1 2 3 4) get, Serve sample_readings (V4 1 2 3 4) post,
          Tick 5, Serve sample_readings (V4 1 2 3 4) post])"

lemma sample_ok:
  "digest32 (e_sha (s_embed sample_server))" "seal_lib_ok (s_seal sample_server) (key (s_session sample_server))"
  "b64_clean (s_seal sample_server)" "cookie_text (cookie_name (s_session sample_server))"
  "printable_ok (s_http sample_server)"
  by (simp_all add: sample_server_def digest32_def letter_seal_ok letter_seal_clean cookie_text_def
      visible_def code_def sample_env_def alist_http_def printable_ok_def list_all_iff)

lemma twice_events:
  "concat (map (store_events sample_server) twice) =
     [Issue [] 5 CHALLENGE_TTL, Submit ''c0'' ''1'' 5, Sweep 5, Submit ''c0'' ''1'' 5]"
proof -
  have "submission sample_server [Some ''x''] = Some \<lparr>vp_challenge = ''c0'', vp_nonce = ''1''\<rparr>"
    by (simp add: submission_def collect_limited_def MAX_VERIFY_BODY_def sample_server_def)
  then show ?thesis
    by (simp add: twice_def Let_def posts_solution_def asks_challenge_def sample_request_def sample_readings_def)
qed

lemma twice_runs: "\<exists>rs w'. serve sample_server twice (sample_world\<lparr>w_challenges := Map.empty\<rparr>) = Done (rs, w')"
  using serve_total [OF sample_ok] by blast

section \<open>Properties\<close>

text \<open>
  C7. The server implements its abstract store: over any sequence of requests and sweeps, the challenge
  store evolves as the store's own run on the operations that the requests stand for, and the answers
  that grant a cookie are, in order, the accepted submissions of that run.
\<close>

theorem server_refines_store:
  assumes "digest32 (e_sha (s_embed S))" and "serve S es w = Done (rs, w')"
  shows "pow_run (e_hex (s_embed S)) (e_sha (s_embed S)) (concat (map (store_events S) es)) (w_challenges w) =
    Done (map (paid_with S) (filter granted rs), w_challenges w')"
  using serve_simulates [OF assms] by simp

theorem server_refines_store_witness:
  "\<exists>rs w'. serve sample_server twice (sample_world\<lparr>w_challenges := Map.empty\<rparr>) = Done (rs, w') \<and>
     pow_run (\<lambda>_. ''c0'') (\<lambda>_. replicate 32 0)
       [Issue [] 5 CHALLENGE_TTL, Submit ''c0'' ''1'' 5, Sweep 5, Submit ''c0'' ''1'' 5] Map.empty =
     Done (map (paid_with sample_server) (filter granted rs), w_challenges w')"
proof -
  obtain rs w' where r: "serve sample_server twice (sample_world\<lparr>w_challenges := Map.empty\<rparr>) = Done (rs, w')"
    using twice_runs by blast
  from server_refines_store [OF sample_ok(1) r] show ?thesis
    unfolding twice_events using r by (intro exI conjI) (assumption, simp add: sample_server_def)
qed

text \<open>
  C8. Every clearance was paid for with a challenge of its own: from an empty store, whatever the clients
  send and however their requests and the sweeps interleave, the server answers no challenge's solution
  with a cookie more often than it issued that challenge, so it grants at most as many cookies as it
  issued challenges.
\<close>

theorem clearances_paid_for:
  assumes "digest32 (e_sha (s_embed S))" and "w_challenges w = Map.empty" and "serve S es w = Done (rs, w')"
  shows "mset (map (paid_with S) (filter granted rs)) \<subseteq>#
      mset (issued_names (e_hex (s_embed S)) (concat (map (store_events S) es))) \<and>
    length (filter granted rs) \<le> length (issued_names (e_hex (s_embed S)) (concat (map (store_events S) es)))"
proof -
  let ?acc = "map (paid_with S) (filter granted rs)"
  let ?names = "issued_names (e_hex (s_embed S)) (concat (map (store_events S) es))"
  have "pow_run (e_hex (s_embed S)) (e_sha (s_embed S)) (concat (map (store_events S) es)) Map.empty =
      Done (?acc, w_challenges w')"
    using serve_simulates [OF assms(1,3)] assms(2) by simp
  then have "count_list ?acc c \<le> count_list ?names c" for c
    using pow_run_bound [of _ _ _ Map.empty ?acc _ c] by (fastforce simp: issued_count)
  then have sub: "mset ?acc \<subseteq># mset ?names" by (intro mset_subset_eqI) (simp only: count_mset)
  then have "length ?acc \<le> length ?names" using size_mset_mono [OF sub] by (simp only: size_mset)
  with sub show ?thesis by (intro conjI) (assumption, simp only: length_map)
qed

theorem clearances_paid_for_witness:
  "\<exists>rs w'. serve sample_server twice (sample_world\<lparr>w_challenges := Map.empty\<rparr>) = Done (rs, w') \<and>
     length (filter granted rs) \<le> 1"
proof -
  obtain rs w' where r: "serve sample_server twice (sample_world\<lparr>w_challenges := Map.empty\<rparr>) = Done (rs, w')"
    using twice_runs by blast
  have e: "w_challenges (sample_world\<lparr>w_challenges := Map.empty\<rparr>) = Map.empty" by simp
  from clearances_paid_for [OF sample_ok(1) e r] r show ?thesis
    unfolding twice_events by simp
qed



end
