(* ===== verification/Guard_Js.thy ===== *)
theory Guard_Js
  imports Handler
begin

text \<open>
  The browser side: \<open>nekoguard/src/assets/guard.js\<close>, the script spliced into proxied documents, and the
  solver it shares with the interstitial page \<open>nekoguard/src/challenge.html\<close>.

  The solver is the loop over nonces, a partial function because nothing bounds it. The script is a state
  machine over its own variables; what the browser calls back (an intercepted request, a timer, the
  heartbeat, the end of a renewal) are its events, each with the clock reading of that moment in
  milliseconds. An intercepted request is an object of its own, here a number.
\<close>

section \<open>Definitions\<close>

subsection \<open>Solving\<close>

definition toHex :: "u8 list \<Rightarrow> string" where
  "toHex buf = concat (map (\<lambda>b. pad0 2 (radix 16 (unat b))) buf)"

text \<open>\<open>parseInt\<close> of a character beyond the end is not a number, and then no comparison holds.\<close>

definition meetsTarget :: "string \<Rightarrow> nat \<Rightarrow> bool" where
  "meetsTarget hash bits =
     (let full = bits div 4; rem = bits mod 4 in
      if take full hash \<noteq> replicate full (CHR ''0'') then False
      else if rem = 0 then True
      else full < length hash \<and>
        (case digit_val 16 (hash ! full) of Some v \<Rightarrow> v < 2 ^ (4 - rem) | None \<Rightarrow> False))"

text \<open>Adding one to a number of the language: exact up to \<open>2 ^ 53\<close>, where it stops.\<close>

definition js_succ :: "nat \<Rightarrow> nat" where
  "js_succ n = (if n < 2 ^ 53 then n + 1 else n)"

partial_function (option) solve_from :: "(string \<Rightarrow> u8 list) \<Rightarrow> string \<Rightarrow> nat \<Rightarrow> nat \<Rightarrow> string option" where
  "solve_from sha challenge bits nonce =
     (if meetsTarget (toHex (sha (challenge @ dec nonce))) bits then Some (dec nonce)
      else solve_from sha challenge bits (js_succ nonce))"

definition solve :: "(string \<Rightarrow> u8 list) \<Rightarrow> string \<Rightarrow> nat \<Rightarrow> string option" where
  "solve sha challenge bits = solve_from sha challenge bits 0"

subsection \<open>Configuration\<close>

text \<open>What the preamble in front of the script supplies wins over the literals, member by member.\<close>

record guard_cfg =
  gc_bits :: nat
  gc_ttl :: nat
  gc_renew :: string
  gc_verify :: string
  gc_cookie :: string

record guard_supplied =
  gs_bits :: "nat option"
  gs_ttl :: "nat option"
  gs_renew :: "string option"
  gs_verify :: "string option"
  gs_cookie :: "string option"

definition guard_defaults :: guard_cfg where
  "guard_defaults =
     \<lparr>gc_bits = 14, gc_ttl = 1800, gc_renew = ''/__ng/challenge'', gc_verify = ''/__ng/verify'',
      gc_cookie = ''nekoguard_session''\<rparr>"

definition load_cfg :: "guard_supplied option \<Rightarrow> guard_cfg" where
  "load_cfg supplied =
     (case supplied of
        None \<Rightarrow> guard_defaults
      | Some g \<Rightarrow>
          \<lparr>gc_bits = unwrap_or (gc_bits guard_defaults) (gs_bits g),
           gc_ttl = unwrap_or (gc_ttl guard_defaults) (gs_ttl g),
           gc_renew = unwrap_or (gc_renew guard_defaults) (gs_renew g),
           gc_verify = unwrap_or (gc_verify guard_defaults) (gs_verify g),
           gc_cookie = unwrap_or (gc_cookie guard_defaults) (gs_cookie g)\<rparr>)"

text \<open>The literals are the server's own values, so a missing preamble changes nothing at the default time to live.\<close>

lemma guard_defaults_agree:
  "gc_bits guard_defaults = DIFFICULTY \<and> gc_ttl guard_defaults = unat (cfg_ttl default_SessionConfig)"
  by (simp add: guard_defaults_def DIFFICULTY_def default_SessionConfig_def default_session_ttl_def)

subsection \<open>The script's state\<close>

definition BUFFER_MS :: nat where "BUFFER_MS = 5 * 60 * 1000"
definition HEARTBEAT_MS :: nat where "HEARTBEAT_MS = 30 * 1000"
definition MAX_QUEUE_WAIT_MS :: nat where "MAX_QUEUE_WAIT_MS = 30 * 1000"
definition SLEEP_SLACK_MS :: nat where "SLEEP_SLACK_MS = 2 * HEARTBEAT_MS + 5 * 1000"

text \<open>
  \<open>g_done\<close> lists the requests that were let go, in order, with whether they were sent or failed;
  \<open>g_timers\<close> are the time-outs that are set.
\<close>

record guard =
  g_ttl :: nat
  g_loadedAt :: nat
  g_solver :: bool
  g_queue :: "nat list"
  g_timers :: "(nat \<times> nat) list"
  g_lastTick :: nat
  g_loggedFailure :: bool
  g_done :: "(nat \<times> bool) list"

definition expiresAt :: "guard \<Rightarrow> nat" where
  "expiresAt s = g_loadedAt s + g_ttl s * 1000"

definition isExpired :: "nat \<Rightarrow> guard \<Rightarrow> bool" where
  "isExpired now s \<longleftrightarrow> now \<ge> expiresAt s"

definition renewDeadline :: "guard \<Rightarrow> int" where
  "renewDeadline s = int (expiresAt s) - int BUFFER_MS"

definition needsRenewal :: "nat \<Rightarrow> guard \<Rightarrow> bool" where
  "needsRenewal now s \<longleftrightarrow> int now \<ge> renewDeadline s"

subsection \<open>Queue and renewal\<close>

definition releaseOne :: "nat \<Rightarrow> bool \<Rightarrow> guard \<Rightarrow> guard" where
  "releaseOne entry aborted s =
     (if entry \<notin> set (g_queue s) then s
      else s\<lparr>g_queue := remove1 entry (g_queue s), g_done := g_done s @ [(entry, \<not> aborted)]\<rparr>)"

definition release :: "bool \<Rightarrow> guard \<Rightarrow> guard" where
  "release aborted s = fold (\<lambda>e. releaseOne e aborted) (g_queue s) s"

definition enqueue :: "nat \<Rightarrow> nat \<Rightarrow> guard \<Rightarrow> guard" where
  "enqueue now entry s =
     s\<lparr>g_queue := g_queue s @ [entry], g_timers := g_timers s @ [(entry, now + MAX_QUEUE_WAIT_MS)]\<rparr>"

text \<open>
  Starting a renewal. Without a native \<open>fetch\<close> the body fails before its first \<open>await\<close>: its \<open>finally\<close>
  runs before the variable is assigned, which so keeps the settled promise.
\<close>

definition renew :: "bool \<Rightarrow> guard \<Rightarrow> guard" where
  "renew has_fetch s =
     (if g_solver s then s
      else if has_fetch then s\<lparr>g_solver := True\<rparr>
      else (release True (s\<lparr>g_loggedFailure := True\<rparr>))\<lparr>g_solver := True\<rparr>)"

definition renewed :: "nat \<Rightarrow> nat \<Rightarrow> guard \<Rightarrow> guard" where
  "renewed now ttl' s =
     (release False (s\<lparr>g_loadedAt := now, g_ttl := ttl', g_loggedFailure := False\<rparr>))\<lparr>g_solver := False\<rparr>"

definition renewal_failed :: "guard \<Rightarrow> guard" where
  "renewal_failed s = (release True (s\<lparr>g_loggedFailure := True\<rparr>))\<lparr>g_solver := False\<rparr>"

definition gate :: "bool \<Rightarrow> nat \<Rightarrow> nat \<Rightarrow> guard \<Rightarrow> guard" where
  "gate has_fetch now entry s =
     (if \<not> isExpired now s then
        (let s1 = (if needsRenewal now s then renew has_fetch s else s) in
         s1\<lparr>g_done := g_done s1 @ [(entry, True)]\<rparr>)
      else renew has_fetch (enqueue now entry s))"

definition heartbeat :: "bool \<Rightarrow> nat \<Rightarrow> guard \<Rightarrow> guard" where
  "heartbeat has_fetch now s0 =
     (let elapsed = int now - int (g_lastTick s0); s = s0\<lparr>g_lastTick := now\<rparr> in
      if elapsed > int SLEEP_SLACK_MS then
        (if isExpired now s \<or> needsRenewal now s then renew has_fetch s else s)
      else if isExpired now s then renew has_fetch s
      else if needsRenewal now s then renew has_fetch s
      else s)"

definition guard_load :: "bool \<Rightarrow> nat \<Rightarrow> nat \<Rightarrow> guard" where
  "guard_load has_fetch now ttl0 =
     (let s = \<lparr>g_ttl = ttl0, g_loadedAt = now, g_solver = False, g_queue = [], g_timers = [], g_lastTick = now,
               g_loggedFailure = False, g_done = []\<rparr> in
      if needsRenewal now s then renew has_fetch s else s)"

subsection \<open>What a renewal exchanges with the server\<close>

text \<open>
  The asynchronous body of \<open>renew\<close>. \<open>get_challenge\<close> and \<open>post_verify\<close> are its two requests: an answer's
  status and text (no text when the body breaks off), or nothing when the network fails. \<open>read_json\<close> is the reading of the answer as JSON.
  The result is what the body sets \<open>cfg.ttl\<close> to, or \<^const>\<open>None\<close> when it throws; the outer option is the
  solver's.
\<close>

definition json_char :: "char \<Rightarrow> string" where
  "json_char c =
     (if c = CHR 0x22 then [CHR 0x5C, CHR 0x22]
      else if c = CHR 0x5C then [CHR 0x5C, CHR 0x5C]
      else if code c = 8 then CHR 0x5C # ''b''
      else if code c = 9 then CHR 0x5C # ''t''
      else if code c = 10 then CHR 0x5C # ''n''
      else if code c = 12 then CHR 0x5C # ''f''
      else if code c = 13 then CHR 0x5C # ''r''
      else if code c < 32 then CHR 0x5C # ''u'' @ pad0 4 (radix 16 (code c))
      else [c])"

definition json_string :: "string \<Rightarrow> string" where
  "json_string s = quote (concat (map json_char s))"

definition verify_body :: "string \<Rightarrow> string \<Rightarrow> string" where
  "verify_body challenge nonce =
     ''{'' @ quote ''challenge'' @ '':'' @ json_string challenge @ '','' @
       quote ''nonce'' @ '':'' @ json_string nonce @ ''}''"

record ChallengePayload =
  cp_challenge :: "string option"
  cp_ttl :: "nat option"
  cp_bits :: "nat option"

definition res_ok :: "nat \<Rightarrow> bool" where
  "res_ok st \<longleftrightarrow> 200 \<le> st \<and> st \<le> 299"

definition renewal ::
  "(string \<Rightarrow> u8 list) \<Rightarrow> (string \<Rightarrow> ChallengePayload option) \<Rightarrow>
   ('w \<Rightarrow> (nat \<times> string option) option \<times> 'w) \<Rightarrow> (string \<Rightarrow> 'w \<Rightarrow> (nat \<times> string option) option \<times> 'w) \<Rightarrow>
   nat \<Rightarrow> nat \<Rightarrow> 'w \<Rightarrow> (nat option \<times> 'w) option" where
  "renewal sha read_json get_challenge post_verify cfg_ttl0 cfg_bits0 w =
     (case get_challenge w of
        (None, w1) \<Rightarrow> Some (None, w1)
      | (Some (st, text), w1) \<Rightarrow>
          if \<not> res_ok st then Some (None, w1)
          else (case Option.bind text read_json of
             None \<Rightarrow> Some (None, w1)
           | Some payload \<Rightarrow>
               (case cp_challenge payload of
                  None \<Rightarrow> Some (None, w1)
                | Some challenge \<Rightarrow>
                    if challenge = [] then Some (None, w1)
                    else
                      (let ttl' = unwrap_or cfg_ttl0 (cp_ttl payload);
                           bits = unwrap_or cfg_bits0 (cp_bits payload)
                       in Option.bind (solve sha challenge bits) (\<lambda>nonce.
                         case post_verify (verify_body challenge nonce) w1 of
                           (None, w2) \<Rightarrow> Some (None, w2)
                         | (Some (st', _), w2) \<Rightarrow> Some (if res_ok st' then Some ttl' else None, w2))))))"

text \<open>The events; a renewal can end only while one is in flight, and a time-out fires when it is due.\<close>

datatype guard_event = Request nat | Renewed nat | RenewalFailed | Timeout nat | Heartbeat

inductive guard_step :: "bool \<Rightarrow> guard \<Rightarrow> nat \<times> guard_event \<Rightarrow> guard \<Rightarrow> bool" for F where
  request: "guard_step F s (now, Request e) (gate F now e s)"
| renewed: "g_solver s \<Longrightarrow> F \<Longrightarrow> guard_step F s (now, Renewed t) (renewed now t s)"
| failed: "g_solver s \<Longrightarrow> F \<Longrightarrow> guard_step F s (now, RenewalFailed) (renewal_failed s)"
| timeout: "(e, d) \<in> set (g_timers s) \<Longrightarrow> d \<le> now \<Longrightarrow>
    guard_step F s (now, Timeout e) (releaseOne e True (s\<lparr>g_timers := remove1 (e, d) (g_timers s)\<rparr>))"
| heartbeat: "guard_step F s (now, Heartbeat) (heartbeat F now s)"

inductive guard_run :: "bool \<Rightarrow> guard \<Rightarrow> (nat \<times> guard_event) list \<Rightarrow> guard \<Rightarrow> bool" for F where
  start: "guard_run F s [] s"
| step: "guard_run F s evs s1 \<Longrightarrow> guard_step F s1 ev s2 \<Longrightarrow> guard_run F s (evs @ [ev]) s2"

inductive_cases guard_stepE [elim!]: "guard_step F s (now, ev) s'"

fun requests_of :: "(nat \<times> guard_event) list \<Rightarrow> nat list" where
  "requests_of [] = []"
| "requests_of ((now, Request e) # evs) = e # requests_of evs"
| "requests_of (_ # evs) = requests_of evs"

section \<open>The target in the browser and on the server\<close>

definition nibble_bits :: "nat \<Rightarrow> bool list" where
  "nibble_bits n = map (\<lambda>j. bit n (3 - j)) [0..<4]"

definition nibbles :: "u8 list \<Rightarrow> nat list" where
  "nibbles ws = concat (map (\<lambda>w. [unat w div 16, unat w mod 16]) ws)"

lemma length_nibbles: "length (nibbles ws) = 2 * length ws"
  by (induction ws) (simp_all add: nibbles_def)

lemma nibbles_less: "n \<in> set (nibbles ws) \<Longrightarrow> n < 16"
proof -
  have "unat w < 256" for w :: u8 using unsigned_less [of w, where ?'a = nat] by simp
  then have "unat w div 16 < 16" for w :: u8 by (simp add: less_mult_imp_div_less)
  moreover have "unat w mod 16 < 16" for w :: u8 by simp
  ultimately show "n \<in> set (nibbles ws) \<Longrightarrow> n < 16" unfolding nibbles_def by auto
qed

lemma byte_bits_nibbles: "byte_bits w = nibble_bits (unat w div 16) @ nibble_bits (unat w mod 16)"
proof -
  have hi: "bit (unat w div 16) k = bit w (4 + k)" for k
    using bit_drop_bit_eq [of 4 "unat w"] by (simp add: drop_bit_eq_div fun_eq_iff bit_unsigned_iff)
  have lo: "bit (unat w mod 16) k = bit w k" if "k < 4" for k
    using that bit_take_bit_iff [of 4 "unat w" k] by (simp add: take_bit_eq_mod bit_unsigned_iff)
  show ?thesis by (simp add: byte_bits_def nibble_bits_def hi lo upt_rec)
qed

lemma concat_nibble_bits: "concat (map byte_bits ws) = concat (map nibble_bits (nibbles ws))"
  by (induction ws) (simp_all add: nibbles_def byte_bits_nibbles)

lemma digit_hex: "n < 16 \<Longrightarrow> pad0 2 (radix 16 n) = [digit 0, digit n]"
  by (subst radix.simps) (simp add: pad0_def digit_def char_of_def bit_0)

lemma toHex_nibbles: "toHex ws = map digit (nibbles ws)"
proof (induction ws)
  case (Cons w ws)
  let ?n = "unat w"
  have lt: "?n < 256" using unsigned_less [of w] by simp
  have "pad0 2 (radix 16 ?n) = [digit (?n div 16), digit (?n mod 16)]"
  proof (cases "?n < 16")
    case True
    then show ?thesis by (simp add: digit_hex)
  next
    case False
    then have "radix 16 ?n = radix 16 (?n div 16) @ [digit (?n mod 16)]" by (subst radix.simps) simp
    moreover have "radix 16 (?n div 16) = [digit (?n div 16)]" using lt by (subst radix.simps) (simp add: less_mult_imp_div_less)
    ultimately show ?thesis by (simp add: pad0_def)
  qed
  with Cons show ?case by (simp add: toHex_def nibbles_def)
qed (simp add: toHex_def nibbles_def)

lemma length_nibble_bits [simp]: "length (nibble_bits n) = 4"
  by (simp add: nibble_bits_def)

lemma length_concat_nibble_bits: "length (concat (map nibble_bits ns)) = 4 * length ns"
  by (induction ns) auto

lemma bits_value_nibble: "n < 16 \<Longrightarrow> bits_value (nibble_bits n) = n"
proof -
  assume "n < 16"
  moreover have "nibble_bits n = rev (map (bit n) [0..<4])"
    by (rule nth_equalityI) (auto simp: nibble_bits_def rev_nth)
  ultimately show ?thesis by (simp add: bits_value_rev horner_sum_bit_eq_take_bit take_bit_eq_mod)
qed

lemma digit_zero: "n < 16 \<Longrightarrow> digit n = CHR ''0'' \<longleftrightarrow> n = 0"
proof -
  assume "n < 16"
  then have "digit n = digit 0 \<longleftrightarrow> n = 0" using digit_val_digit [of n 16] digit_val_digit [of 0 16] by auto
  moreover have "digit 0 = CHR ''0''" by code_simp
  ultimately show ?thesis by simp
qed

lemma meetsTarget_step:
  "4 \<le> bits \<Longrightarrow> meetsTarget (c # cs) bits \<longleftrightarrow> c = CHR ''0'' \<and> meetsTarget cs (bits - 4)"
proof -
  assume "4 \<le> bits"
  then obtain b where "bits = b + 4" by (metis add.commute le_Suc_ex)
  then have "bits div 4 = Suc (b div 4)" "bits mod 4 = b mod 4" "bits - 4 = b" by auto
  then show ?thesis by (auto simp: meetsTarget_def Let_def)
qed

lemma leading_digit: "(r::nat) < m \<Longrightarrow> n * m + r < k * m \<longleftrightarrow> n < k"
  using div_less_iff_less_mult [of m "n * m + r" k] by simp

lemma meetsTarget_nibbles:
  "\<forall>n\<in>set ns. n < 16 \<Longrightarrow> bits \<le> 4 * length ns \<Longrightarrow>
   meetsTarget (map digit ns) bits \<longleftrightarrow> bits_value (concat (map nibble_bits ns)) < 2 ^ (4 * length ns - bits)"
proof (induction ns arbitrary: bits)
  case Nil
  then show ?case by (simp add: meetsTarget_def)
next
  case (Cons n ns)
  let ?r = "bits_value (concat (map nibble_bits ns))"
  let ?m = "2 ^ (4 * length ns) :: nat"
  have n: "n < 16" using Cons.prems by simp
  have r: "?r < ?m" using bits_value_less [of "concat (map nibble_bits ns)"] by (simp add: length_concat_nibble_bits)
  have v: "bits_value (concat (map nibble_bits (n # ns))) = n * ?m + ?r"
    using n by (simp add: bits_value_append bits_value_nibble length_concat_nibble_bits)
  show ?case
  proof (cases "4 \<le> bits")
    case True
    have le: "(2::nat) ^ (4 * length ns - (bits - 4)) \<le> ?m" by (rule power_increasing) auto
    have "n * ?m + ?r < 2 ^ (4 * length ns - (bits - 4)) \<longleftrightarrow> n = 0 \<and> ?r < 2 ^ (4 * length ns - (bits - 4))"
    proof (cases n)
      case (Suc k)
      then have "?m \<le> n * ?m + ?r" by simp
      with le have "2 ^ (4 * length ns - (bits - 4)) \<le> n * ?m + ?r" by (rule order_trans)
      with Suc show ?thesis by (simp del: mult_Suc)
    qed simp
    with True Cons n v show ?thesis by (simp add: meetsTarget_step digit_zero add.commute)
  next
    case False
    then have "(2::nat) ^ (4 * length (n # ns) - bits) = 2 ^ (4 - bits) * ?m"
      by (simp add: power_add [symmetric])
    moreover have "n * ?m + ?r < 2 ^ (4 - bits) * ?m \<longleftrightarrow> n < 2 ^ (4 - bits)"
      by (rule leading_digit [OF r])
    ultimately have "bits_value (concat (map nibble_bits (n # ns))) < 2 ^ (4 * length (n # ns) - bits) \<longleftrightarrow> n < 2 ^ (4 - bits)"
      using v by simp
    with False n show ?thesis by (cases "bits = 0") (auto simp: meetsTarget_def digit_val_digit)
  qed
qed

lemma meetsTarget_value:
  "bits \<le> 8 * length ws \<Longrightarrow> meetsTarget (toHex ws) bits \<longleftrightarrow> be_value ws < 2 ^ (8 * length ws - bits)"
  using meetsTarget_nibbles [of "nibbles ws" bits] nibbles_less
  by (simp add: toHex_nibbles length_nibbles be_value_bits concat_nibble_bits)

section \<open>The solver\<close>

lemma js_succ_small: "n < 2 ^ 53 \<Longrightarrow> js_succ n = Suc n"
  by (simp add: js_succ_def)

text \<open>What the loop finds is a nonce that meets the target, and no smaller one from the start does.\<close>

definition first_solution :: "(string \<Rightarrow> u8 list) \<Rightarrow> string \<Rightarrow> nat \<Rightarrow> nat \<Rightarrow> nat \<Rightarrow> bool" where
  "first_solution sha c bits n k \<longleftrightarrow>
     n \<le> k \<and> k \<le> 2 ^ 53 \<and> meetsTarget (toHex (sha (c @ dec k))) bits \<and>
     (\<forall>j. n \<le> j \<and> j < k \<longrightarrow> \<not> meetsTarget (toHex (sha (c @ dec j))) bits)"

lemma first_solution_step:
  "\<not> meetsTarget (toHex (sha (c @ dec n))) bits \<Longrightarrow> first_solution sha c bits (js_succ n) k \<Longrightarrow>
   n \<le> 2 ^ 53 \<Longrightarrow> first_solution sha c bits n k"
  unfolding first_solution_def js_succ_def by (metis (full_types) Suc_eq_plus1 Suc_leI Suc_leD le_neq_implies_less)

lemma solve_from_sound:
  "solve_from sha c bits n = Some r \<Longrightarrow> n \<le> 2 ^ 53 \<Longrightarrow> \<exists>k. r = dec k \<and> first_solution sha c bits n k"
proof (induction rule: solve_from.raw_induct [rotated, consumes 1])
  case (1 f sha c bits n r)
  show ?case
  proof (cases "meetsTarget (toHex (sha (c @ dec n))) bits")
    case True
    with 1 show ?thesis by (auto simp: first_solution_def)
  next
    case False
    then have "f sha c bits (js_succ n) = Some r" using 1 by simp
    moreover have "js_succ n \<le> 2 ^ 53" using 1 by (simp add: js_succ_def)
    ultimately show ?thesis using 1 False first_solution_step by blast
  qed
qed

lemma solve_from_finds:
  "meetsTarget (toHex (sha (c @ dec k))) bits \<Longrightarrow> k \<le> 2 ^ 53 \<Longrightarrow> n \<le> k \<Longrightarrow>
   \<exists>r. solve_from sha c bits n = Some r"
proof (induction "k - n" arbitrary: n)
  case 0
  then show ?case by (simp add: solve_from.simps)
next
  case (Suc d)
  then have "\<exists>r. solve_from sha c bits (Suc n) = Some r" by simp
  with Suc show ?case by (subst solve_from.simps) (simp add: js_succ_small)
qed

lemma solve_correct:
  "solve sha c bits = Some r \<longleftrightarrow> (\<exists>k. r = dec k \<and> first_solution sha c bits 0 k)"
proof
  assume "solve sha c bits = Some r"
  then show "\<exists>k. r = dec k \<and> first_solution sha c bits 0 k"
    using solve_from_sound unfolding solve_def by fastforce
next
  assume "\<exists>k. r = dec k \<and> first_solution sha c bits 0 k"
  then obtain k where k: "r = dec k" "first_solution sha c bits 0 k" by blast
  then obtain r' where r': "solve_from sha c bits 0 = Some r'"
    using solve_from_finds [of sha c k bits 0] by (auto simp: first_solution_def)
  then obtain k' where k': "r' = dec k'" "first_solution sha c bits 0 k'"
    using solve_from_sound [OF r'] by auto
  have "k' = k" using k(2) k'(2) unfolding first_solution_def by (metis le0 linorder_neqE_nat)
  with r' k k' show "solve sha c bits = Some r" by (simp add: solve_def)
qed

lemma first_solution_ex:
  "(\<exists>k. first_solution sha c bits 0 k) \<longleftrightarrow> (\<exists>k\<le>2 ^ 53. meetsTarget (toHex (sha (c @ dec k))) bits)"
proof
  assume "\<exists>k\<le>2 ^ 53. meetsTarget (toHex (sha (c @ dec k))) bits"
  then obtain k where "k \<le> 2 ^ 53" "meetsTarget (toHex (sha (c @ dec k))) bits" by blast
  then have "\<exists>r. solve_from sha c bits 0 = Some r" using solve_from_finds [of sha c k bits 0] by simp
  then show "\<exists>k. first_solution sha c bits 0 k" using solve_from_sound by fastforce
qed (auto simp: first_solution_def)

section \<open>A renewal against the server\<close>

text \<open>A request of the script answered by the handler.\<close>

definition ask ::
  "('h, 'r) server \<Rightarrow> readings \<Rightarrow> ipaddr \<Rightarrow> 'h Request \<Rightarrow> ('h, 'r) world \<Rightarrow>
   (nat \<times> string option) option \<times> ('h, 'r) world" where
  "ask S T peer req w =
     (case handle S T peer req w of
        Done (r, w') \<Rightarrow>
          (Some (status r, if None \<in> set (body r) then None else Some (concat (map the (body r)))), w')
      | Panic _ \<Rightarrow> (None, w))"

text \<open>Text that JSON carries as it is.\<close>

definition json_plain :: "string \<Rightarrow> bool" where
  "json_plain s = list_all (\<lambda>c. 32 \<le> code c \<and> c \<noteq> CHR 0x22 \<and> c \<noteq> CHR 0x5C) s"

lemma json_string_plain: "json_plain s \<Longrightarrow> json_string s = quote s"
proof -
  have "json_plain s \<Longrightarrow> concat (map json_char s) = s"
    by (induction s) (auto simp: json_plain_def json_char_def)
  then show "json_plain s \<Longrightarrow> json_string s = quote s" by (simp add: json_string_def)
qed

lemma json_plain_dec: "json_plain (dec n)"
proof -
  have "digit_val 10 c \<noteq> None \<Longrightarrow> 48 \<le> code c \<and> code c \<le> 57" for c
    by (auto simp: digit_val_def Let_def split: if_splits)
  then have "48 \<le> code c \<and> code c \<le> 57" if "c \<in> set (dec n)" for c
    using radix_chars [of 10 c n] that by (simp add: dec_def)
  moreover have "\<not> 48 \<le> code (CHR 0x22)" "\<not> code (CHR 0x5C) \<le> 57" by code_simp+
  ultimately show ?thesis unfolding json_plain_def list_all_iff by fastforce
qed

lemma length_dec: "n \<le> 2 ^ 53 \<Longrightarrow> length (dec n) \<le> 16"
  unfolding dec_def by (rule length_radix) simp_all

lemma dec_nonempty: "dec n \<noteq> []"
  by (simp add: dec_def)

lemma length_verify_body:
  "json_plain c \<Longrightarrow> json_plain n \<Longrightarrow> length (verify_body c n) = 27 + length c + length n"
  by (simp add: verify_body_def json_string_plain quote_def)

text \<open>The two sides read each other's JSON: \<open>serde_json\<close> on the server, the browser's parser here.\<close>

definition json_agree :: "('h, 'r) server \<Rightarrow> (string \<Rightarrow> ChallengePayload option) \<Rightarrow> bool" where
  "json_agree S read_json \<longleftrightarrow>
     (\<forall>c. json_plain c \<longrightarrow> read_json (s_challenge_json S c DIFFICULTY (ttl (s_session S))) =
        Some \<lparr>cp_challenge = Some c, cp_ttl = Some (unat (ttl (s_session S))), cp_bits = Some DIFFICULTY\<rparr>) \<and>
     (\<forall>c n. json_plain c \<longrightarrow> json_plain n \<longrightarrow>
        s_verify_json S (verify_body c n) = Some \<lparr>vp_challenge = c, vp_nonce = n\<rparr>)"

lemma handle_challenge:
  "req_method q = ''GET'' \<Longrightarrow> uri_path (req_uri q) = ''/__ng/challenge'' \<Longrightarrow>
   handle S T peer q w = challenge_route S T w"
  by (simp add: handle_def Let_def starts_with_def)

lemma handle_verify:
  "req_method q = ''POST'' \<Longrightarrow> uri_path (req_uri q) = ''/__ng/verify'' \<Longrightarrow>
   handle S T peer q w = verify_route S T (req_body q) (real_ip (s_http S) (req_headers q) peer) w"
  by (simp add: handle_def Let_def)

lemma submission_browser:
  assumes "json_agree S read_json" and "json_plain c" and "json_plain n" and "c \<noteq> []" and "n \<noteq> []"
    and "length c \<le> 400" and "length n \<le> 16"
  shows "submission S [Some (verify_body c n)] = Some \<lparr>vp_challenge = c, vp_nonce = n\<rparr>"
proof -
  have "collect_limited MAX_VERIFY_BODY [Some (verify_body c n)] = Some (verify_body c n)"
    using assms by (simp add: collect_limited_def length_verify_body MAX_VERIFY_BODY_def)
  with assms show ?thesis by (simp add: submission_def json_agree_def)
qed

lemma solution_accepted:
  assumes "digest32 sha" and "first_solution sha c DIFFICULTY 0 k"
  shows "be_value (sha (c @ dec k)) < 2 ^ 242"
proof -
  have "length (sha (c @ dec k)) = 32" using assms(1) by (simp add: digest32_def)
  then show ?thesis using assms(2) meetsTarget_value [of DIFFICULTY "sha (c @ dec k)"]
    by (simp add: first_solution_def DIFFICULTY_def)
qed

lemma verify_accepted:
  assumes "digest32 (e_sha (s_embed S))" and "seal_lib_ok (s_seal S) (key (s_session S))"
    and "b64_clean (s_seal S)" and "cookie_text (cookie_name (s_session S))"
    and "printable_ok (s_http S)" and "header_map_ok (s_http S)"
    and "submission S b = Some p" and "solved S (now_inst T) (w_challenges w) p"
  shows "\<exists>r v. verify_route S T b (Some a) w =
      Done (r, w\<lparr>w_challenges := (w_challenges w)(vp_challenge p := None)\<rparr>) \<and> status r = 200 \<and>
      create_cookie (s_seal S) (s_session S) a (now_secs T) (rnd_nonce T) = Done v \<and>
      hm_get_all (s_http S) (headers r) ''set-cookie'' = [cookie_header (s_session S) v]"
proof -
  obtain v where v: "create_cookie (s_seal S) (s_session S) a (now_secs T) (rnd_nonce T) = Done v"
    using create_cookie_total [OF assms(2)] by blast
  then obtain hv where hv: "from_str (s_http S) (cookie_header (s_session S) v) = Some hv"
    using cookie_header_printable [OF assms(4) create_cookie_clean [OF assms(3) v]] assms(5)
    by (auto simp: printable_ok_def)
  then have "hv = cookie_header (s_session S) v" using assms(6) unfolding header_map_ok_def by blast
  moreover have "eq_ignore_ascii_case ''set-cookie'' ''set-cookie''" by (simp add: eq_ignore_ascii_case_def)
  ultimately show ?thesis
    using assms(7,8) v hv
    by (simp add: verify_route_eq [OF assms(1)] Let_def text_resp_def header_map_laws [OF assms(6)])
qed

section \<open>The script's queue\<close>

text \<open>
  What every reachable state keeps: the requests let go and those waiting are together the intercepted
  ones, each once; a waiting request has its time-out set, and a renewal is in flight.
\<close>

definition guard_held :: "(nat \<times> guard_event) list \<Rightarrow> guard \<Rightarrow> bool" where
  "guard_held evs s \<longleftrightarrow>
     distinct (map fst (g_done s) @ g_queue s) \<and>
     set (map fst (g_done s) @ g_queue s) = set (requests_of evs) \<and>
     (\<forall>now e. (now, Request e) \<in> set evs \<and> e \<in> set (g_queue s) \<longrightarrow> (e, now + MAX_QUEUE_WAIT_MS) \<in> set (g_timers s))"

definition guard_inv :: "(nat \<times> guard_event) list \<Rightarrow> guard \<Rightarrow> bool" where
  "guard_inv evs s \<longleftrightarrow> guard_held evs s \<and> (g_queue s \<noteq> [] \<longrightarrow> g_solver s)"

lemma requests_of_append [simp]: "requests_of (as @ bs) = requests_of as @ requests_of bs"
  by (induction as rule: requests_of.induct) auto

lemma requests_of_set: "e \<in> set (requests_of evs) \<longleftrightarrow> (\<exists>now. (now, Request e) \<in> set evs)"
  by (induction evs rule: requests_of.induct) auto

lemma releaseOne_sel [simp]:
  "g_ttl (releaseOne e ab s) = g_ttl s" "g_loadedAt (releaseOne e ab s) = g_loadedAt s"
  "g_solver (releaseOne e ab s) = g_solver s" "g_timers (releaseOne e ab s) = g_timers s"
  "g_lastTick (releaseOne e ab s) = g_lastTick s"
  by (simp_all add: releaseOne_def)

lemma release_all:
  "release ab s = s\<lparr>g_queue := [], g_done := g_done s @ map (\<lambda>e. (e, \<not> ab)) (g_queue s)\<rparr>"
proof -
  have "fold (\<lambda>e. releaseOne e ab) es t = t\<lparr>g_queue := [], g_done := g_done t @ map (\<lambda>e. (e, \<not> ab)) es\<rparr>"
    if "g_queue t = es" for es t
    using that by (induction es arbitrary: t) (simp_all add: releaseOne_def)
  then show ?thesis by (simp add: release_def)
qed

lemma release_sel [simp]:
  "g_ttl (release ab s) = g_ttl s" "g_loadedAt (release ab s) = g_loadedAt s"
  "g_solver (release ab s) = g_solver s" "g_timers (release ab s) = g_timers s" "g_queue (release ab s) = []"
  by (simp_all add: release_all)

lemma set_releaseOne:
  "distinct (map fst (g_done s) @ g_queue s) \<Longrightarrow>
   distinct (map fst (g_done (releaseOne e ab s)) @ g_queue (releaseOne e ab s)) \<and>
   set (map fst (g_done (releaseOne e ab s)) @ g_queue (releaseOne e ab s)) = set (map fst (g_done s) @ g_queue s) \<and>
   set (g_queue (releaseOne e ab s)) = set (g_queue s) - {e}"
  by (auto simp: releaseOne_def)

lemma guard_held_release: "guard_held evs s \<Longrightarrow> guard_held evs (release ab s)"
  by (auto simp: guard_held_def release_all comp_def)

lemma guard_held_upd [simp]:
  "guard_held evs (s\<lparr>g_loggedFailure := l\<rparr>) = guard_held evs s"
  "guard_held evs (s\<lparr>g_loadedAt := n\<rparr>) = guard_held evs s"
  "guard_held evs (s\<lparr>g_ttl := t\<rparr>) = guard_held evs s"
  "guard_held evs (s\<lparr>g_lastTick := n\<rparr>) = guard_held evs s"
  "guard_held evs (s\<lparr>g_solver := b\<rparr>) = guard_held evs s"
  by (simp_all add: guard_held_def)

lemma renew_solver [simp]: "g_solver (renew F s)"
  by (simp add: renew_def)

lemma guard_held_renew: "guard_held evs s \<Longrightarrow> guard_inv evs (renew F s)"
  by (auto simp: guard_inv_def renew_def guard_held_release)

lemma guard_inv_renew: "guard_inv evs s \<Longrightarrow> guard_inv evs (renew F s)"
  by (rule guard_held_renew) (simp add: guard_inv_def)

lemma guard_inv_sent:
  "guard_inv evs s \<Longrightarrow> e \<notin> set (requests_of evs) \<Longrightarrow>
   guard_inv (evs @ [(now, Request e)]) (s\<lparr>g_done := g_done s @ [(e, ok)]\<rparr>)"
  by (auto simp: guard_inv_def guard_held_def)

lemma guard_held_enqueue:
  "guard_held evs s \<Longrightarrow> e \<notin> set (requests_of evs) \<Longrightarrow>
   guard_held (evs @ [(now, Request e)]) (enqueue now e s)"
  by (auto simp: guard_held_def enqueue_def) (auto simp: requests_of_set)

lemma guard_held_quiet:
  "(\<And>e. ev \<noteq> Request e) \<Longrightarrow> guard_held (evs @ [(now, ev)]) s = guard_held evs s"
  by (cases ev) (auto simp: guard_held_def)

lemma guard_inv_quiet:
  "(\<And>e. ev \<noteq> Request e) \<Longrightarrow> guard_inv (evs @ [(now, ev)]) s = guard_inv evs s"
  by (simp add: guard_inv_def guard_held_quiet)

lemma guard_inv_timeout:
  assumes "guard_inv evs s"
  shows "guard_inv evs (releaseOne e ab (s\<lparr>g_timers := remove1 (e, d) (g_timers s)\<rparr>))"
proof -
  have keep: "(f, t) \<in> set (remove1 (e, d) (g_timers s))" if "(f, t) \<in> set (g_timers s)" "f \<noteq> e" for f t
    using that by (simp add: in_set_remove1)
  show ?thesis
  proof (cases "e \<in> set (g_queue s)")
    case True
    then show ?thesis using assms keep by (auto simp: guard_inv_def guard_held_def releaseOne_def)
  next
    case False
    then have "(f, n + MAX_QUEUE_WAIT_MS) \<in> set (remove1 (e, d) (g_timers s))"
      if "(n, Request f) \<in> set evs" "f \<in> set (g_queue s)" for f n
    proof -
      have "f \<noteq> e" using that False by blast
      then show ?thesis using that assms by (intro keep) (auto simp: guard_inv_def guard_held_def)
    qed
    then show ?thesis using assms False by (simp add: guard_inv_def guard_held_def releaseOne_def)
  qed
qed

lemma guard_inv_step:
  assumes "guard_step F s ev s'" and "guard_inv evs s" and "distinct (requests_of (evs @ [ev]))"
  shows "guard_inv (evs @ [ev]) s'"
  using assms
proof (cases rule: guard_step.cases)
  case (request now e)
  then have "e \<notin> set (requests_of evs)" using assms(3) by simp
  then show ?thesis
    using request assms(2) guard_held_renew [OF guard_held_enqueue [of evs s e now], of F]
      guard_inv_sent [OF assms(2), where e = e and now = now]
      guard_inv_sent [OF guard_inv_renew [OF assms(2)], where e = e and now = now]
    by (simp add: gate_def Let_def) (simp add: guard_inv_def)
next
  case (renewed t now)
  then show ?thesis using assms(2)
    by (auto simp: renewed_def guard_held_quiet guard_inv_def intro!: guard_held_release)
next
  case (failed now)
  then show ?thesis using assms(2)
    by (auto simp: renewal_failed_def guard_held_quiet guard_inv_def intro!: guard_held_release)
next
  case (timeout e d now)
  then show ?thesis using guard_inv_timeout [OF assms(2)] by (simp add: guard_inv_quiet)
next
  case (heartbeat now)
  then show ?thesis using assms(2)
    by (auto simp: heartbeat_def Let_def guard_inv_quiet intro!: guard_inv_renew) (simp_all add: guard_inv_def)
qed

lemma guard_inv_run:
  assumes "guard_run F (guard_load F now ttl0) evs s" and "distinct (requests_of evs)"
  shows "guard_inv evs s"
  using assms
proof (induction "guard_load F now ttl0" evs s rule: guard_run.induct)
  case start
  have "guard_inv [] s" if "g_queue s = []" "g_done s = []" for s
    using that by (simp add: guard_inv_def guard_held_def)
  then show ?case by (simp add: guard_load_def renew_def Let_def release_all)
next
  case (step evs s1 ev s2)
  then show ?case by (intro guard_inv_step [OF step(3)]) auto
qed

section \<open>Properties\<close>

text \<open>
  C14. Browser and server agree on the target: for every digest and every difficulty that fits it, the
  script's comparison of hexadecimal digits decides exactly as the server's loop over bits does.
\<close>

theorem browser_target_agrees:
  "bits \<le> 8 * length ws \<Longrightarrow> meets_target ws bits = Done (meetsTarget (toHex ws) bits)"
  by (simp add: meetsTarget_value meets_target_value)

theorem browser_target_agrees_witness:
  "meetsTarget (toHex [0, 3, 255]) 14 \<and> \<not> meetsTarget (toHex [0, 4, 0]) 14"
proof -
  have "meets_target [0, 3, 255] 14 = Done True" "meets_target [0, 4, 0] 14 = Done False" by code_simp+
  then show ?thesis
    using browser_target_agrees [of 14 "[0, 3, 255]"] browser_target_agrees [of 14 "[0, 4, 0]"] by simp
qed

text \<open>
  C15. The solver returns if and only if one of the numbers up to \<open>2 ^ 53\<close> solves the challenge (beyond it
  the loop tests the same number for ever), and then it returns the smallest that does.
\<close>

theorem solver_finds_first:
  "(solve sha c bits = Some r \<longleftrightarrow> (\<exists>k. r = dec k \<and> first_solution sha c bits 0 k)) \<and>
   (solve sha c bits = None \<longleftrightarrow> \<not> (\<exists>k\<le>2 ^ 53. meetsTarget (toHex (sha (c @ dec k))) bits))"
  using solve_correct [of sha c bits] first_solution_ex [of sha c bits] by (metis not_Some_eq)

theorem solver_finds_first_witness:
  "solve (\<lambda>_. replicate 32 0) ''ab'' 14 = Some (dec 0) \<and> solve (\<lambda>_. replicate 32 255) ''ab'' 14 = None"
proof -
  have t: "meetsTarget (toHex (replicate 32 0)) 14" "\<not> meetsTarget (toHex (replicate 32 255)) 14"
    by code_simp+
  then have "first_solution (\<lambda>_. replicate 32 0) ''ab'' 14 0 0" by (simp add: first_solution_def)
  with t show ?thesis
    using solver_finds_first [of "\<lambda>_. replicate 32 0" "''ab''" 14 "dec 0"]
      solver_finds_first [of "\<lambda>_. replicate 32 255" "''ab''" 14 "dec 0"] by blast
qed

text \<open>
  C9. A renewal of the script against the server succeeds: the challenge route's answer is solved and
  posted within the five minutes, the verification route accepts it and sets the cookie for the address,
  the challenge is gone from the store, and the script anchors its clock on the server's time to live.
\<close>

theorem browser_renews:
  assumes "digest32 (e_sha (s_embed S))" and "seal_lib_ok (s_seal S) (key (s_session S))"
    and "b64_clean (s_seal S)" and "cookie_text (cookie_name (s_session S))"
    and "printable_ok (s_http S)" and "header_map_ok (s_http S)" and "json_agree S read_json"
    and "e_hex (s_embed S) (rnd_challenge T1) = c" and "json_plain c" and "c \<noteq> []" and "length c \<le> 400"
    and "first_solution (e_sha (s_embed S)) c DIFFICULTY 0 k" and "now_inst T2 \<le> now_inst T1 + CHALLENGE_TTL"
    and "req_method q1 = ''GET''" and "uri_path (req_uri q1) = ''/__ng/challenge''"
    and "req_method q2 = ''POST''" and "uri_path (req_uri q2) = ''/__ng/verify''"
    and "real_ip (s_http S) (req_headers q2) peer = Some a"
  shows "\<exists>r1 w1 r2 w2 v. handle S T1 peer q1 w = Done (r1, w1) \<and>
    handle S T2 peer (q2\<lparr>req_body := [Some (verify_body c (dec k))]\<rparr>) w1 = Done (r2, w2) \<and>
    create_cookie (s_seal S) (s_session S) a (now_secs T2) (rnd_nonce T2) = Done v \<and>
    hm_get_all (s_http S) (headers r2) ''set-cookie'' = [cookie_header (s_session S) v] \<and>
    w_challenges w2 = (w_challenges w)(c := None) \<and>
    renewal (e_sha (s_embed S)) read_json (ask S T1 peer q1) (\<lambda>b. ask S T2 peer (q2\<lparr>req_body := [Some b]\<rparr>))
      t0 b0 w = Some (Some (unat (ttl (s_session S))), w2)"
proof -
  let ?m = "(w_challenges w)(c \<mapsto> now_inst T1 + CHALLENGE_TTL)"
  let ?w1 = "w\<lparr>w_challenges := ?m\<rparr>"
  let ?p = "\<lparr>vp_challenge = c, vp_nonce = dec k\<rparr>"
  let ?r1 = "local_resp (s_http S) 200 ''application/json'' (s_challenge_json S c DIFFICULTY (ttl (s_session S)))"
  have h1: "handle S T1 peer q1 w = Done (?r1, ?w1)"
    using assms(8,14,15) by (simp add: handle_challenge challenge_route_def new_challenge_def Let_def)
  have k: "k \<le> 2 ^ 53" using assms(12) by (simp add: first_solution_def)
  have sub: "submission S [Some (verify_body c (dec k))] = Some ?p"
    by (rule submission_browser [OF assms(7,9) json_plain_dec assms(10) dec_nonempty assms(11) length_dec [OF k]])
  have ok: "solved S (now_inst T2) (w_challenges ?w1) ?p"
    using assms(13) solution_accepted [OF assms(1,12)] by (simp add: solved_def)
  obtain r2 v where v: "verify_route S T2 [Some (verify_body c (dec k))] (Some a) ?w1 =
        Done (r2, ?w1\<lparr>w_challenges := (w_challenges ?w1)(vp_challenge ?p := None)\<rparr>)"
    and r2: "status r2 = 200" "create_cookie (s_seal S) (s_session S) a (now_secs T2) (rnd_nonce T2) = Done v"
      "hm_get_all (s_http S) (headers r2) ''set-cookie'' = [cookie_header (s_session S) v]"
    using verify_accepted [OF assms(1-6) sub ok] by blast
  let ?w2 = "w\<lparr>w_challenges := (w_challenges w)(c := None)\<rparr>"
  have h2: "handle S T2 peer (q2\<lparr>req_body := [Some (verify_body c (dec k))]\<rparr>) ?w1 = Done (r2, ?w2)"
    using v assms(16-18) by (simp add: handle_verify)
  have "solve (e_sha (s_embed S)) c DIFFICULTY = Some (dec k)"
    using solve_correct assms(12) by blast
  moreover have "read_json (s_challenge_json S c DIFFICULTY (ttl (s_session S))) =
      Some \<lparr>cp_challenge = Some c, cp_ttl = Some (unat (ttl (s_session S))), cp_bits = Some DIFFICULTY\<rparr>"
    using assms(7,9) by (simp add: json_agree_def)
  ultimately have "renewal (e_sha (s_embed S)) read_json (ask S T1 peer q1)
      (\<lambda>b. ask S T2 peer (q2\<lparr>req_body := [Some b]\<rparr>)) t0 b0 w = Some (Some (unat (ttl (s_session S))), ?w2)"
    using h1 h2 r2(1) assms(10)
    by (simp add: renewal_def ask_def local_resp_def res_ok_def unwrap_or_def Let_def)
  with h1 h2 r2 show ?thesis by (intro exI conjI) (assumption | simp)+
qed

text \<open>A server that reads the script's JSON: the text between the quotes.\<close>

definition unquoted :: "string \<Rightarrow> string" where
  "unquoted = takeWhile (\<lambda>c. c \<noteq> CHR 0x22)"

definition browsed_server :: "((string \<times> string) list, string \<rightharpoonup> string) server" where
  "browsed_server =
     sample_server\<lparr>s_verify_json := (\<lambda>b. let c = unquoted (drop 14 b) in
       Some \<lparr>vp_challenge = c, vp_nonce = unquoted (drop (length c + 11) (drop 14 b))\<rparr>)\<rparr>"

lemma unquoted_plain: "json_plain s \<Longrightarrow> unquoted (s @ CHR 0x22 # t) = s"
  unfolding unquoted_def json_plain_def by (induction s) auto

lemma browsed_agree:
  "json_agree browsed_server (\<lambda>c. Some \<lparr>cp_challenge = Some c, cp_ttl = Some 1800, cp_bits = Some DIFFICULTY\<rparr>)"
proof -
  have "s_verify_json browsed_server (verify_body c n) = Some \<lparr>vp_challenge = c, vp_nonce = n\<rparr>"
    if "json_plain c" "json_plain n" for c n
    using unquoted_plain [OF that(1)] unquoted_plain [OF that(2)]
    by (simp add: browsed_server_def verify_body_def json_string_plain that quote_def Let_def del: drop_drop)
  then show ?thesis by (simp add: json_agree_def) (simp add: browsed_server_def sample_server_def)
qed

theorem browser_renews_witness:
  "\<exists>w2. renewal (\<lambda>_. replicate 32 0)
      (\<lambda>c. Some \<lparr>cp_challenge = Some c, cp_ttl = Some 1800, cp_bits = Some DIFFICULTY\<rparr>)
      (ask browsed_server sample_readings (V4 1 2 3 4)
        (sample_request\<lparr>req_uri := (req_uri sample_request)\<lparr>uri_path := ''/__ng/challenge''\<rparr>\<rparr>))
      (\<lambda>b. ask browsed_server (sample_readings\<lparr>now_inst := 6\<rparr>) (V4 1 2 3 4)
        (sample_request\<lparr>req_method := ''POST'', req_uri := (req_uri sample_request)\<lparr>uri_path := ''/__ng/verify''\<rparr>,
           req_body := [Some b]\<rparr>))
      1800 14 sample_world = Some (Some 1800, w2) \<and> w_challenges w2 = Map.empty"
proof -
  let ?q1 = "sample_request\<lparr>req_uri := (req_uri sample_request)\<lparr>uri_path := ''/__ng/challenge''\<rparr>\<rparr>"
  let ?q2 = "sample_request\<lparr>req_method := ''POST'', req_uri := (req_uri sample_request)\<lparr>uri_path := ''/__ng/verify''\<rparr>\<rparr>"
  let ?T2 = "sample_readings\<lparr>now_inst := 6\<rparr>"
  have sel: "s_http browsed_server = alist_http" "e_sha (s_embed browsed_server) = (\<lambda>_. replicate 32 0)"
    "e_hex (s_embed browsed_server) = (\<lambda>_. ''c0'')" "s_seal browsed_server = letter_seal"
    "s_session browsed_server = \<lparr>key = [], cookie_name = ''s'', ttl = 1800\<rparr>"
    by (simp_all add: browsed_server_def sample_server_def sample_env_def)
  have t: "meetsTarget (toHex (replicate 32 0)) DIFFICULTY" by code_simp
  have d: "digest32 (e_sha (s_embed browsed_server))" by (simp add: digest32_def sel)
  have se: "seal_lib_ok (s_seal browsed_server) (key (s_session browsed_server))"
    "b64_clean (s_seal browsed_server)" "cookie_text (cookie_name (s_session browsed_server))"
    by (simp_all add: sel letter_seal_ok letter_seal_clean cookie_text_def visible_def code_def)
  have ht: "printable_ok (s_http browsed_server)" "header_map_ok (s_http browsed_server)"
    unfolding sel using alist_http_ok by (auto simp: printable_ok_def alist_http_def list_all_iff)
  have c: "e_hex (s_embed browsed_server) (rnd_challenge sample_readings) = ''c0''" "json_plain ''c0''"
    "''c0'' \<noteq> []" "length ''c0'' \<le> 400"
    by (simp_all add: sel json_plain_def code_def)
  have f: "first_solution (e_sha (s_embed browsed_server)) ''c0'' DIFFICULTY 0 0"
    using t by (simp add: first_solution_def sel)
  have ip: "real_ip (s_http browsed_server) (req_headers ?q2) (V4 1 2 3 4) = Some (V4 1 2 3 4)"
    by (simp add: sel real_ip_def get_str_def alist_http_def sample_request_def)
  have tm: "now_inst ?T2 \<le> now_inst sample_readings + CHALLENGE_TTL"
    by (simp add: sample_readings_def CHALLENGE_TTL_def secs_def)
  have q: "req_method ?q1 = ''GET''" "uri_path (req_uri ?q1) = ''/__ng/challenge''"
    "req_method ?q2 = ''POST''" "uri_path (req_uri ?q2) = ''/__ng/verify''"
    by (simp_all add: sample_request_def)
  obtain w2 where w2: "w_challenges w2 = (w_challenges sample_world)(''c0'' := None)"
    "renewal (e_sha (s_embed browsed_server))
      (\<lambda>c. Some \<lparr>cp_challenge = Some c, cp_ttl = Some 1800, cp_bits = Some DIFFICULTY\<rparr>)
      (ask browsed_server sample_readings (V4 1 2 3 4) ?q1)
      (\<lambda>b. ask browsed_server ?T2 (V4 1 2 3 4) (?q2\<lparr>req_body := [Some b]\<rparr>)) 1800 14 sample_world =
      Some (Some (unat (ttl (s_session browsed_server))), w2)"
    using browser_renews [OF d se ht browsed_agree c f tm q ip, of sample_world 1800 14]
    by (elim exE conjE) (rule that)
  show ?thesis using w2 by (auto simp: sel sample_world_def)
qed



text \<open>
  A request is sent only while the script takes the session for valid: whatever event lets it go
  (a renewal with a positive time to live, the request's own arrival), the expiry the script has after
  the event lies ahead. A time-out or a failed renewal lets a request go only to fail.
\<close>

theorem guard_sends_unexpired:
  assumes "guard_step F s (now, ev) s'" and "(e, True) \<in> set (g_done s')" and "(e, True) \<notin> set (g_done s)"
    and "\<forall>t. ev = Renewed t \<longrightarrow> 0 < t"
  shows "\<not> isExpired now s' \<and> ((\<exists>t. ev = Renewed t \<and> e \<in> set (g_queue s)) \<or> ev = Request e)"
  using assms(1)
proof cases
  case (request f)
  show ?thesis
  proof (cases "isExpired now s")
    case True
    then show ?thesis using request assms(2,3) by (auto simp: gate_def renew_def enqueue_def release_all split: if_splits)
  next
    case False
    then have "\<not> isExpired now s'" using request
      by (simp add: gate_def Let_def isExpired_def expiresAt_def renew_def)
    moreover have "f = e" using False request assms(2,3)
      by (auto simp: gate_def Let_def renew_def release_all split: if_splits)
    ultimately show ?thesis using request by simp
  qed
next
  case (renewed t)
  then show ?thesis using assms by (auto simp: renewed_def isExpired_def expiresAt_def release_all)
next
  case failed
  then show ?thesis using assms by (auto simp: renewal_failed_def release_all)
next
  case (timeout f d)
  then show ?thesis using assms by (auto simp: releaseOne_def split: if_splits)
next
  case heartbeat
  then show ?thesis using assms by (auto simp: heartbeat_def Let_def renew_def release_all split: if_splits)
qed

theorem guard_sends_unexpired_witness:
  "\<not> isExpired 1000 (gate True 1000 7 (guard_load True 0 1800))"
proof -
  have "(7, True) \<in> set (g_done (gate True 1000 7 (guard_load True 0 1800)))"
    "(7, True) \<notin> set (g_done (guard_load True 0 1800))"
    by (simp_all add: guard_load_def gate_def isExpired_def needsRenewal_def renewDeadline_def expiresAt_def
        BUFFER_MS_def)
  with guard_sends_unexpired [OF guard_step.request [of True "guard_load True 0 1800" 1000 7], of 7]
  show ?thesis by blast
qed

lemma guard_load_idle:
  "BUFFER_MS < ttl0 * 1000 \<Longrightarrow> guard_load F loaded ttl0 =
     \<lparr>g_ttl = ttl0, g_loadedAt = loaded, g_solver = False, g_queue = [], g_timers = [], g_lastTick = loaded,
      g_loggedFailure = False, g_done = []\<rparr>"
  by (simp add: guard_load_def needsRenewal_def renewDeadline_def expiresAt_def)

lemma gate_early:
  "now + BUFFER_MS < loaded + ttl0 * 1000 \<Longrightarrow> BUFFER_MS < ttl0 * 1000 \<Longrightarrow>
   (e, True) \<in> set (g_done (gate F now e (guard_load F loaded ttl0))) \<and>
   \<not> g_solver (gate F now e (guard_load F loaded ttl0))"
  by (auto simp: guard_load_idle gate_def isExpired_def needsRenewal_def renewDeadline_def expiresAt_def)

text \<open>
  C19. The script's notion of expiry is not conservative: it counts from the load of the page, not from the
  making of the cookie. When a page is loaded later than five minutes after its cookie was made, there are
  moments at which the server rejects the cookie as expired while the script sends requests on it at once
  and has no renewal in flight.
\<close>

theorem expiry_not_conservative:
  assumes "seal_lib_ok L (key sm)" and "length nonce = NONCE_LEN" and "create_cookie L sm a t nonce = Done v"
    and "t + ttl sm < now" and "unat now * 1000 + BUFFER_MS < loaded + unat (ttl sm) * 1000"
    and "BUFFER_MS < unat (ttl sm) * 1000"
  shows "verify_cookie L sm v a now i = Inl Expired \<and>
    (e, True) \<in> set (g_done (gate F (unat now * 1000) e (guard_load F loaded (unat (ttl sm))))) \<and>
    \<not> g_solver (gate F (unat now * 1000) e (guard_load F loaded (unat (ttl sm))))"
proof -
  have "verify_cookie L sm v a now i = Inl Expired"
    using verify_created [OF assms(1-3), of a now i] assms(4) by simp
  then show ?thesis using gate_early [OF assms(5,6)] by blast
qed

theorem expiry_not_conservative_witness:
  "\<exists>v. verify_cookie letter_seal (s_session sample_server) v (V4 1 2 3 4) 3000 0 = Inl Expired \<and>
     (7, True) \<in> set (g_done (gate True 3000000 7 (guard_load True 2500000 1800)))"
proof -
  obtain v where v: "create_cookie letter_seal (s_session sample_server) (V4 1 2 3 4) 1000 (replicate 12 0) = Done v"
    using create_cookie_total [OF letter_seal_ok] by blast
  have ttl: "ttl (s_session sample_server) = 1800" by (simp add: sample_server_def)
  have "verify_cookie letter_seal (s_session sample_server) v (V4 1 2 3 4) 3000 0 = Inl Expired \<and>
      (7, True) \<in> set (g_done (gate True (unat (3000 :: u64) * 1000) 7
        (guard_load True 2500000 (unat (ttl (s_session sample_server))))))"
    using expiry_not_conservative [OF letter_seal_ok _ v, of 3000 2500000 0 7 True]
    by (simp add: ttl NONCE_LEN_def BUFFER_MS_def)
  with ttl show ?thesis by auto
qed

end
