(* ===== verification/Conformance_Inject.thy ===== *)
theory Conformance_Inject
  imports Proxy Embed_Scrape "HOL-Library.Code_Target_Nat"
begin

text \<open>
  The unit tests of \<open>nekoguard/src/inject.rs\<close> and of the injection and the request handler in
  \<open>nekoguard/src/main.rs\<close> as statements about the model, each evaluated or proved from what the test
  needs of the compression libraries. The real server of the tests in \<open>main.rs\<close> is a response of one chunk.
\<close>

text \<open>How often a text occurs in another; the texts the tests count cannot overlap themselves.\<close>

fun count_sub :: "string \<Rightarrow> string \<Rightarrow> nat" where
  "count_sub p [] = 0"
| "count_sub p (c # cs) = (if prefix p (c # cs) then Suc (count_sub p cs) else count_sub p cs)"

section \<open>Tests of the script injection\<close>

definition test_html :: string where
  "test_html = ''<!doctype html><html><head><title>T</title></head><body><p>hi</p></body></html>''"

text \<open>\<open>None\<close> where the test's helper panics.\<close>

definition round_trip :: "codecs \<Rightarrow> string \<Rightarrow> Encoding \<Rightarrow> string option" where
  "round_trip K html encoding =
     Option.bind (compress K html encoding) (\<lambda>bytes.
     Option.bind (decompress K bytes encoding) (\<lambda>out. if utf8_valid out then Some out else None))"

definition all_encodings :: "Encoding list" where
  "all_encodings = [Identity, Gzip, Deflate, Brotli]"

definition compresses_round_trip_for_every_encoding :: "codecs \<Rightarrow> bool" where
  "compresses_round_trip_for_every_encoding K \<longleftrightarrow>
     list_all (\<lambda>e. round_trip K test_html e = Some test_html) all_encodings"

definition brotli_round_trips_real_ghost_markup :: "codecs \<Rightarrow> bool" where
  "brotli_round_trips_real_ghost_markup K \<longleftrightarrow>
     (let big = ''<!doctype html><html><body>'' @ concat (replicate 2000 ''<p>hello</p>'') @ ''</body></html>''
      in round_trip K big Brotli = Some big \<and> round_trip K big Gzip = Some big)"

lemma utf8_valid_ascii: "list_all (\<lambda>c. code c < 128) s \<Longrightarrow> utf8_valid s"
  by (induction s) (auto simp: cont_ranges_def)

lemma round_trip_ok:
  assumes "codecs_ok K" and "compress K html e \<noteq> None" and "length html \<le> MAX_DECOMPRESSED" and "utf8_valid html"
  shows "round_trip K html e = Some html"
  using assms decompress_compress [OF assms(1)] by (auto simp: round_trip_def)

text \<open>Where a codec reads back what it wrote, and its encoder does not fail on the documents of the tests.\<close>

lemma compresses_round_trip_passes:
  assumes "codecs_ok K" and "\<And>e. compress K test_html e \<noteq> None"
  shows "compresses_round_trip_for_every_encoding K"
proof -
  have "utf8_valid test_html" "length test_html \<le> MAX_DECOMPRESSED" by code_simp+
  then show ?thesis
    using round_trip_ok [OF assms] by (simp add: compresses_round_trip_for_every_encoding_def all_encodings_def)
qed

lemma brotli_round_trips_passes:
  assumes "codecs_ok K" and "\<And>e b. encoder K e b \<noteq> None"
  shows "brotli_round_trips_real_ghost_markup K"
proof -
  let ?big = "''<!doctype html><html><body>'' @ concat (replicate 2000 ''<p>hello</p>'') @ ''</body></html>''"
  have "utf8_valid ?big"
  proof (rule utf8_valid_ascii)
    have "list_all (\<lambda>c. code c < 128) (''<!doctype html><html><body>'' @ ''<p>hello</p>'' @ ''</body></html>'')"
      by code_simp
    then show "list_all (\<lambda>c. code c < 128) ?big"
      unfolding list_all_iff by (auto simp only: set_append set_concat set_replicate_conv_if split: if_splits)
  qed
  moreover have "length ?big \<le> MAX_DECOMPRESSED"
    by (simp add: length_concat sum_list_replicate MAX_DECOMPRESSED_def)
  moreover have "compress K b e \<noteq> None" for b e
    using assms(2) by (cases e) (simp_all add: compress_def)
  ultimately show ?thesis
    unfolding brotli_round_trips_real_ghost_markup_def Let_def using round_trip_ok [OF assms(1)] by metis
qed

definition encoding_header_parsing :: bool where
  "encoding_header_parsing \<longleftrightarrow>
     from_header (Some ''gzip'') = Some Gzip \<and> from_header (Some ''GZIP'') = Some Gzip \<and>
     from_header (Some '' x-gzip '') = Some Gzip \<and> from_header (Some ''br'') = Some Brotli \<and>
     from_header (Some ''deflate'') = Some Deflate \<and> from_header (Some ''identity'') = Some Identity \<and>
     from_header (Some []) = Some Identity \<and> from_header None = Some Identity \<and>
     from_header (Some ''br, gzip'') = None \<and> from_header (Some ''zstd'') = None \<and> from_header (Some ''compress'') = None"

lemma encoding_header_passes: encoding_header_parsing
  by code_simp

definition only_html_with_a_body_is_eligible :: bool where
  "only_html_with_a_body_is_eligible \<longleftrightarrow>
     list_all (\<lambda>ct. should_inject (Some ct) True True True False)
       [''text/html'', ''text/html; charset=utf-8'', ''TEXT/HTML; CHARSET=UTF-8'', ''application/xhtml+xml''] \<and>
     list_all (\<lambda>ct. \<not> should_inject (Some ct) True True True False)
       [''application/json'', ''text/javascript'', ''text/css'', ''image/png'', ''image/svg+xml''] \<and>
     \<not> should_inject None True True True False \<and>
     \<not> should_inject (Some ''text/html'') False True True False \<and>
     \<not> should_inject (Some ''text/html'') True False True False \<and>
     \<not> should_inject (Some ''text/html'') True True False False \<and>
     \<not> should_inject (Some ''text/html'') True True True True"

lemma only_html_passes: only_html_with_a_body_is_eligible
  by code_simp

definition sniffs_out_non_html_decoded_bodies :: bool where
  "sniffs_out_non_html_decoded_bodies \<longleftrightarrow>
     looks_like_html test_html \<and> looks_like_html (''  '' @ [CHR 0x0A] @ ''<!DOCTYPE html><p>x'') \<and>
     looks_like_html ''<p>fragment</p>'' \<and>
     \<not> looks_like_html [CHR 0xFF, CHR 0xFE, CHR 0x00, CHR 0x01, CHR 0x02] \<and>
     \<not> looks_like_html ''not markup at all''"

lemma sniffs_out_passes: sniffs_out_non_html_decoded_bodies
  by code_simp

definition splices_before_the_closing_body_tag :: bool where
  "splices_before_the_closing_body_tag \<longleftrightarrow>
     (let out = inject_into_html test_html ''<script>x</script>''
      in contains ''<p>hi</p><script>x</script></body>'' out \<and> ends_with ''</html>'' out \<and>
         count_sub ''<title>'' out = 1)"

lemma splices_before_passes: splices_before_the_closing_body_tag
  by code_simp

definition splice_falls_back_through_html_then_append :: bool where
  "splice_falls_back_through_html_then_append \<longleftrightarrow>
     contains ''<script>x</script></html>'' (inject_into_html ''<html><head></head></html>'' ''<script>x</script>'') \<and>
     ends_with ''<p>just a fragment</p><script>x</script>'' (inject_into_html ''<p>just a fragment</p>'' ''<script>x</script>'')"

lemma splice_falls_back_passes: splice_falls_back_through_html_then_append
  by code_simp

definition splice_uses_the_last_closing_body_tag :: bool where
  "splice_uses_the_last_closing_body_tag \<longleftrightarrow>
     (let out = inject_into_html (''<html><body><script>var s = '' @ [CHR 0x27] @ ''</body>'' @ [CHR 0x27] @
            '';</script><p>x</p></body></html>'') ''MARK''
      in (case (find_sub ''MARK'' out, find_sub ''<p>x</p>'' out) of
            (Some marker, Some p) \<Rightarrow> p < marker
          | _ \<Rightarrow> False) \<and> ends_with ''MARK</body></html>'' out)"

lemma splice_uses_last_passes: splice_uses_the_last_closing_body_tag
  by code_simp

definition splice_is_case_insensitive :: bool where
  "splice_is_case_insensitive \<longleftrightarrow> contains ''xMARK</body>'' (inject_into_html ''<HTML><BODY>x</body></HTML>'' ''MARK'')"

lemma splice_case_passes: splice_is_case_insensitive
  by code_simp

definition script_tag_cannot_be_closed_early_by_its_payload :: bool where
  "script_tag_cannot_be_closed_early_by_its_payload \<longleftrightarrow>
     (let tag = script_tag ''var a = 1; </script><img src=x onerror=alert(1)>'';
          inner = take (length tag - 17) (drop 8 tag)
      in count_sub ''</script>'' tag = 1 \<and> ends_with ''</script>'' tag \<and> \<not> contains ''</script'' inner \<and> contains (''<'' @ [CHR 0x5C] @ ''/script'') inner)"

lemma script_tag_passes: script_tag_cannot_be_closed_early_by_its_payload
  by code_simp

definition identity_is_capped_too :: "codecs \<Rightarrow> bool" where
  "identity_is_capped_too K \<longleftrightarrow>
     decompress K (replicate MAX_DECOMPRESSED (CHR ''a'')) Identity \<noteq> None \<and>
     decompress K (replicate (MAX_DECOMPRESSED + 1) (CHR ''a'')) Identity = None"

lemma identity_capped_passes: "identity_is_capped_too K"
  by (simp add: identity_is_capped_too_def decompress_def)

definition injected_script_survives_a_full_round_trip :: "codecs \<Rightarrow> bool" where
  "injected_script_survives_a_full_round_trip K \<longleftrightarrow>
     (let mutated = inject_into_html test_html (script_tag ''window.__ng=1;'')
      in list_all (\<lambda>e. case round_trip K mutated e of
           None \<Rightarrow> False
         | Some received \<Rightarrow> contains ''window.__ng=1;'' received \<and> contains ''<p>hi</p>'' received) all_encodings)"

lemma injected_script_passes:
  assumes "codecs_ok K" and "\<And>e b. encoder K e b \<noteq> None"
  shows "injected_script_survives_a_full_round_trip K"
proof -
  let ?m = "inject_into_html test_html (script_tag ''window.__ng=1;'')"
  have m: "utf8_valid ?m" "length ?m \<le> MAX_DECOMPRESSED" "contains ''window.__ng=1;'' ?m" "contains ''<p>hi</p>'' ?m"
    by code_simp+
  have "compress K ?m e \<noteq> None" for e
    using assms(2) by (cases e) (simp_all add: compress_def)
  then have "round_trip K ?m e = Some ?m" for e
    using round_trip_ok [OF assms(1)] m(1,2) by blast
  then show ?thesis
    using m(3,4) by (simp add: injected_script_survives_a_full_round_trip_def all_encodings_def)
qed

section \<open>Tests of the request handler\<close>

definition requested :: "'h http_lib \<Rightarrow> string option \<Rightarrow> string option \<Rightarrow> bool" where
  "requested H dest acc =
     is_document_request H
       ((case acc of Some a \<Rightarrow> hm_insert H ''accept'' a | None \<Rightarrow> id)
         ((case dest of Some d \<Rightarrow> hm_insert H ''sec-fetch-dest'' d | None \<Rightarrow> id) (hm_empty H)))"

definition document_requests_are_recognised_from_fetch_metadata :: "'h http_lib \<Rightarrow> bool" where
  "document_requests_are_recognised_from_fetch_metadata H \<longleftrightarrow>
     requested H (Some ''document'') None \<and> requested H (Some ''DOCUMENT'') None \<and>
     \<not> requested H (Some ''empty'') (Some ''*/*'') \<and> \<not> requested H (Some ''image'') None \<and>
     \<not> requested H (Some ''script'') None \<and>
     requested H None (Some ''text/html,application/xhtml+xml'') \<and>
     \<not> requested H None (Some ''*/*'') \<and> \<not> requested H None None"

lemma document_requests_pass: "document_requests_are_recognised_from_fetch_metadata alist_http"
  by code_simp

definition parts_with :: "'h http_lib \<Rightarrow> string \<Rightarrow> string option \<Rightarrow> 'h" where
  "parts_with H content_type encoding =
     (case encoding of Some e \<Rightarrow> hm_append H ''content-encoding'' e | None \<Rightarrow> id)
       (hm_append H ''content-type'' content_type (hm_empty H))"

definition document_navigations_are_the_only_thing_injected_into :: "'h http_lib \<Rightarrow> bool" where
  "document_navigations_are_the_only_thing_injected_into H \<longleftrightarrow>
     (let html = parts_with H ''text/html; charset=utf-8'' (Some ''br'')
      in should_inject_response H html True False \<and> \<not> should_inject_response H html False False \<and>
         \<not> should_inject_response H html True True) \<and>
     list_all (\<lambda>ct. \<not> should_inject_response H (parts_with H ct (Some ''br'')) True False)
       [''application/json'', ''text/javascript'', ''text/css'', ''image/png'', ''image/svg+xml''] \<and>
     \<not> should_inject_response H (parts_with H ''text/html'' (Some ''zstd'')) True False \<and>
     \<not> should_inject_response H (parts_with H ''text/html'' (Some ''br, gzip'')) True False \<and>
     should_inject_response H (parts_with H ''text/html'' None) True False"

lemma document_navigations_pass: "document_navigations_are_the_only_thing_injected_into alist_http"
  by code_simp

section \<open>Tests of the rewritten document\<close>

definition test_front :: string where
  "test_front = ''<!doctype html><html><head><title>Post</title></head><body>'' @
     concat (replicate 50 ''<article><p>editor content</p></article>'')"

definition test_document :: string where
  "test_document = test_front @ ''</body></html>''"

definition test_huge :: string where
  "test_huge = ''<!doctype html><html><body>'' @ concat (replicate 400000 ''<p>padding</p>'') @ ''</body></html>''"

text \<open>The body of the response to a request with the script spliced in, and its reported length.\<close>

definition injected :: "'h http_lib \<Rightarrow> codecs \<Rightarrow> string \<Rightarrow> string \<Rightarrow> string \<Rightarrow> string option \<Rightarrow> u64 \<Rightarrow> string \<times> nat" where
  "injected H K guard_js bytes content_type encoding ttl =
     inject_renewal_script H K guard_js (parts_with H content_type encoding) [Some bytes] ttl"

definition gzip_document_round_trips_too :: "'h http_lib \<Rightarrow> codecs \<Rightarrow> string \<Rightarrow> bool" where
  "gzip_document_round_trips_too H K guard_js \<longleftrightarrow>
     (case compress K test_document Gzip of
        None \<Rightarrow> False
      | Some encoded \<Rightarrow>
          (case decompress K (fst (injected H K guard_js encoded ''text/html'' (Some ''gzip'') 900)) Gzip of
             None \<Rightarrow> False
           | Some html \<Rightarrow> utf8_valid html \<and> contains ''ttl:900'' html \<and> contains ''editor content'' html))"

definition identity_document_round_trips_too :: "'h http_lib \<Rightarrow> codecs \<Rightarrow> string \<Rightarrow> bool" where
  "identity_document_round_trips_too H K guard_js \<longleftrightarrow>
     (let html = fst (injected H K guard_js test_document ''text/html'' None 1800)
      in utf8_valid html \<and> contains ''__NG_CONFIG__'' html \<and> contains ''editor content'' html)"

definition corrupt_body :: string where
  "corrupt_body = [CHR 0x1B, CHR 0xFF] @ ''not brotli at all''"

definition a_corrupt_encoded_body_is_returned_untouched :: "'h http_lib \<Rightarrow> codecs \<Rightarrow> string \<Rightarrow> bool" where
  "a_corrupt_encoded_body_is_returned_untouched H K guard_js \<longleftrightarrow>
     injected H K guard_js corrupt_body ''text/html'' (Some ''br'') 1800 = (corrupt_body, length corrupt_body)"

definition a_body_over_the_cap_is_passed_through_intact :: "'h http_lib \<Rightarrow> codecs \<Rightarrow> string \<Rightarrow> bool" where
  "a_body_over_the_cap_is_passed_through_intact H K guard_js \<longleftrightarrow>
     MAX_DECOMPRESSED < length test_huge \<and>
     (case compress K test_huge Brotli of
        None \<Rightarrow> False
      | Some encoded \<Rightarrow> fst (injected H K guard_js encoded ''text/html'' (Some ''br'') 1800) = encoded)"

definition a_json_body_is_never_touched :: "'h http_lib \<Rightarrow> bool" where
  "a_json_body_is_never_touched H \<longleftrightarrow>
     (let parts = parts_with H ''application/json'' (Some ''br'')
      in \<not> should_inject_response H parts True False \<and> hm_get H parts ''content-type'' = Some ''application/json'')"

lemma contains_sublist: "contains p s \<longleftrightarrow> sublist p s"
  by (simp add: contains_def find_sub_None)

lemma encoding_of_parts:
  "response_encoding alist_http (parts_with alist_http ''text/html'' (Some ''gzip'')) = Some Gzip"
  "response_encoding alist_http (parts_with alist_http ''text/html'' (Some ''br'')) = Some Brotli"
  "response_encoding alist_http (parts_with alist_http ''text/html'' None) = Some Identity"
  by code_simp+

text \<open>One chunk within the cap is rewritten, or passed on as it is.\<close>

lemma inject_one_chunk:
  "response_encoding H hs = Some e \<Longrightarrow> length raw \<le> MAX_DECOMPRESSED \<Longrightarrow>
   inject_renewal_script H K g hs [Some raw] t =
     (case rewrite_document K g t e raw of Some b \<Rightarrow> (b, length b) | None \<Rightarrow> (raw, length raw))"
  using collect_limited_ok [of "[Some raw]" "MAX_DECOMPRESSED + 1"]
  by (simp add: inject_renewal_script_def)

lemma rfind_sub_append: "rfind_sub p v = Some i \<Longrightarrow> rfind_sub p (u @ v) = Some (length u + i)"
  by (induction u) simp_all

lemma inject_at_end: "inject_into_html (u @ ''</body></html>'') x = u @ x @ ''</body></html>''"
proof -
  have "rfind_sub ''</body>'' (to_ascii_lowercase ''</body></html>'') = Some 0" by code_simp
  from rfind_sub_append [OF this, of "to_ascii_lowercase u"]
  have "rfind_sub ''</body>'' (to_ascii_lowercase (u @ ''</body></html>'')) = Some (length u)"
    by (simp only: to_ascii_lowercase_append length_to_ascii_lowercase add_0_right)
  then show ?thesis by (simp add: inject_into_html_def Let_def)
qed

lemma list_all_replicated:
  "list_all P x \<Longrightarrow> list_all P (concat (replicate n x))"
  by (induction n) simp_all

lemma test_front_ascii: "list_all (\<lambda>c. code c < 128) test_front"
proof -
  have "list_all (\<lambda>c. code c < 128) ''<!doctype html><html><head><title>Post</title></head><body>''"
    "list_all (\<lambda>c. code c < 128) ''<article><p>editor content</p></article>''"
    by code_simp+
  then show ?thesis by (simp only: test_front_def list_all_append list_all_replicated simp_thms)
qed

lemma test_document_html: "looks_like_html test_document" "utf8_valid test_document"
proof -
  have "list_all (\<lambda>c. code c < 128) ''</body></html>''" by code_simp
  then show v: "utf8_valid test_document"
    by (intro utf8_valid_ascii) (simp only: test_document_def list_all_append test_front_ascii simp_thms)
  have "contains ''<'' test_document" by (simp add: test_document_def test_front_def contains_def)
  with v show "looks_like_html test_document" by (simp add: looks_like_html_def)
qed

lemma test_document_short: "length test_document < 3000"
  by (simp add: test_document_def test_front_def length_concat sum_list_replicate)


lemma json_body_passes: "a_json_body_is_never_touched alist_http"
  by code_simp

lemma corrupt_body_passes:
  assumes "decompress K corrupt_body Brotli = None"
  shows "a_corrupt_encoded_body_is_returned_untouched alist_http K g"
proof -
  have "length corrupt_body \<le> MAX_DECOMPRESSED" by code_simp
  then show ?thesis
    using assms by (simp add: a_corrupt_encoded_body_is_returned_untouched_def injected_def encoding_of_parts
        inject_one_chunk rewrite_document_def)
qed

text \<open>The codec brings the long document under the cap, and reads back what it wrote.\<close>

lemma body_over_cap_passes:
  assumes "codecs_ok K" and "encoder K Brotli test_huge = Some encoded" and "length encoded \<le> MAX_DECOMPRESSED"
  shows "a_body_over_the_cap_is_passed_through_intact alist_http K g"
proof -
  have "length test_huge = 400000 * 14 + 41"
    by (simp add: test_huge_def length_concat sum_list_replicate)
  then have l: "MAX_DECOMPRESSED < length test_huge" by (simp add: MAX_DECOMPRESSED_def)
  have "decoder K Brotli encoded = (test_huge, False)" using assms(1,2) by (simp add: codecs_ok_def)
  with l have "decompress K encoded Brotli = None" by (simp add: decompress_def read_capped_def)
  then show ?thesis
    using assms(2,3) l by (simp add: a_body_over_the_cap_is_passed_through_intact_def injected_def compress_def
        encoding_of_parts inject_one_chunk rewrite_document_def)
qed

text \<open>The document the origin served, with the snippet in its body.\<close>

lemma injected_document:
  assumes "response_encoding H hs = Some e" and "compress K test_document e = Some raw"
    and "length raw \<le> MAX_DECOMPRESSED" and "codecs_ok K"
    and "compress K (test_front @ renewal_snippet g t @ ''</body></html>'') e = Some out"
  shows "inject_renewal_script H K g hs [Some raw] t = (out, length out)"
proof -
  have "length test_document \<le> MAX_DECOMPRESSED" using test_document_short by (simp add: MAX_DECOMPRESSED_def)
  then have "decompress K raw e = Some test_document"
    using decompress_compress [OF assms(4,2)] by simp
  then have "rewrite_document K g t e raw = Some out"
    using test_document_html assms(5) by (simp add: rewrite_document_Some test_document_def inject_at_end)
  then show ?thesis using inject_one_chunk [OF assms(1,3)] by simp
qed

lemma contains_mid: "contains p s \<Longrightarrow> contains p (u @ s @ v)"
  unfolding contains_sublist sublist_def by (metis append.assoc)

lemma contains_append: "contains p u \<Longrightarrow> contains p (u @ v)"
  using contains_mid [of p u "[]" v] by simp

lemma test_front_text: "contains ''editor content'' test_front"
proof -
  have "test_front = ''<!doctype html><html><head><title>Post</title></head><body>'' @
      ''<article><p>editor content</p></article>'' @ concat (replicate 49 ''<article><p>editor content</p></article>'')"
    by (simp add: test_front_def numeral_eq_Suc)
  moreover have "contains ''editor content'' ''<article><p>editor content</p></article>''" by code_simp
  ultimately show ?thesis using contains_mid by metis
qed

lemma snippet_text: "contains p (config_script t) \<Longrightarrow> contains p (u @ renewal_snippet g t @ v)"
  unfolding renewal_snippet_def append.assoc by (rule contains_mid)

lemma snippet_ttl: "contains (''ttl:'' @ dec (unat t)) (config_script t)"
proof -
  have "config_script t = (''<script>window.__NG_CONFIG__={bits:'' @ dec DIFFICULTY @ '','') @ (''ttl:'' @ dec (unat t)) @
      ('',renew:'' @ quote ''/__ng/challenge'' @ '',verify:'' @ quote ''/__ng/verify'' @ ''};</script>'')"
    by (simp add: config_script_def)
  then show ?thesis
    using contains_mid [of "''ttl:'' @ dec (unat t)" "''ttl:'' @ dec (unat t)"]
    by (simp only: contains_sublist sublist_order.order_refl simp_thms)
qed

lemma snippet_config: "contains ''__NG_CONFIG__'' (config_script t)"
proof -
  have "contains ''__NG_CONFIG__'' ''<script>window.__NG_CONFIG__={bits:''" by code_simp
  then show ?thesis unfolding config_script_def by (rule contains_append)
qed

lemma utf8_valid_append: "utf8_valid u \<Longrightarrow> utf8_valid (u @ v) = utf8_valid v"
proof (induction u rule: utf8_valid.induct)
  case (2 c cs)
  obtain n where n: "utf8_unit (c # cs) = (n, True)" using 2(2) by (auto split: prod.splits)
  have l: "n \<le> length (c # cs)" "0 < n" using utf8_unit_length [OF n] utf8_unit_pos [OF n] by auto
  have "utf8_unit (take n (c # cs) @ (drop n (c # cs) @ v)) = (n, True)" by (rule utf8_unit_append [OF n])
  then have "utf8_valid (take n (c # cs) @ (drop n (c # cs) @ v)) = utf8_valid (drop n (c # cs) @ v)"
    by (intro utf8_valid_unit) (use l in \<open>auto simp del: utf8_unit.simps\<close>)
  moreover have "utf8_valid (drop n (c # cs) @ v) = utf8_valid v"
    by (rule 2(1) [OF n [symmetric]]) (use 2(2) n in \<open>auto simp del: utf8_unit.simps\<close>)
  ultimately show ?case by (metis append.assoc append_take_drop_id)
qed simp

lemma rewritten_text:
  assumes "utf8_valid (renewal_snippet g t)"
  shows "utf8_valid (test_front @ renewal_snippet g t @ ''</body></html>'')"
proof -
  have e: "utf8_valid ''</body></html>''" by code_simp
  have "utf8_valid test_front"
    by (rule utf8_valid_ascii [OF test_front_ascii])
  then show ?thesis using assms e by (simp only: utf8_valid_append)
qed

text \<open>
  The snippet is text, as \<open>guard.js\<close> is; the encoder does not fail, and the rewritten document is within the cap.
\<close>

lemma gzip_document_passes:
  assumes "codecs_ok K" and "encoder K Gzip test_document = Some raw" and "length raw \<le> MAX_DECOMPRESSED"
    and "encoder K Gzip (test_front @ renewal_snippet g 900 @ ''</body></html>'') = Some out"
    and "length (test_front @ renewal_snippet g 900 @ ''</body></html>'') \<le> MAX_DECOMPRESSED"
    and "utf8_valid (renewal_snippet g 900)"
  shows "gzip_document_round_trips_too alist_http K g"
proof -
  let ?html = "test_front @ renewal_snippet g 900 @ ''</body></html>''"
  have c: "compress K test_document Gzip = Some raw" "compress K ?html Gzip = Some out"
    using assms(2,4) by (simp_all add: compress_def)
  have "injected alist_http K g raw ''text/html'' (Some ''gzip'') 900 = (out, length out)"
    unfolding injected_def using injected_document [OF encoding_of_parts(1) c(1) assms(3,1) c(2)] .
  moreover have "decompress K out Gzip = Some ?html" by (rule decompress_compress [OF assms(1) c(2) assms(5)])
  moreover have "dec (unat (900 :: u64)) = ''900''" by code_simp
  with snippet_ttl [of 900] have "contains ''ttl:900'' ?html" by (intro snippet_text) simp
  ultimately show ?thesis
    using c(1) rewritten_text [OF assms(6)] contains_append [OF test_front_text]
    by (simp add: gzip_document_round_trips_too_def)
qed

lemma identity_document_passes:
  assumes "utf8_valid (renewal_snippet g 1800)" and "codecs_ok K"
  shows "identity_document_round_trips_too alist_http K g"
proof -
  let ?html = "test_front @ renewal_snippet g 1800 @ ''</body></html>''"
  have c: "compress K test_document Identity = Some test_document" "compress K ?html Identity = Some ?html"
    by (simp_all add: compress_def)
  have "length test_document \<le> MAX_DECOMPRESSED" using test_document_short by (simp add: MAX_DECOMPRESSED_def)
  then have "injected alist_http K g test_document ''text/html'' None 1800 = (?html, length ?html)"
    unfolding injected_def using injected_document [OF encoding_of_parts(3) c(1) _ assms(2) c(2)] by blast
  then show ?thesis
    using rewritten_text [OF assms(1)] contains_append [OF test_front_text] snippet_text [OF snippet_config]
    by (simp add: identity_document_round_trips_too_def)
qed

end
