(* ===== verification/Conformance_Codec.thy ===== *)
theory Conformance_Codec
  imports Conformance_Inject
begin

text \<open>
  The tests of \<open>nekoguard/src/inject.rs\<close> and \<open>main.rs\<close> that run a compressor on a whole document or a decoder
  on bytes that are not a stream, with what each needs of the libraries.
\<close>

section \<open>Tests of the codecs\<close>

definition oversize_documents_are_refused_not_truncated :: "codecs \<Rightarrow> bool" where
  "oversize_documents_are_refused_not_truncated K \<longleftrightarrow>
     (let bomb = concat (replicate 1500000 ''<p>a</p>'') in
      case compress K bomb Brotli of
        None \<Rightarrow> False
      | Some compressed \<Rightarrow> length compressed < 100000 \<and> decompress K compressed Brotli = None)"

text \<open>The codec reads back what it wrote, and brings the document below the size the test asks for.\<close>

lemma oversize_passes:
  assumes "codecs_ok K" and "encoder K Brotli (concat (replicate 1500000 ''<p>a</p>'')) = Some z" and "length z < 100000"
  shows "oversize_documents_are_refused_not_truncated K"
proof -
  let ?bomb = "concat (replicate 1500000 ''<p>a</p>'')"
  have "MAX_DECOMPRESSED < length ?bomb" by (simp add: length_concat sum_list_replicate MAX_DECOMPRESSED_def)
  moreover have "decoder K Brotli z = (?bomb, False)" using assms(1,2) by (simp add: codecs_ok_def)
  ultimately have "decompress K z Brotli = None" by (simp add: decompress_def read_capped_def)
  then show ?thesis
    using assms(2,3) by (simp add: oversize_documents_are_refused_not_truncated_def compress_def)
qed

definition corrupt_streams_are_refused :: "codecs \<Rightarrow> bool" where
  "corrupt_streams_are_refused K \<longleftrightarrow>
     decompress K ([CHR 0x1B, CHR 0x02] @ ''not really brotli'') Brotli = None \<and>
     decompress K ([CHR 0x1F, CHR 0x8B] @ '' garbage'') Gzip = None"

text \<open>The decoders fail at these bytes, before they have produced more than the cap.\<close>

lemma corrupt_streams_pass:
  assumes "decoder K Brotli ([CHR 0x1B, CHR 0x02] @ ''not really brotli'') = (b, True)" and "length b \<le> MAX_DECOMPRESSED"
    and "decoder K Gzip ([CHR 0x1F, CHR 0x8B] @ '' garbage'') = (g, True)" and "length g \<le> MAX_DECOMPRESSED"
  shows "corrupt_streams_are_refused K"
  using assms by (simp add: corrupt_streams_are_refused_def decompress_def read_capped_def)

section \<open>The document that comes back compressed\<close>

definition brotli_document_is_decoded_injected_and_re_encoded :: "'h http_lib \<Rightarrow> codecs \<Rightarrow> string \<Rightarrow> bool" where
  "brotli_document_is_decoded_injected_and_re_encoded H K guard_js \<longleftrightarrow>
     (case compress K test_document Brotli of
        None \<Rightarrow> False
      | Some encoded \<Rightarrow>
          (case injected H K guard_js encoded ''text/html; charset=utf-8'' (Some ''br'') 1800 of
             (out, len) \<Rightarrow>
               (case decompress K out Brotli of
                  None \<Rightarrow> False
                | Some html \<Rightarrow>
                    utf8_valid html \<and> contains ''__NG_CONFIG__'' html \<and> contains ''ttl:1800'' html \<and>
                    contains ''editor content'' html \<and> contains ''</body>'' html \<and>
                    (case (find_sub ''__NG_CONFIG__'' html, find_sub ''</body>'' html) of
                       (Some i, Some j) \<Rightarrow> i < j | _ \<Rightarrow> False) \<and>
                    count_sub ''<script>window.__NG_CONFIG__='' html = 1) \<and>
               len = length out))"

text \<open>A character that another one never follows, nor the end, cannot begin a word that begins with the two.\<close>

fun apart :: "char \<Rightarrow> char \<Rightarrow> string \<Rightarrow> bool" where
  "apart a b [] \<longleftrightarrow> True"
| "apart a b [c] \<longleftrightarrow> c \<noteq> a"
| "apart a b (c # d # s) \<longleftrightarrow> \<not> (c = a \<and> d = b) \<and> apart a b (d # s)"

lemma apart_append: "apart a b u \<Longrightarrow> apart a b v \<Longrightarrow> apart a b (u @ v)"
proof (induction a b u rule: apart.induct)
  case (2 a b c)
  then show ?case by (cases v) auto
qed auto

lemma apart_repeated: "apart a b u \<Longrightarrow> apart a b (concat (replicate n u))"
  by (induction n) (auto intro: apart_append)

lemma count_apart: "apart a b u \<Longrightarrow> count_sub (a # b # q) (u @ s) = count_sub (a # b # q) s"
  by (induction a b u rule: apart.induct) auto

lemma count_here: "prefix p w \<Longrightarrow> w \<noteq> [] \<Longrightarrow> count_sub p (w @ s) = Suc (count_sub p (tl w @ s))"
proof (cases w)
  case (Cons c cs)
  assume "prefix p w"
  then have "prefix p (c # cs @ s)" using Cons prefix_prefix [of p w s] by simp
  with Cons show ?thesis by simp
qed simp

lemma apart_no_sub: "apart a b u \<Longrightarrow> \<not> sublist (a # b # q) u"
  by (induction a b u rule: apart.induct) (auto simp: sublist_Cons_right)

lemma count_absent: "\<not> contains p s \<Longrightarrow> count_sub p s = 0"
  unfolding contains_sublist by (induction s) (auto simp: sublist_Cons_right)

text \<open>The two texts in the order the test asks for.\<close>

lemma found_before:
  assumes "sublist p u" and "\<not> sublist q u" and "length q \<le> length p" and "sublist q (u @ v)"
  shows "\<exists>i j. find_sub p (u @ v) = Some i \<and> find_sub q (u @ v) = Some j \<and> i < j"
proof -
  obtain i where i: "find_sub p (u @ v) = Some i" "i + length p \<le> length u"
    using find_sub_first [OF assms(1)] by blast
  obtain j where j: "find_sub q (u @ v) = Some j" using assms(4) find_sub_None by fastforce
  have "\<not> j + length q \<le> length u"
  proof
    assume le: "j + length q \<le> length u"
    let ?a = "take j (u @ v)"
    have "u @ v = (?a @ q) @ drop (j + length q) (u @ v)"
      unfolding append_assoc by (rule find_sub_Some [OF j])
    then have "take (length (?a @ q)) (u @ v) = ?a @ q" by (metis append_eq_conv_conj)
    moreover have "length (?a @ q) = j + length q" using le by simp
    ultimately have "take (j + length q) u = ?a @ q" using le by simp
    then have "sublist q (take (j + length q) u)" using sublist_appendI [of q ?a "[]"] by (simp only: append_Nil2)
    then show False using assms(2) sublist_take sublist_order.order_trans by blast
  qed
  then have "i < j" using i(2) assms(3) by simp
  with i(1) j show ?thesis by blast
qed

definition config_rest :: string where
  "config_rest = drop 28 (config_script 1800)"

lemma config_split: "config_script 1800 = ''<script>window.__NG_CONFIG__'' @ config_rest"
  by code_simp

lemma front_apart:
  "apart (CHR ''<'') (CHR ''s'') test_front" "apart (CHR ''/'') (CHR ''b'') test_front"
proof -
  have "apart (CHR ''<'') (CHR ''s'') ''<!doctype html><html><head><title>Post</title></head><body>''"
    "apart (CHR ''<'') (CHR ''s'') ''<article><p>editor content</p></article>''"
    "apart (CHR ''/'') (CHR ''b'') ''<!doctype html><html><head><title>Post</title></head><body>''"
    "apart (CHR ''/'') (CHR ''b'') ''<article><p>editor content</p></article>''"
    by code_simp+
  note pieces = this
  show "apart (CHR ''<'') (CHR ''s'') test_front"
    unfolding test_front_def by (rule apart_append [OF pieces(1) apart_repeated [OF pieces(2)]])
  show "apart (CHR ''/'') (CHR ''b'') test_front"
    unfolding test_front_def by (rule apart_append [OF pieces(3) apart_repeated [OF pieces(4)]])
qed

lemma front_order: "\<not> sublist ''</body>'' (test_front @ ''<script>window.__NG_CONFIG__'')"
proof -
  have "apart (CHR ''/'') (CHR ''b'') ''<script>window.__NG_CONFIG__''" by code_simp
  from apart_no_sub [OF apart_append [OF front_apart(2) this], of "''ody>''"]
  have "\<not> sublist ''/body>'' (test_front @ ''<script>window.__NG_CONFIG__'')" by simp
  moreover have "sublist ''/body>'' ''</body>''" by code_simp
  ultimately show ?thesis using sublist_order.order_trans by blast
qed

lemma prelude_once:
  assumes "\<not> contains ''<script>window.__NG_CONFIG__='' (script_tag g @ ''</body></html>'')"
  shows "count_sub ''<script>window.__NG_CONFIG__='' (test_front @ renewal_snippet g 1800 @ ''</body></html>'') = 1"
proof -
  let ?p = "''<script>window.__NG_CONFIG__=''" and ?s = "script_tag g @ ''</body></html>''"
  have p: "prefix ?p (config_script 1800)" by code_simp
  have a: "apart (CHR ''<'') (CHR ''s'') (tl (config_script 1800))" by code_simp
  have "count_sub ?p (test_front @ renewal_snippet g 1800 @ ''</body></html>'') = count_sub ?p (config_script 1800 @ ?s)"
    using count_apart [OF front_apart(1)] by (simp add: renewal_snippet_def)
  also have "\<dots> = Suc (count_sub ?p (tl (config_script 1800) @ ?s))"
    by (rule count_here [OF p]) (simp add: config_script_def)
  also have "count_sub ?p (tl (config_script 1800) @ ?s) = 0"
    using count_apart [OF a] count_absent [OF assms] by simp
  finally show ?thesis by simp
qed

text \<open>
  The snippet is text and the guard does not set the configuration itself; the encoder does not fail, and
  both documents are within the cap.
\<close>

lemma brotli_document_passes:
  assumes "codecs_ok K" and "encoder K Brotli test_document = Some raw" and "length raw \<le> MAX_DECOMPRESSED"
    and "encoder K Brotli (test_front @ renewal_snippet g 1800 @ ''</body></html>'') = Some out"
    and "length (test_front @ renewal_snippet g 1800 @ ''</body></html>'') \<le> MAX_DECOMPRESSED"
    and "utf8_valid (renewal_snippet g 1800)"
    and "\<not> contains ''<script>window.__NG_CONFIG__='' (script_tag g @ ''</body></html>'')"
  shows "brotli_document_is_decoded_injected_and_re_encoded alist_http K g"
proof -
  let ?html = "test_front @ renewal_snippet g 1800 @ ''</body></html>''"
  have c: "compress K test_document Brotli = Some raw" "compress K ?html Brotli = Some out"
    using assms(2,4) by (simp_all add: compress_def)
  have "response_encoding alist_http (parts_with alist_http ''text/html; charset=utf-8'' (Some ''br'')) = Some Brotli"
    by code_simp
  from injected_document [OF this c(1) assms(3,1) c(2)]
  have i: "injected alist_http K g raw ''text/html; charset=utf-8'' (Some ''br'') 1800 = (out, length out)"
    unfolding injected_def .
  have d: "decompress K out Brotli = Some ?html" by (rule decompress_compress [OF assms(1) c(2) assms(5)])
  have "dec (unat (1800 :: u64)) = ''1800''" by code_simp
  with snippet_ttl [of 1800] have t: "contains ''ttl:1800'' ?html" by (intro snippet_text) simp
  have n: "contains ''__NG_CONFIG__'' ?html" by (rule snippet_text [OF snippet_config])
  have "contains ''</body>'' ''</body></html>''" by code_simp
  from contains_mid [OF this, of "test_front @ renewal_snippet g 1800" "[]"] have b: "contains ''</body>'' ?html" by simp
  have "sublist ''__NG_CONFIG__'' ''<script>window.__NG_CONFIG__''" by code_simp
  then have s: "sublist ''__NG_CONFIG__'' (test_front @ ''<script>window.__NG_CONFIG__'')"
    using contains_mid [of "''__NG_CONFIG__''" "''<script>window.__NG_CONFIG__''" test_front "[]"]
    by (simp only: contains_sublist append_Nil2)
  have h: "?html = (test_front @ ''<script>window.__NG_CONFIG__'') @ config_rest @ script_tag g @ ''</body></html>''"
    by (simp add: renewal_snippet_def config_split)
  have "\<exists>i j. find_sub ''__NG_CONFIG__'' ?html = Some i \<and> find_sub ''</body>'' ?html = Some j \<and> i < j"
    using found_before [OF s front_order, of "config_rest @ script_tag g @ ''</body></html>''"] b
    unfolding contains_sublist h by simp
  then obtain k j where o: "find_sub ''__NG_CONFIG__'' ?html = Some k" "find_sub ''</body>'' ?html = Some j" "k < j" by blast
  show ?thesis
    unfolding brotli_document_is_decoded_injected_and_re_encoded_def c(1) i d option.case prod.case o(1,2)
    using rewritten_text [OF assms(6)] n t contains_append [OF test_front_text] b o(3) prelude_once [OF assms(7)] by blast
qed

end
