(* ===== verification/Head_Regex.thy ===== *)
theory Head_Regex
  imports Embed_Scrape "HOL-Library.Code_Target_Nat"
begin

text \<open>
  The four regular expressions of \<open>nekoguard/src/embed.rs\<close> (\<open>TITLE_RE\<close>, \<open>META_TAG_RE\<close>, \<open>LINK_TAG_RE\<close>,
  \<open>ATTR_RE\<close>) as data, with the documented search of the crate that runs them: leftmost, and among the
  matches at one place the one a backtracking engine finds first. This makes the parameter of
  \<open>Embed_Scrape\<close> concrete.
\<close>

section \<open>Definitions\<close>

subsection \<open>Expressions\<close>

text \<open>
  A class says how many bytes at the head of a text are one character it accepts. The expressions repeat
  only classes, greedily (\<open>Many\<close>) or lazily (\<open>Few\<close>).
\<close>

type_synonym char_class = "string \<Rightarrow> nat option"

datatype regex =
    Cls char_class
  | Many char_class
  | Few char_class
  | Cat regex regex
  | Either regex regex
  | Group nat regex

type_synonym groups = "(nat \<times> string) list"

definition one_of :: "string list \<Rightarrow> char_class" where
  "one_of ws s = map_option length (find (\<lambda>w. prefix w s) ws)"

definition any_char :: char_class where
  "any_char s = (if s = [] then None else Some (max 1 (fst (utf8_unit s))))"

definition none_of :: "char \<Rightarrow> char_class" where
  "none_of c s = (if s = [] \<or> hd s = c then None else any_char s)"

definition space_class :: char_class where
  "space_class = one_of white_space"

text \<open>
  A letter without regard to case: its two forms, and the sign that Unicode folds to it (the Kelvin sign
  for \<open>k\<close>, the long s for \<open>s\<close>).
\<close>

definition folded :: "char \<Rightarrow> string list" where
  "folded c =
     [[c], [char_of (code c - 32)]] @
     (if c = CHR ''k'' then [[CHR 0xE2, CHR 0x84, CHR 0xAA]] else []) @
     (if c = CHR ''s'' then [[CHR 0xC5, CHR 0xBF]] else [])"

definition letters_az :: "string list" where
  "letters_az = concat (map folded ''abcdefghijklmnopqrstuvwxyz'')"

fun word :: "string \<Rightarrow> regex \<Rightarrow> regex" where
  "word [] r = r"
| "word (c # cs) r =
     Cat (Cls (one_of (if code (CHR ''a'') \<le> code c \<and> code c \<le> code (CHR ''z'') then folded c else [[c]]))) (word cs r)"

subsection \<open>Matching\<close>

text \<open>The backtracking matcher: \<open>k\<close> is what has to match the rest.\<close>

definition step :: "char_class \<Rightarrow> string \<Rightarrow> string option" where
  "step p s = (case p s of Some (Suc n) \<Rightarrow> if s = [] then None else Some (drop (Suc n) s) | _ \<Rightarrow> None)"

lemma step_shorter: "step p s = Some t \<Longrightarrow> length t < length s"
  by (auto simp: step_def split: option.splits nat.splits if_splits)

function match :: "regex \<Rightarrow> string \<Rightarrow> groups \<Rightarrow> (string \<Rightarrow> groups \<Rightarrow> 'a option) \<Rightarrow> 'a option" where
  "match (Cls p) s g k = (case step p s of None \<Rightarrow> None | Some t \<Rightarrow> k t g)"
| "match (Many p) s g k =
     (case (case step p s of None \<Rightarrow> None | Some t \<Rightarrow> match (Many p) t g k) of Some x \<Rightarrow> Some x | None \<Rightarrow> k s g)"
| "match (Few p) s g k =
     (case k s g of Some x \<Rightarrow> Some x | None \<Rightarrow> (case step p s of None \<Rightarrow> None | Some t \<Rightarrow> match (Few p) t g k))"
| "match (Cat a b) s g k = match a s g (\<lambda>t h. match b t h k)"
| "match (Either a b) s g k = (case match a s g k of Some x \<Rightarrow> Some x | None \<Rightarrow> match b s g k)"
| "match (Group i a) s g k = match a s g (\<lambda>t h. k t (h @ [(i, take (length s - length t) s)]))"
  by pat_completeness auto
termination
  by (relation "inv_image (less_than <*lex*> less_than) (\<lambda>(r, s, g, k). (size r, length s))")
    (auto dest: step_shorter)

definition match_here :: "regex \<Rightarrow> string \<Rightarrow> (string \<times> groups) option" where
  "match_here r s = match r s [] (\<lambda>t g. Some (t, g))"

text \<open>\<open>find\<close>: the leftmost match, as the text before it, the match, its groups and the text after it.\<close>

fun find_first :: "regex \<Rightarrow> string \<Rightarrow> (string \<times> string \<times> groups \<times> string) option" where
  "find_first r [] = None"
| "find_first r (c # cs) =
     (case match_here r (c # cs) of
        Some (t, g) \<Rightarrow> Some ([], take (Suc (length cs) - length t) (c # cs), g, t)
      | None \<Rightarrow> map_option (\<lambda>(a, m, g, t). (c # a, m, g, t)) (find_first r cs))"

text \<open>\<open>find_iter\<close> and \<open>captures_iter\<close>: the matches from left to right, none overlapping.\<close>

function find_all :: "regex \<Rightarrow> string \<Rightarrow> (string \<times> groups) list" where
  "find_all r s =
     (case find_first r s of
        None \<Rightarrow> []
      | Some (a, m, g, t) \<Rightarrow> (m, g) # (if length t < length s then find_all r t else []))"
  by pat_completeness auto
termination
  by (relation "measure (\<lambda>(r, s). length s)") auto

declare find_all.simps [simp del]

subsection \<open>The expressions of the program\<close>

definition TITLE_RE :: regex where
  "TITLE_RE =
     word ''<title'' (Cat (Many (none_of (CHR ''>''))) (Cat (Cls (one_of [''>''])) (Cat (Group 1 (Few any_char))
       (word ''</title'' (Cat (Many space_class) (Cls (one_of [''>''])))))))"

definition META_TAG_RE :: regex where
  "META_TAG_RE = word ''<meta'' (Cat (Cls space_class) (Cat (Many (none_of (CHR ''>''))) (Cls (one_of [''>'']))))"

definition LINK_TAG_RE :: regex where
  "LINK_TAG_RE = word ''<link'' (Cat (Cls space_class) (Cat (Many (none_of (CHR ''>''))) (Cls (one_of [''>'']))))"

definition quoted_value :: "char \<Rightarrow> nat \<Rightarrow> regex" where
  "quoted_value c i = Cat (Cls (one_of [[c]])) (Cat (Group i (Many (none_of c))) (Cls (one_of [[c]])))"

definition letter_class :: char_class where
  "letter_class = one_of letters_az"

definition name_words :: "string list" where
  "name_words = letters_az @ map (\<lambda>c. [c]) ''0123456789:_-''"

definition name_class :: char_class where
  "name_class = one_of name_words"

definition ATTR_RE :: regex where
  "ATTR_RE =
     Cat (Cls space_class)
    (Cat (Group 1 (Cat (Cls letter_class) (Many name_class)))
    (Cat (Many space_class) (Cat (Cls (one_of [''='']))
    (Cat (Many space_class) (Either (quoted_value (CHR 0x22) 2) (quoted_value (CHR 0x27) 3))))))"

definition page_regexes :: head_regexes where
  "page_regexes =
     \<lparr>meta_tags = (\<lambda>s. map fst (find_all META_TAG_RE s)),
      link_tags = (\<lambda>s. map fst (find_all LINK_TAG_RE s)),
      attrs = (\<lambda>s. map (\<lambda>(m, g). (the (map_of g 1), map_of g 2, map_of g 3)) (find_all ATTR_RE s)),
      title_text = (\<lambda>s. Option.bind (find_first TITLE_RE s) (\<lambda>(a, m, g, t). map_of g 1)),
      title_replace = (\<lambda>page r. case find_first TITLE_RE page of
         None \<Rightarrow> page | Some (a, m, g, t) \<Rightarrow> a @ r @ t)\<rparr>"

subsection \<open>Faster evaluation\<close>

text \<open>An ASCII character is looked up by its code.\<close>

definition ascii_words :: "string list \<Rightarrow> bool" where
  "ascii_words ws = list_all (\<lambda>w. w \<noteq> [] \<and> (length w = 1 \<or> 128 \<le> code (hd w))) ws"

lemma one_of_ascii:
  assumes "ascii_words ws" and "code c < 128"
  shows "one_of ws (c # cs) = (if [c] \<in> set ws then Some 1 else None)"
proof -
  have one: "w = [c]" if "w \<in> set ws" "prefix w (c # cs)" for w
  proof -
    have "w \<noteq> []" "length w = 1 \<or> 128 \<le> code (hd w)"
      using that(1) assms(1) by (auto simp: ascii_words_def list_all_iff)
    then show ?thesis using that(2) assms(2) by (cases w) auto
  qed
  show ?thesis
  proof (cases "find (\<lambda>w. prefix w (c # cs)) ws")
    case None
    then have "\<not> prefix [c] (c # cs)" if "[c] \<in> set ws" using that by (auto simp: find_None_iff)
    then show ?thesis using None by (auto simp: one_of_def)
  next
    case (Some w)
    then have "w \<in> set ws" "prefix w (c # cs)" by (auto simp: find_Some_iff)
    then show ?thesis using one [of w] Some by (auto simp: one_of_def)
  qed
qed

lemma one_of_Nil: "ascii_words ws \<Longrightarrow> one_of ws [] = None"
  by (auto simp: one_of_def ascii_words_def list_all_iff find_None_iff)

lemma ascii_class_code:
  assumes "ascii_words ws" and "list_all (\<lambda>n. [char_of n] \<in> set ws \<longleftrightarrow> P n) [0..<128]"
  shows "one_of ws s = (case s of [] \<Rightarrow> None
    | c # cs \<Rightarrow> if code c < 128 then (if P (code c) then Some 1 else None) else one_of ws s)"
proof (cases s)
  case (Cons c cs)
  have "[c] \<in> set ws \<longleftrightarrow> P (code c)" if "code c < 128"
    using assms(2) that by (force simp: list_all_iff code_def)
  then show ?thesis using Cons one_of_ascii [OF assms(1)] by simp
qed (simp add: one_of_Nil [OF assms(1)])

definition is_name_code :: "nat \<Rightarrow> bool" where
  "is_name_code n \<longleftrightarrow> 65 \<le> n \<and> n \<le> 90 \<or> 97 \<le> n \<and> n \<le> 122"

lemma space_class_code [code]:
  "space_class s = (case s of [] \<Rightarrow> None
     | c # cs \<Rightarrow> if code c < 128 then (if code c = 32 \<or> 9 \<le> code c \<and> code c \<le> 13 then Some 1 else None)
         else one_of white_space s)"
proof -
  have "ascii_words white_space"
    "list_all (\<lambda>n. [char_of n] \<in> set white_space \<longleftrightarrow> n = 32 \<or> 9 \<le> n \<and> n \<le> 13) [0..<128]"
    by code_simp+
  from ascii_class_code [OF this] show ?thesis by (simp add: space_class_def)
qed

lemma letter_class_code [code]:
  "letter_class s = (case s of [] \<Rightarrow> None
     | c # cs \<Rightarrow> if code c < 128 then (if is_name_code (code c) then Some 1 else None) else one_of letters_az s)"
proof -
  have "ascii_words letters_az" "list_all (\<lambda>n. [char_of n] \<in> set letters_az \<longleftrightarrow> is_name_code n) [0..<128]"
    by code_simp+
  from ascii_class_code [OF this] show ?thesis by (simp add: letter_class_def)
qed

lemma name_class_code [code]:
  "name_class s = (case s of [] \<Rightarrow> None
     | c # cs \<Rightarrow> if code c < 128
         then (if is_name_code (code c) \<or> 48 \<le> code c \<and> code c \<le> 58 \<or> code c = 95 \<or> code c = 45 then Some 1 else None)
         else one_of name_words s)"
proof -
  have "ascii_words name_words"
    "list_all (\<lambda>n. [char_of n] \<in> set name_words \<longleftrightarrow> is_name_code n \<or> 48 \<le> n \<and> n \<le> 58 \<or> n = 95 \<or> n = 45) [0..<128]"
    by code_simp+
  from ascii_class_code [OF this] show ?thesis by (simp add: name_class_def)
qed

lemma any_char_code [code]:
  "any_char s = (case s of [] \<Rightarrow> None
     | c # cs \<Rightarrow> if code c < 128 then Some 1 else Some (max 1 (fst (utf8_unit s))))"
  by (cases s) (auto simp: any_char_def cont_ranges_def)

section \<open>All matches in order of preference\<close>

text \<open>The rests of a text after 0, 1, 2, ... characters of a class.\<close>

function reps :: "char_class \<Rightarrow> string \<Rightarrow> string list" where
  "reps p s = s # (case step p s of None \<Rightarrow> [] | Some t \<Rightarrow> reps p t)"
  by pat_completeness auto
termination
  by (relation "measure (\<lambda>(p, s). length s)") (auto dest: step_shorter)

declare reps.simps [simp del]

text \<open>What an expression can match at the head of a text, the preferred match first.\<close>

primrec runs :: "regex \<Rightarrow> string \<Rightarrow> (string \<times> groups) list" where
  "runs (Cls p) s = (case step p s of None \<Rightarrow> [] | Some t \<Rightarrow> [(t, [])])"
| "runs (Many p) s = map (\<lambda>t. (t, [])) (rev (reps p s))"
| "runs (Few p) s = map (\<lambda>t. (t, [])) (reps p s)"
| "runs (Cat a b) s = concat (map (\<lambda>(t, g). map (\<lambda>(u, h). (u, g @ h)) (runs b t)) (runs a s))"
| "runs (Either a b) s = runs a s @ runs b s"
| "runs (Group i a) s = map (\<lambda>(t, g). (t, g @ [(i, take (length s - length t) s)])) (runs a s)"

fun first_some :: "('a \<Rightarrow> 'b option) \<Rightarrow> 'a list \<Rightarrow> 'b option" where
  "first_some f [] = None"
| "first_some f (x # xs) = (case f x of Some y \<Rightarrow> Some y | None \<Rightarrow> first_some f xs)"

lemma first_some_append:
  "first_some f (xs @ ys) = (case first_some f xs of Some y \<Rightarrow> Some y | None \<Rightarrow> first_some f ys)"
  by (induction xs) (auto split: option.splits)

lemma first_some_map: "first_some f (map h xs) = first_some (\<lambda>x. f (h x)) xs"
  by (induction xs) (auto split: option.splits)

lemma first_some_concat: "first_some f (concat (map h xs)) = first_some (\<lambda>x. first_some f (h x)) xs"
  by (induction xs) (auto simp: first_some_append split: option.splits)

lemma first_some_Some: "first_some Some xs = (case xs of [] \<Rightarrow> None | x # _ \<Rightarrow> Some x)"
  by (cases xs) auto

lemma match_runs:
  "match r s g k = first_some (\<lambda>(t, h). k t (g @ h)) (runs r s)"
proof (induction r s g k rule: match.induct)
  case (2 p s g k)
  then show ?case
    by (cases "step p s")
      (simp_all add: reps.simps [of p s] first_some_append first_some_map rev_map [symmetric] split: option.splits)
next
  case (3 p s g k)
  then show ?case
    by (cases "step p s") (simp_all add: reps.simps [of p s] first_some_map split: option.splits)
next
  case (4 a b s g k)
  then show ?case
    by (simp add: first_some_concat first_some_map case_prod_unfold)
next
  case (5 a b s g k)
  then show ?case by (auto simp: first_some_append split: option.splits)
next
  case (6 i a s g k)
  then show ?case by (simp add: first_some_map case_prod_unfold)
qed (auto split: option.splits)

lemma match_here_runs: "match_here r s = (case runs r s of [] \<Rightarrow> None | x # _ \<Rightarrow> Some x)"
  by (simp add: match_here_def match_runs first_some_Some [symmetric] case_prod_unfold)

lemma step_suffix: "step p s = Some t \<Longrightarrow> suffix t s"
  by (auto simp: step_def suffix_drop split: option.splits nat.splits if_splits)

lemma reps_None: "step p s = None \<Longrightarrow> reps p s = [s]"
  by (simp add: reps.simps [of p s])

lemma reps_Some: "step p s = Some t \<Longrightarrow> reps p s = s # reps p t"
  by (simp add: reps.simps [of p s])

lemma reps_suffix: "t \<in> set (reps p s) \<Longrightarrow> suffix t s"
proof (induction p s rule: reps.induct)
  case (1 p s)
  show ?case
  proof (cases "step p s")
    case None
    then show ?thesis using 1(2) by (simp add: reps_None)
  next
    case (Some u)
    then consider "t = s" | "t \<in> set (reps p u)" using 1(2) by (auto simp: reps_Some)
    then show ?thesis
    proof cases
      case 2
      then show ?thesis using 1(1) [OF Some] step_suffix [OF Some] by (blast intro: suffix_order.trans)
    qed simp
  qed
qed

lemma runs_suffix: "(t, g) \<in> set (runs r s) \<Longrightarrow> suffix t s"
proof (induction r arbitrary: s t g)
  case (Cls p)
  then show ?case using step_suffix by (auto split: option.splits)
next
  case (Many p)
  then show ?case using reps_suffix by auto
next
  case (Few p)
  then show ?case using reps_suffix by auto
next
  case (Cat a b)
  then obtain u h h' where "(u, h) \<in> set (runs a s)" "(t, h') \<in> set (runs b u)" by auto
  with Cat.IH show ?case by (blast intro: suffix_order.trans)
next
  case (Either a b)
  then show ?case by auto
next
  case (Group i a)
  then show ?case by auto
qed

lemma in_runs:
  "(t, g) \<in> set (runs (Cls p) s) \<longleftrightarrow> step p s = Some t \<and> g = []"
  "(t, g) \<in> set (runs (Many p) s) \<longleftrightarrow> t \<in> set (reps p s) \<and> g = []"
  "(t, g) \<in> set (runs (Few p) s) \<longleftrightarrow> t \<in> set (reps p s) \<and> g = []"
  "(t, g) \<in> set (runs (Cat a b) s) \<longleftrightarrow>
     (\<exists>u h h'. (u, h) \<in> set (runs a s) \<and> (t, h') \<in> set (runs b u) \<and> g = h @ h')"
  "(t, g) \<in> set (runs (Either a b) s) \<longleftrightarrow> (t, g) \<in> set (runs a s) \<or> (t, g) \<in> set (runs b s)"
  "(t, g) \<in> set (runs (Group i a) s) \<longleftrightarrow>
     (\<exists>h. (t, h) \<in> set (runs a s) \<and> g = h @ [(i, take (length s - length t) s)])"
  by (auto split: option.splits) fastforce+

section \<open>What the program's expressions find\<close>

lemma find_first_Some:
  "find_first r s = Some (a, m, g, t) \<Longrightarrow>
   s = a @ m @ t \<and> (t, g) \<in> set (runs r (m @ t)) \<and> (\<forall>i<length a. runs r (drop i s) = [])"
proof (induction r s arbitrary: a rule: find_first.induct)
  case (2 r c cs)
  show ?case
  proof (cases "runs r (c # cs)")
    case Nil
    then obtain a' where a: "a = c # a'" "find_first r cs = Some (a', m, g, t)"
      using 2(2) by (auto simp: match_here_runs)
    have "match_here r (c # cs) = None" using Nil by (simp add: match_here_runs)
    from 2(1) [OF this a(2)] have ih: "cs = a' @ m @ t" "(t, g) \<in> set (runs r (m @ t))"
      "\<forall>i<length a'. runs r (drop i cs) = []" by auto
    have "runs r (drop i (c # cs)) = []" if "i < length a" for i
      using that ih(3) Nil a(1) by (cases i) auto
    with ih a show ?thesis by auto
  next
    case (Cons x xs)
    obtain t' g' where x: "x = (t', g')" by (cases x)
    then have e: "a = []" "m = take (Suc (length cs) - length t) (c # cs)" "t' = t" "g' = g"
      using 2(2) Cons by (auto simp: match_here_runs)
    have "suffix t (c # cs)" using runs_suffix [of t g r "c # cs"] Cons x e by simp
    then obtain u where u: "c # cs = u @ t" by (auto simp: suffix_def)
    then have "Suc (length cs) = length u + length t" by (metis length_Cons length_append)
    then have "m = u" using e(2) u by simp
    then show ?thesis using u e Cons x by simp
  qed
qed simp

lemma find_all_in:
  "(m, g) \<in> set (find_all r s) \<Longrightarrow> \<exists>a t. s = a @ m @ t \<and> (t, g) \<in> set (runs r (m @ t))"
proof (induction r s rule: find_all.induct)
  case (1 r s)
  show ?case
  proof (cases "find_first r s")
    case None
    then show ?thesis using 1(2) by (simp add: find_all.simps [of r s])
  next
    case (Some x)
    obtain a0 m0 g0 t0 where x: "x = (a0, m0, g0, t0)" by (cases x)
    have f: "s = a0 @ m0 @ t0" "(t0, g0) \<in> set (runs r (m0 @ t0))" using find_first_Some Some x by blast+
    consider "m = m0" "g = g0" | "length t0 < length s" "(m, g) \<in> set (find_all r t0)"
      using 1(2) Some x by (auto simp: find_all.simps [of r s] split: if_splits)
    then show ?thesis
    proof cases
      case 2
      then obtain a t where "t0 = a @ m @ t" "(t, g) \<in> set (runs r (m @ t))" using 1(1) [OF Some [unfolded x] refl refl refl] by blast
      with f(1) show ?thesis by (intro exI [of _ "a0 @ m0 @ a"] exI [of _ t]) simp
    qed (use f in blast)
  qed
qed

lemma cont_count_high:
  "x \<in> set (take (cont_count rs cs) cs) \<Longrightarrow> \<forall>r\<in>set rs. 128 \<le> fst r \<Longrightarrow> 128 \<le> code x"
  by (induction rs cs rule: cont_count.induct) (auto split: if_splits)

lemma cont_ranges_high: "cont_ranges b = Some rs \<Longrightarrow> r \<in> set rs \<Longrightarrow> 128 \<le> fst r"
  by (auto simp: cont_ranges_def split: if_splits)

lemma any_char_takes:
  assumes "step any_char s = Some t"
  shows "\<exists>d w. s = d # w @ t \<and> (\<forall>x\<in>set w. 128 \<le> code x)"
proof (cases s)
  case (Cons d ds)
  have "\<exists>n. t = drop n ds \<and> (\<forall>x\<in>set (take n ds). 128 \<le> code x)"
  proof (cases "cont_ranges (code d)")
    case None
    then have "t = ds" using assms Cons by (auto simp: step_def any_char_def)
    then show ?thesis by (intro exI [of _ 0]) simp
  next
    case (Some rs)
    then have "t = drop (cont_count rs ds) ds" using assms Cons by (auto simp: step_def any_char_def)
    then show ?thesis using cont_count_high [of _ rs ds] cont_ranges_high [OF Some] by blast
  qed
  then obtain n where n: "t = drop n ds" "\<forall>x\<in>set (take n ds). 128 \<le> code x" by blast
  then show ?thesis using Cons by (intro exI [of _ d] exI [of _ "take n ds"]) simp
qed (use assms in \<open>simp add: step_def any_char_def\<close>)

lemma step_none_of:
  assumes "step (none_of c) s = Some t" and "code c < 128"
  shows "\<exists>w. s = w @ t \<and> c \<notin> set w"
proof -
  have "step any_char s = Some t" "hd s \<noteq> c"
    using assms(1) by (auto simp: step_def none_of_def split: if_splits option.splits)
  from any_char_takes [OF this(1)] this(2) obtain d w where "s = d # w @ t" "\<forall>x\<in>set w. 128 \<le> code x" "d \<noteq> c"
    by auto
  then show ?thesis using assms(2) by (intro exI [of _ "d # w"]) auto
qed

lemma reps_none_of:
  "t \<in> set (reps (none_of c) s) \<Longrightarrow> code c < 128 \<Longrightarrow> \<exists>w. s = w @ t \<and> c \<notin> set w"
proof (induction "none_of c" s rule: reps.induct)
  case (1 s)
  show ?case
  proof (cases "step (none_of c) s")
    case None
    then show ?thesis using 1(2) by (simp add: reps_None)
  next
    case (Some u)
    obtain w where w: "s = w @ u" "c \<notin> set w" using step_none_of [OF Some 1(3)] by blast
    consider "t = s" | "t \<in> set (reps (none_of c) u)" using 1(2) Some by (auto simp: reps_Some)
    then show ?thesis
    proof cases
      case 2
      then obtain v where "u = v @ t" "c \<notin> set v" using 1(1) [OF Some] 1(3) by blast
      with w show ?thesis by (intro exI [of _ "w @ v"]) simp
    qed simp
  qed
qed

lemma step_one_char: "step (one_of [[c]]) s = Some t \<longleftrightarrow> s = c # t"
  by (cases s) (auto simp: step_def one_of_def)

lemma step_one_head: "step (one_of [[c]]) (c # s) = Some s"
  by (simp add: step_one_char)

lemma runs_quoted_value:
  assumes "(t, g) \<in> set (runs (quoted_value c i) s)" and "code c < 128"
  shows "\<exists>v. g = [(i, v)] \<and> c \<notin> set v \<and> s = c # v @ c # t"
proof -
  obtain u u' where u: "s = c # u" "u' \<in> set (reps (none_of c) u)" "u' = c # t" "g = [(i, take (length u - length u') u)]"
    using assms(1) unfolding quoted_value_def in_runs step_one_char by auto
  obtain v where "u = v @ u'" "c \<notin> set v" using reps_none_of [OF u(2) assms(2)] by blast
  with u show ?thesis by auto
qed

text \<open>A match of \<open>ATTR_RE\<close>: a name, and one value between two quotes of one kind and without such a quote.\<close>

lemma runs_attr:
  assumes "(t, g) \<in> set (runs ATTR_RE s)"
  shows "\<exists>n v. g = [(1, n), (2, v)] \<and> CHR 0x22 \<notin> set v \<or> g = [(1, n), (3, v)] \<and> CHR 0x27 \<notin> set v"
proof -
  have "\<exists>n u h. ((t, h) \<in> set (runs (quoted_value (CHR 0x22) 2) u) \<or> (t, h) \<in> set (runs (quoted_value (CHR 0x27) 3) u)) \<and>
      g = (1, n) # h"
    using assms unfolding ATTR_RE_def in_runs by simp (elim exE conjE, simp, blast)
  then obtain n u h where g: "g = (1, n) # h"
    and h: "(t, h) \<in> set (runs (quoted_value (CHR 0x22) 2) u) \<or> (t, h) \<in> set (runs (quoted_value (CHR 0x27) 3) u)"
    by blast
  have "code (CHR 0x22) < 128" "code (CHR 0x27) < 128" by code_simp+
  with h runs_quoted_value g show ?thesis by blast
qed

lemma page_attrs:
  assumes "(n, d, q) \<in> set (attrs page_regexes tag)"
  shows "(\<exists>v. d = Some v \<and> CHR 0x22 \<notin> set v) \<or> (\<exists>v. d = None \<and> q = Some v \<and> CHR 0x27 \<notin> set v)"
proof -
  obtain m g where "(m, g) \<in> set (find_all ATTR_RE tag)" "d = map_of g 2" "q = map_of g 3"
    using assms by (auto simp: page_regexes_def)
  moreover from this obtain t where "(t, g) \<in> set (runs ATTR_RE (m @ t))" using find_all_in by blast
  from runs_attr [OF this] obtain n v where
    "g = [(1, n), (2, v)] \<and> CHR 0x22 \<notin> set v \<or> g = [(1, n), (3, v)] \<and> CHR 0x27 \<notin> set v" by blast
  ultimately show ?thesis by auto
qed

section \<open>The title of a page\<close>

text \<open>The letters of \<open>title\<close> have no folding outside ASCII.\<close>

definition plain_letter :: "char \<Rightarrow> bool" where
  "plain_letter c \<longleftrightarrow>
     (if code (CHR ''a'') \<le> code c \<and> code c \<le> code (CHR ''z'')
      then c \<noteq> CHR ''k'' \<and> c \<noteq> CHR ''s'' \<and> ascii_lower (char_of (code c - 32)) = c
      else True) \<and> ascii_lower c = c"

lemma title_plain: "list_all plain_letter ''<title'' \<and> list_all plain_letter ''</title''"
  by code_simp

lemma step_one_of: "step (one_of ws) s = Some t \<Longrightarrow> \<forall>v\<in>set ws. length v = 1 \<Longrightarrow> \<exists>d. [d] \<in> set ws \<and> s = d # t"
proof -
  assume st: "step (one_of ws) s = Some t" and l: "\<forall>v\<in>set ws. length v = 1"
  obtain v where v: "find (\<lambda>w'. prefix w' s) ws = Some v" "t = drop (length v) s"
    using st by (auto simp: step_def one_of_def split: option.splits nat.splits if_splits)
  then have "v \<in> set ws" "prefix v s" by (auto simp: find_Some_iff)
  moreover from this l obtain d where "v = [d]" by (metis length_Suc_conv length_0_conv One_nat_def)
  ultimately show ?thesis using v(2) by (auto simp: prefix_def)
qed

lemma runs_word_prefix:
  "runs (word w r) s \<noteq> [] \<Longrightarrow> list_all plain_letter w \<Longrightarrow> to_ascii_lowercase (take (length w) s) = w"
proof (induction w arbitrary: s)
  case (Cons c cs)
  let ?ws = "if code (CHR ''a'') \<le> code c \<and> code c \<le> code (CHR ''z'') then folded c else [[c]]"
  obtain t g where "(t, g) \<in> set (runs (word (c # cs) r) s)"
    using Cons.prems(1) by (metis list.set_intros(1) neq_Nil_conv surj_pair)
  then obtain u g' where u: "step (one_of ?ws) s = Some u" "(t, g') \<in> set (runs (word cs r) u)"
    unfolding word.simps in_runs by blast
  have pl: "plain_letter c" "list_all plain_letter cs" using Cons.prems(2) by simp_all
  have one: "\<forall>v\<in>set ?ws. length v = 1" using pl(1) by (auto simp: folded_def plain_letter_def)
  obtain d where d: "[d] \<in> set ?ws" "s = d # u" using step_one_of [of ?ws s u] u(1) one by auto
  have "ascii_lower d = c" using d(1) pl(1) by (auto simp: folded_def plain_letter_def split: if_splits)
  moreover have "to_ascii_lowercase (take (length cs) u) = cs" using Cons.IH [of u] u(2) pl(2) by force
  ultimately show ?case using d(2) by (simp add: to_ascii_lowercase_def)
qed (simp add: to_ascii_lowercase_def)

lemma match_word: "match (word w r) (w @ s) g k = match r s g k"
proof (induction w)
  case (Cons c cs)
  have "step (one_of (if code (CHR ''a'') \<le> code c \<and> code c \<le> code (CHR ''z'') then folded c else [[c]])) (c # cs @ s) =
      Some (cs @ s)"
    by (simp add: step_def one_of_def folded_def)
  with Cons show ?case by simp
qed simp

lemma match_word_None:
  "list_all plain_letter w \<Longrightarrow> to_ascii_lowercase (take (length w) s) \<noteq> w \<Longrightarrow> match (word w r) s g k = None"
  using runs_word_prefix [of w r s] by (cases "runs (word w r) s") (auto simp: match_runs)

lemma step_ascii: "code d < 128 \<Longrightarrow> step any_char (d # s) = Some s"
  by (simp add: step_def any_char_def cont_ranges_def)

lemma match_few_ascii:
  assumes "\<forall>c\<in>set t. code c < 128" and "\<And>i h. i < length t \<Longrightarrow> k (drop i t @ rest) h = None"
  shows "match (Few any_char) (t @ rest) g k = match (Few any_char) rest g k"
  using assms
proof (induction t)
  case (Cons d t)
  have "k (d # t @ rest) g = None" using Cons.prems(2) [of 0 g] by simp
  moreover have "k (drop i t @ rest) h = None" if "i < length t" for i h
    using Cons.prems(2) [of "Suc i" h] that by simp
  ultimately show ?case using Cons by (simp add: step_ascii)
qed simp

text \<open>The tail of \<open>TITLE_RE\<close> after the text of the title, and where it can start.\<close>

abbreviation title_end :: regex where
  "title_end \<equiv> word ''</title'' (Cat (Many space_class) (Cls (one_of [''>''])))"

lemma step_space_gt: "step space_class (CHR ''>'' # s) = None"
proof -
  have "find (\<lambda>w. prefix w (CHR ''>'' # s)) white_space = None"
    by (simp add: white_space_def)
  then show ?thesis by (simp add: step_def space_class_def one_of_def)
qed

lemma match_title_end: "match title_end (''</title>'' @ s) g k = k s g"
proof -
  have "match title_end (''</title'' @ (''>'' @ s)) g k = k s g"
    unfolding match_word by (simp add: step_space_gt step_one_head)
  then show ?thesis by simp
qed

lemma lower_lt: "ascii_lower d = CHR ''<'' \<Longrightarrow> d = CHR ''<''"
proof (rule ccontr)
  assume l: "ascii_lower d = CHR ''<''" and "d \<noteq> CHR ''<''"
  then have u: "65 \<le> code d" "code d \<le> 90" "char_of (code d + 32) = CHR ''<''"
    by (auto simp: ascii_lower_def split: if_splits)
  have "code d + 32 < 256" using u(2) by linarith
  from code_char_of [OF this] have "code d + 32 = code (CHR ''<'')" using u(3) by simp
  also have "\<dots> = 60" by code_simp
  finally show False using u(1) by simp
qed

lemma title_end_starts:
  assumes "hd s \<noteq> CHR ''<''"
  shows "match title_end s g k = None"
proof (rule match_word_None)
  show "to_ascii_lowercase (take (length ''</title'') s) \<noteq> ''</title''"
  proof (cases s)
    case (Cons d ds)
    then have "ascii_lower d \<noteq> CHR ''<''" using assms lower_lt by auto
    then show ?thesis using Cons by (simp add: to_ascii_lowercase_def)
  qed (simp add: to_ascii_lowercase_def)
qed (use title_plain in simp)

lemma match_few_head: "k s g = Some x \<Longrightarrow> match (Few p) s g k = Some x"
  by simp

lemma match_cls_head: "match (Cat (Cls (one_of [[c]])) r) (c # s) g k = match r s g k"
  by (simp add: step_one_head)

lemma match_many_stop: "step p s = None \<Longrightarrow> match (Cat (Many p) r) s g k = match r s g k"
  by simp

lemma match_group:
  "match (Cat (Group i a) r) s g k = match a s g (\<lambda>u h. match r u (h @ [(i, take (length s - length u) s)]) k)"
  by simp

lemma match_title_text:
  assumes "\<forall>c\<in>set t. code c < 128 \<and> c \<noteq> CHR ''<''" and "k post (f (''</title>'' @ post) g) = Some x"
  shows "match (Few any_char) (t @ ''</title>'' @ post) g (\<lambda>u h. match title_end u (f u h) k) = Some x"
proof -
  let ?k = "\<lambda>u h. match title_end u (f u h) k"
  have none: "?k (drop i t @ ''</title>'' @ post) h = None" if "i < length t" for i h
    by (rule title_end_starts) (use assms(1) that in \<open>auto simp: hd_append hd_drop_conv_nth\<close>)
  have "match (Few any_char) (t @ ''</title>'' @ post) g ?k = match (Few any_char) (''</title>'' @ post) g ?k"
    by (rule match_few_ascii) (use assms(1) none in auto)
  moreover have "?k (''</title>'' @ post) g = Some x" unfolding match_title_end by (rule assms(2))
  then have "match (Few any_char) (''</title>'' @ post) g ?k = Some x" by (rule match_few_head)
  ultimately show ?thesis by simp
qed

lemma title_here:
  assumes "\<forall>c\<in>set t. code c < 128 \<and> c \<noteq> CHR ''<''"
  shows "match_here TITLE_RE (''<title>'' @ t @ ''</title>'' @ post) = Some (post, [(1, t)])"
proof -
  let ?s = "t @ ''</title>'' @ post"
  have none: "step (none_of (CHR ''>'')) (CHR ''>'' # ?s) = None" by (simp add: step_def none_of_def)
  have "match_here TITLE_RE (''<title'' @ (CHR ''>'' # ?s)) =
      match (Few any_char) ?s [] (\<lambda>u h. match title_end u (h @ [(1, take (length ?s - length u) ?s)]) (\<lambda>t g. Some (t, g)))"
    unfolding match_here_def TITLE_RE_def match_word match_many_stop [OF none] match_cls_head match_group ..
  also have "\<dots> = Some (post, [(1, t)])"
    by (rule match_title_text [OF assms]) simp
  finally show ?thesis by simp
qed

text \<open>Text in which no title element begins.\<close>

definition no_title :: "string \<Rightarrow> bool" where
  "no_title pre \<longleftrightarrow> \<not> sublist ''<title'' (to_ascii_lowercase (pre @ ''<titl''))"

lemma no_title_here:
  assumes "no_title pre" and "i < length pre"
  shows "runs TITLE_RE (drop i (pre @ ''<title'' @ s)) = []"
proof (rule ccontr)
  let ?u = "pre @ ''<titl''"
  assume "runs TITLE_RE (drop i (pre @ ''<title'' @ s)) \<noteq> []"
  then have "to_ascii_lowercase (take (length ''<title'') (drop i (pre @ ''<title'' @ s))) = ''<title''"
    unfolding TITLE_RE_def using runs_word_prefix title_plain by blast
  moreover have "drop i (pre @ ''<title'' @ s) = drop i ?u @ (''e'' @ s)" using assms(2) by simp
  moreover have "6 \<le> length (drop i ?u)" using assms(2) by simp
  then have "take 6 (drop i ?u @ (''e'' @ s)) = take 6 (drop i ?u)" by (simp only: take_append) simp
  moreover have "length ''<title'' = 6" by simp
  ultimately have "''<title'' = to_ascii_lowercase (take 6 (drop i ?u))" by metis
  then have "''<title'' = take 6 (drop i (to_ascii_lowercase ?u))"
    by (simp only: to_ascii_lowercase_def take_map drop_map)
  then have "sublist ''<title'' (to_ascii_lowercase ?u)"
    using sublist_order.order_trans [OF sublist_take sublist_drop, of 6 i "to_ascii_lowercase ?u"] by simp
  then show False using assms(1) by (simp add: no_title_def)
qed

lemma find_first_skip:
  "(\<forall>i<length pre. runs r (drop i (pre @ s)) = []) \<Longrightarrow> s \<noteq> [] \<Longrightarrow>
   find_first r (pre @ s) = map_option (\<lambda>(a, m, g, t). (pre @ a, m, g, t)) (find_first r s)"
proof (induction pre)
  case (Cons c pre)
  have here: "match_here r (c # pre @ s) = None" using Cons.prems(1) by (fastforce simp: match_here_runs)
  have "\<forall>i<length pre. runs r (drop i (pre @ s)) = []" using Cons.prems(1) by fastforce
  with Cons here show ?case by (simp add: option.map_comp comp_def case_prod_unfold)
qed (simp add: option.map_ident case_prod_unfold)

lemma find_first_here: "match_here r (m @ t) = Some (t, g) \<Longrightarrow> m \<noteq> [] \<Longrightarrow> find_first r (m @ t) = Some ([], m, g, t)"
  by (cases m) (auto simp: Suc_diff_le)

lemma find_title:
  assumes "no_title pre" and "\<forall>c\<in>set t. code c < 128 \<and> c \<noteq> CHR ''<''"
  shows "find_first TITLE_RE (pre @ ''<title>'' @ t @ ''</title>'' @ post) =
    Some (pre, ''<title>'' @ t @ ''</title>'', [(1, t)], post)"
proof -
  let ?s = "''<title>'' @ t @ ''</title>'' @ post"
  have "\<forall>i<length pre. runs TITLE_RE (drop i (pre @ ?s)) = []"
    using no_title_here [OF assms(1), where s = "''>'' @ t @ ''</title>'' @ post"] by simp
  then have "find_first TITLE_RE (pre @ ?s) =
      map_option (\<lambda>(a, m, g, t). (pre @ a, m, g, t)) (find_first TITLE_RE ?s)"
    by (rule find_first_skip) simp
  moreover have "find_first TITLE_RE ?s = Some ([], ''<title>'' @ t @ ''</title>'', [(1, t)], post)"
    using find_first_here [of TITLE_RE "''<title>'' @ t @ ''</title>''" post] title_here [OF assms(2), of post] by simp
  ultimately show ?thesis by simp
qed

lemma escape_no_brace: "CHR ''{'' \<notin> set s \<Longrightarrow> CHR ''{'' \<notin> set (html_escape s)"
  by (auto simp: html_escape_eq escape_char_def split: if_splits)

lemma replace_first_at:
  assumes "CHR ''{'' \<notin> set u"
  shows "replace_first NG_META r (u @ NG_META @ v) = u @ r @ v"
proof -
  have "find_sub NG_META (u @ NG_META @ v) = Some (length u)"
    using assms
  proof (induction u)
    case (Cons c u)
    then have "\<not> prefix NG_META (c # u @ NG_META @ v)" by (simp add: NG_META_def)
    with Cons show ?case by simp
  qed (simp add: NG_META_def)
  then show ?thesis by simp
qed

lemma inline_meta_page:
  assumes "no_title pre" and "\<forall>c\<in>set t. code c < 128 \<and> c \<noteq> CHR ''<''"
    and "CHR ''{'' \<notin> set (pre @ mid)"
    and "title = (case Option.bind meta m_title of Some s \<Rightarrow> s | None \<Rightarrow> host)" and "CHR ''{'' \<notin> set title"
  shows "inline_meta page_regexes (pre @ ''<title>'' @ t @ ''</title>'' @ mid @ NG_META @ post) host meta =
    pre @ ''<title>'' @ html_escape title @ ''</title>'' @ mid @
    (case meta of None \<Rightarrow> '''' | Some m \<Rightarrow> concat (m_tags m) @ (if m_icon m \<noteq> None then FAVICON_LINK else '''')) @ post"
proof -
  let ?inject = "case meta of None \<Rightarrow> '''' | Some m \<Rightarrow> concat (m_tags m) @ (if m_icon m \<noteq> None then FAVICON_LINK else '''')"
  let ?u = "pre @ ''<title>'' @ html_escape title @ ''</title>'' @ mid"
  have "replace_title page_regexes (pre @ ''<title>'' @ t @ ''</title>'' @ (mid @ NG_META @ post)) title = ?u @ NG_META @ post"
    using find_title [OF assms(1,2), of "mid @ NG_META @ post"]
    by (simp add: replace_title_def page_regexes_def title_tag_def)
  moreover have "CHR ''{'' \<notin> set ?u" using assms(3,5) escape_no_brace by simp
  ultimately show ?thesis
    using replace_first_at [of ?u ?inject post] by (simp add: inline_meta_def Let_def assms(4) del: replace_first.simps)
qed

section \<open>Properties\<close>

text \<open>
  C26. The page a visitor gets. For a template with one title and, after it, one marker, the interstitial is
  the template with the title replaced by the escaped title of the origin (or the host) and the marker by
  the origin's tags and the icon link, and nothing else changed, when that title holds no brace.
\<close>

theorem interstitial_page:
  assumes "no_title pre" and "\<forall>c\<in>set t. code c < 128 \<and> c \<noteq> CHR ''<''"
    and "CHR ''{'' \<notin> set (pre @ mid)"
    and "title = (case Option.bind meta m_title of Some s \<Rightarrow> s | None \<Rightarrow> host)" and "CHR ''{'' \<notin> set title"
  shows "inline_meta page_regexes (pre @ ''<title>'' @ t @ ''</title>'' @ mid @ NG_META @ post) host meta =
    pre @ ''<title>'' @ html_escape title @ ''</title>'' @ mid @
    (case meta of None \<Rightarrow> '''' | Some m \<Rightarrow> concat (m_tags m) @ (if m_icon m \<noteq> None then FAVICON_LINK else '''')) @ post"
  by (rule inline_meta_page [OF assms])

theorem interstitial_page_witness:
  "inline_meta page_regexes ''<html><title>Verifying</title>{{NG_META}}<p>'' ''ex.org''
     (Some (default_Meta\<lparr>m_title := Some ''A & B'', m_tags := [''<meta a>'']\<rparr>)) =
   ''<html><title>A &amp; B</title><meta a><p>''"
proof -
  have n: "no_title ''<html>''" by code_simp
  have t: "\<forall>c\<in>set ''Verifying''. code c < 128 \<and> c \<noteq> CHR ''<''" by code_simp
  have e: "html_escape ''A & B'' = ''A &amp; B''" by code_simp
  show ?thesis
    using interstitial_page [OF n t, where mid = "[]" and post = "''<p>''" and host = "''ex.org''"
        and meta = "Some (default_Meta\<lparr>m_title := Some ''A & B'', m_tags := [''<meta a>'']\<rparr>)", OF _ refl]
    by (simp add: e NG_META_def default_Meta_def)
qed

end
