(* ===== verification/Conformance.thy ===== *)
theory Conformance
  imports Conformance_Inject Embed_Cache Head_Regex
begin

text \<open>
  The unit tests of \<open>nekoguard/src/embed.rs\<close> that call the program's own functions directly, as
  statements about the model: each definition says what one test asserts, and the
  lemma behind it evaluates the model on the test's inputs. They check the translation against the
  behaviour the sources promise of themselves. A test that calls a library runs here with that library as
  a parameter, and its lemma names what it needs of it. Tests that start servers or scrape whole documents
  have theories of their own.
\<close>

section \<open>Tests of the origin metadata\<close>

definition rejects_cross_origin_and_non_http_urls :: bool where
  \<open>rejects_cross_origin_and_non_http_urls \<longleftrightarrow>
     same_origin_path ''/favicon.ico'' ''example.com'' = Some ''/favicon.ico'' \<and>
     same_origin_path ''favicon.ico'' ''example.com'' = Some ''/favicon.ico'' \<and>
     same_origin_path ''https://example.com/a/b.png'' ''example.com'' = Some ''/a/b.png'' \<and>
     same_origin_path ''//example.com/a.png'' ''example.com'' = Some ''/a.png'' \<and>
     same_origin_path ''http://10.0.0.5:9090/admin'' ''example.com'' = None \<and>
     same_origin_path ''//169.254.169.254/latest/meta-data/'' ''example.com'' = None \<and>
     same_origin_path ''http://209.177.145.76/favicon.ico'' ''example.com'' = None \<and>
     same_origin_path ''http://example.com:8080/a.png'' ''example.com'' = Some ''/a.png'' \<and>
     same_origin_path ''file:///etc/passwd'' ''example.com'' = None\<close>

lemma rejects_cross_origin_passes: rejects_cross_origin_and_non_http_urls
  by code_simp

definition attribute_requires_a_quoted_value :: bool where
  \<open>attribute_requires_a_quoted_value \<longleftrightarrow>
     (let tag = ''<meta property="og:image" content="https://x/y.png" name='' @ [CHR 0x27] @ ''description'' @
            [CHR 0x27] @ ''>'';
          attr = attribute page_regexes
      in attr tag ''PROPERTY'' = Some ''og:image'' \<and>
         attr tag ''content'' = Some ''https://x/y.png'' \<and>
         attr tag ''name'' = Some ''description'' \<and>
         attr tag ''missing'' = None \<and>
         attr ''<meta content=https://x/ onload=alert(1)>'' ''content'' = None)\<close>

lemma attribute_requires_passes: attribute_requires_a_quoted_value
  by code_simp

text \<open>The metadata after \<open>render_tag\<close> has seen some more of the origin's tags.\<close>

definition rendered :: "string list \<Rightarrow> Meta \<Rightarrow> Meta" where
  "rendered tags meta = fold (render_tag page_regexes) tags meta"

definition keeps_descriptive_tags_only :: bool where
  \<open>keeps_descriptive_tags_only \<longleftrightarrow>
     (let meta = rendered [''<meta charset="UTF-8">'', ''<meta name="viewport" content="width=device-width">'',
            ''<meta http-equiv="refresh" content="0;url=/x">'', ''<meta name="theme-color" content="#fff">''] default_Meta
      in m_tags meta = [] \<and>
         length (m_tags (rendered [''<meta name="description" content="A blog">'',
            ''<meta property="og:title" content="Home">'', ''<meta name="twitter:description" content="hi">'',
            ''<meta property="article:published_time" content="2026-01-01">''] meta)) = 4)\<close>

lemma keeps_descriptive_passes: keeps_descriptive_tags_only
  by code_simp

definition og_url_is_dropped_and_twitter_card_is_upgraded :: bool where
  \<open>og_url_is_dropped_and_twitter_card_is_upgraded \<longleftrightarrow>
     (let meta = rendered [''<meta property="og:url" content="http://10.0.0.5:2368/">''] default_Meta;
          tags = m_tags (rendered [''<meta name="twitter:card" content="summary">''] meta)
      in m_tags meta = [] \<and> length tags = 1 \<and> contains ''summary_large_image'' (tags ! 0))\<close>

lemma og_url_is_dropped_passes: og_url_is_dropped_and_twitter_card_is_upgraded
  by code_simp

definition attribute_values_cannot_escape_their_tag :: bool where
  \<open>attribute_values_cannot_escape_their_tag \<longleftrightarrow>
     (let tags = m_tags (rendered [''<meta property="og:title" content="x&quot;><script>alert(1)</script>">''] default_Meta); tag = tags ! 0
      in length tags = 1 \<and> \<not> contains ''x" onload'' tag \<and> \<not> contains ''<script>'' tag \<and>
         contains ''&lt;script&gt;'' tag \<and>
         (case find_sub ''content='' tag of
            None \<Rightarrow> False
          | Some i \<Rightarrow> count_list (drop i tag) (CHR 0x22) \<in> {0, 2}))\<close>

lemma attribute_values_passes: attribute_values_cannot_escape_their_tag
  by code_simp

definition urls_the_origin_declares_are_dropped :: bool where
  \<open>urls_the_origin_declares_are_dropped \<longleftrightarrow>
     (let meta = rendered [''<meta property="og:url" content="http://10.0.0.5:2368/">'',
            ''<meta name="twitter:url" content="http://10.0.0.5:2368/">''] default_Meta
      in m_tags meta = [] \<and>
         length (m_tags (rendered [''<meta property="og:image:url" content="/share.png">''] meta)) = 1)\<close>

lemma urls_dropped_passes: urls_the_origin_declares_are_dropped
  by code_simp

definition title_substitution_escapes_and_does_not_expand_captures :: bool where
  \<open>title_substitution_escapes_and_does_not_expand_captures \<longleftrightarrow>
     (let out = replace_title page_regexes ''<title>Verifying your connection</title><style>a{}</style>''
            ''$1 Ben & Jerry's <b>''
      in \<not> contains ''<b>'' out \<and> \<not> contains ''Verifying your connection'' out \<and> contains ''$1'' out \<and>
         contains ''Ben &amp; Jerry's'' out \<and> count_sub ''<title>'' out = 1)\<close>

lemma title_substitution_passes: title_substitution_escapes_and_does_not_expand_captures
  by code_simp

definition is_html_admits_only_html_media_types :: "'h http_lib \<Rightarrow> bool" where
  \<open>is_html_admits_only_html_media_types H \<longleftrightarrow>
     embed_is_html H (Some ''text/html'') \<and> embed_is_html H (Some ''text/html; charset=utf-8'') \<and> embed_is_html H (Some ''TEXT/HTML; CHARSET=UTF-8'') \<and> embed_is_html H (Some ''  text/html  '') \<and>
         embed_is_html H (Some ''application/xhtml+xml'') \<and> \<not> embed_is_html H (Some ''application/json'') \<and> \<not> embed_is_html H (Some ''text/plain'') \<and> \<not> embed_is_html H (Some ''application/xml'') \<and>
         \<not> embed_is_html H (Some ''image/png'') \<and> \<not> embed_is_html H (Some ''image/svg+xml'') \<and> \<not> embed_is_html H (Some '''') \<and> \<not> embed_is_html H None\<close>

definition html_type :: "string \<Rightarrow> bool" where
  "html_type v =
     (let ct = to_ascii_lowercase (trim v) in starts_with ''text/html'' ct \<or> starts_with ''application/xhtml+xml'' ct)"

lemma embed_is_html_text:
  "embed_is_html alist_http (Some v) = html_type v" "embed_is_html alist_http None = html_type []"
  by (simp_all add: embed_is_html_def alist_http_def unwrap_or_def html_type_def)

lemma is_html_passes: "is_html_admits_only_html_media_types alist_http"
  unfolding is_html_admits_only_html_media_types_def embed_is_html_text by (intro conjI; code_simp)

definition icon_mime_admits_raster_only :: bool where
  \<open>icon_mime_admits_raster_only \<longleftrightarrow>
     icon_mime ''image/png'' = Some ''image/png'' \<and> icon_mime ''image/x-icon'' = Some ''image/x-icon'' \<and>
     icon_mime ''image/vnd.microsoft.icon'' = Some ''image/x-icon'' \<and> icon_mime ''image/svg+xml'' = None \<and>
     icon_mime ''text/html'' = None\<close>

lemma icon_mime_passes: icon_mime_admits_raster_only
  by code_simp

definition data_uri_icons_decode :: "(string \<Rightarrow> string option) \<Rightarrow> bool" where
  "data_uri_icons_decode b64 \<longleftrightarrow>
     (case decode_data_uri b64 ''image/gif;base64,R0lGODlhAQABAIAAAAAAAP///yH5BAEAAAAALAAAAAABAAEAAAIBRAA7'' of
        None \<Rightarrow> False
      | Some (bytes, mime) \<Rightarrow> mime = ''image/gif'' \<and> take 3 bytes = ''GIF'') \<and>
     decode_data_uri b64 ''image/svg+xml;base64,PHN2Zz4='' = None \<and>
     decode_data_uri b64 ''image/png;base64,!!!'' = None"

lemma data_uri_passes:
  assumes "b64 ''R0lGODlhAQABAIAAAAAAAP///yH5BAEAAAAALAAAAAABAAEAAAIBRAA7'' = Some (''GIF'' @ rest)"
    and "b64 ''!!!'' = None" and "length rest < 1000"
  shows "data_uri_icons_decode b64"
proof -
  have uri:
    "decode_data_uri b64 ''image/gif;base64,R0lGODlhAQABAIAAAAAAAP///yH5BAEAAAAALAAAAAABAAEAAAIBRAA7'' =
       (case b64 ''R0lGODlhAQABAIAAAAAAAP///yH5BAEAAAAALAAAAAABAAEAAAIBRAA7'' of None \<Rightarrow> None
        | Some d \<Rightarrow> if d = [] \<or> length d > MAX_ICON then None else Some (d, ''image/gif''))"
    "decode_data_uri b64 ''image/svg+xml;base64,PHN2Zz4='' = None"
    "decode_data_uri b64 ''image/png;base64,!!!'' =
       (case b64 ''!!!'' of None \<Rightarrow> None | Some d \<Rightarrow> if d = [] \<or> length d > MAX_ICON then None else Some (d, ''image/png''))"
    by code_simp+
  show ?thesis using assms by (simp add: data_uri_icons_decode_def uri MAX_ICON_def)
qed

definition entity_decoding_is_applied_once :: bool where
  \<open>entity_decoding_is_applied_once \<longleftrightarrow>
     decode ''Ben &amp; Jerry'' = ''Ben & Jerry'' \<and>
     decode ''&amp;lt;script&amp;gt;'' = ''&lt;script&gt;'' \<and>
     decode ''a &lt;b&gt; c'' = ''a <b> c'' \<and>
     decode ''We&#x27;re an independent group'' = ''We're an independent group'' \<and>
     decode ''&#39;'' = [CHR 0x27] \<and>
     decode ''&#8212;'' = [CHR 0xE2, CHR 0x80, CHR 0x94] \<and>
     decode ''Tom & Jerry & Co.'' = ''Tom & Jerry & Co.'' \<and>
     decode ''5 &lt; 6 & 7'' = ''5 < 6 & 7'' \<and>
     decode ''&notanentity; &'' = ''&notanentity; &''\<close>

lemma entity_decoding_passes: entity_decoding_is_applied_once
  by code_simp

text \<open>The tests' own copy of the splice, which is the model's.\<close>

definition fill_for_test :: "string \<Rightarrow> Meta \<Rightarrow> string \<Rightarrow> string" where
  "fill_for_test page meta host =
     (let inject = concat (m_tags meta) @ (if m_icon meta \<noteq> None then FAVICON_LINK else '''');
          title = (case m_title meta of Some t \<Rightarrow> t | None \<Rightarrow> host)
      in replace_first NG_META inject (replace_title page_regexes page title))"

lemma fill_for_test_inline: "fill_for_test page meta host = inline_meta page_regexes page host (Some meta)"
  by (simp add: fill_for_test_def inline_meta_def Let_def)

definition marker_is_filled_even_though_the_template_carries_it :: "string \<Rightarrow> bool" where
  \<open>marker_is_filled_even_though_the_template_carries_it template \<longleftrightarrow>
     contains NG_META (challenge_html template ''chal'') \<and>
     (let meta = (render_tag page_regexes ''<meta name="description" content="desc">'' default_Meta)
            \<lparr>m_icon := Some (''x'', ''image/png'')\<rparr>;
          out = fill_for_test ''<html><head><title>Verifying your connection</title>{{NG_META}}</head></html>'' meta ''example.com''
      in contains ''name="description"'' out \<and> contains FAVICON_LINK out \<and> \<not> contains NG_META out)\<close>

text \<open>The template comes out of the minifier, so the test has it as an argument; here it is a small one.\<close>

lemma marker_is_filled_passes:
  \<open>marker_is_filled_even_though_the_template_carries_it
     ''<title>Verifying</title>{{NG_META}}<p>{{BITS}} bits</p><script>let c="{{CHALLENGE}}"</script>''\<close>
  by code_simp

definition clear_marker_removes_it_without_the_origin :: bool where
  "clear_marker_removes_it_without_the_origin \<longleftrightarrow> clear_marker ''<head>{{NG_META}}</head>'' = ''<head></head>''"

lemma clear_marker_passes: clear_marker_removes_it_without_the_origin
  by code_simp

text \<open>
  The keys of two different subpages differ when their digests do; a digest is sixteen hexadecimal digits,
  so a key is short for every path.
\<close>

definition deep_path :: string where
  "deep_path = CHR ''/'' # concat (replicate 80 ''very/deep/'')"

definition paths_are_normalised_before_they_become_keys :: "('h, 'r) embed_env \<Rightarrow> bool" where
  "paths_are_normalised_before_they_become_keys E \<longleftrightarrow>
     normalize_path ''/a-post/'' = ''/a-post/'' \<and> normalize_path ''/a-post/?utm_source=x'' = ''/a-post/'' \<and>
     normalize_path ''/a-post/#comments'' = ''/a-post/'' \<and> normalize_path [] = ''/'' \<and>
     normalize_path ''post'' = ''/post'' \<and>
     cache_key E ''x.test'' ''/p/?a=1'' = cache_key E ''x.test'' ''/p/'' \<and>
     cache_key E ''x.test'' ''/p/'' = cache_key E ''x.test'' ''/p/#frag'' \<and>
     cache_key E ''x.test'' ''/one/'' \<noteq> cache_key E ''x.test'' ''/two/'' \<and>
     cache_key E ''x.test'' ''/'' \<noteq> cache_key E ''x.test'' ''/one/'' \<and>
     cache_key E ''x.test'' ''/'' = ''nekoguard:embed:x.test'' \<and>
     length (cache_key E ''x.test'' deep_path) < 64"

lemma cache_key_short: "length (path_digest E (normalize_path p)) = 16 \<Longrightarrow> length (cache_key E h p) \<le> length h + 35"
  by (simp add: cache_key_def Let_def)

lemma paths_pass:
  assumes "path_digest E ''/one/'' \<noteq> path_digest E ''/two/''" and "\<And>p. length (path_digest E p) = 16"
  shows "paths_are_normalised_before_they_become_keys E"
proof -
  have n: "normalize_path ''/a-post/'' = ''/a-post/''" "normalize_path ''/a-post/?utm_source=x'' = ''/a-post/''"
    "normalize_path ''/a-post/#comments'' = ''/a-post/''" "normalize_path [] = ''/''" "normalize_path ''post'' = ''/post''"
    "normalize_path ''/p/?a=1'' = ''/p/''" "normalize_path ''/p/'' = ''/p/''" "normalize_path ''/p/#frag'' = ''/p/''"
    "normalize_path ''/'' = ''/''" "normalize_path ''/one/'' = ''/one/''" "normalize_path ''/two/'' = ''/two/''"
    by code_simp+
  have "length (cache_key E ''x.test'' deep_path) < 64"
    using cache_key_short [OF assms(2), of "''x.test''" deep_path] by simp
  then show ?thesis using assms(1)
    by (simp add: paths_are_normalised_before_they_become_keys_def n cache_key_def Let_def)
qed

definition cache_key_is_namespaced_and_host_scoped :: "('h, 'r) embed_env \<Rightarrow> bool" where
  "cache_key_is_namespaced_and_host_scoped E \<longleftrightarrow>
     cache_key E ''example.com'' ''/'' = ''nekoguard:embed:example.com'' \<and>
     cache_key E ''a.example'' ''/'' \<noteq> cache_key E ''b.example'' ''/''"

lemma cache_key_scoped_passes: "cache_key_is_namespaced_and_host_scoped E"
proof -
  have "normalize_path ''/'' = ''/''" by code_simp
  then show ?thesis by (simp add: cache_key_is_namespaced_and_host_scoped_def cache_key_def)
qed

definition cached_meta_round_trips :: "('h, 'r) embed_env \<Rightarrow> bool" where
  \<open>cached_meta_round_trips E \<longleftrightarrow>
     (let meta = default_Meta\<lparr>m_title := Some ''Toolbox & Co.'', m_tags := [''<meta name="description" content="a test">''],
            m_icon := Some ([CHR 0x89] @ ''PNG'', ''image/png'')\<rparr>
      in case Option.bind (e_to_json E (cached_of_meta meta)) (e_from_json E) of
           None \<Rightarrow> False
         | Some c \<Rightarrow>
             (let back = into_meta c
              in m_title back = m_title meta \<and> m_tags back = m_tags meta \<and>
                 m_icon back = Some ([CHR 0x89] @ ''PNG'', ''image/png'') \<and> m_icon_url back = None))\<close>

lemma cached_meta_passes:
  assumes "\<And>c. Option.bind (e_to_json E c) (e_from_json E) = Some c"
  shows "cached_meta_round_trips E"
proof -
  have "icon_mime ''image/png'' = Some ''image/png''" by code_simp
  then show ?thesis
    by (simp add: cached_meta_round_trips_def assms cached_of_meta_def into_meta_def default_Meta_def Let_def)
qed

end
