(* ===== verification/Head_Tokens.thy ===== *)
theory Head_Tokens
  imports Head_Regex
begin

text \<open>
  What \<open>scrape\<close> of \<open>nekoguard/src/embed.rs\<close> takes from a document that is a sequence of texts and tags, with
  the regular expressions of the program: a reference that reads the document tag by tag, without any
  expression or position, and the proof that both agree.
\<close>

section \<open>Definitions\<close>

text \<open>A tag holds no angle bracket but its own two; a text holds no opening one.\<close>

definition tag_token :: "string \<Rightarrow> bool" where
  "tag_token t \<longleftrightarrow>
     2 \<le> length t \<and> hd t = CHR ''<'' \<and> last t = CHR ''>'' \<and>
     list_all (\<lambda>c. c \<noteq> CHR ''<'' \<and> c \<noteq> CHR ''>'') (butlast (tl t))"

definition text_token :: "string \<Rightarrow> bool" where
  "text_token t \<longleftrightarrow> CHR ''<'' \<notin> set t"

definition head_token :: "string \<Rightarrow> bool" where
  "head_token t \<longleftrightarrow> tag_token t \<or> text_token t"

text \<open>The forms of a character of an expression, which disregards case, and a word taken off a text.\<close>

definition forms :: "char \<Rightarrow> string list" where
  "forms c = (if code (CHR ''a'') \<le> code c \<and> code c \<le> code (CHR ''z'') then folded c else [[c]])"

fun strip_word :: "string \<Rightarrow> string \<Rightarrow> string option" where
  "strip_word [] s = Some s"
| "strip_word (c # cs) s =
     (case find (\<lambda>v. prefix v s) (forms c) of None \<Rightarrow> None | Some v \<Rightarrow> strip_word cs (drop (length v) s))"

definition named :: "string \<Rightarrow> string \<Rightarrow> bool" where
  "named w t \<longleftrightarrow> (case strip_word w t of None \<Rightarrow> False | Some r \<Rightarrow> list_ex (\<lambda>v. prefix v r) white_space)"

definition opens_title :: "string \<Rightarrow> bool" where
  "opens_title t \<longleftrightarrow> strip_word ''<title'' t \<noteq> None"

definition closes_title :: "string \<Rightarrow> bool" where
  "closes_title t \<longleftrightarrow> (case strip_word ''</title'' t of None \<Rightarrow> False | Some r \<Rightarrow> trim_start r = ''>'')"

text \<open>The tags and texts of the head; what stands between a title tag and the next closing one.\<close>

definition head_tokens :: "string list \<Rightarrow> string list" where
  "head_tokens ts =
     takeWhile (\<lambda>t. to_ascii_lowercase t \<noteq> ''</head>'')
       (case dropWhile (\<lambda>t. \<not> prefix ''<head'' t) ts of [] \<Rightarrow> ts | _ # us \<Rightarrow> us)"

fun title_of :: "string list \<Rightarrow> string option" where
  "title_of [] = None"
| "title_of (t # ts) =
     (if opens_title t \<and> list_ex closes_title ts then Some (concat (takeWhile (\<lambda>u. \<not> closes_title u) ts))
      else title_of ts)"

definition token_scrape :: "string list \<Rightarrow> Meta" where
  "token_scrape doc =
     (let ts = head_tokens doc;
          meta1 = fold (render_tag page_regexes) (filter (named ''<meta'') ts) default_Meta;
          meta2 = fold (note_icon page_regexes) (filter (named ''<link'') ts) meta1
      in meta2\<lparr>m_title :=
           (case title_of ts of
              None \<Rightarrow> None
            | Some c \<Rightarrow>
                (let t = trim (decode c) in if t = [] then None else Some (take_chars MAX_TITLE t)))\<rparr>)"

section \<open>Words and tags\<close>

lemma tag_tokenE:
  assumes "tag_token t"
  obtains b where "t = CHR ''<'' # b @ [CHR ''>'']" "CHR ''<'' \<notin> set b" "CHR ''>'' \<notin> set b"
proof -
  obtain c u where cu: "t = c # u" using assms by (cases t) (auto simp: tag_token_def)
  moreover have "u \<noteq> []" using assms cu by (auto simp: tag_token_def)
  ultimately have "t = CHR ''<'' # butlast u @ [CHR ''>'']"
    using assms append_butlast_last_id [of u] by (simp add: tag_token_def)
  then show thesis using that [of "butlast u"] assms cu by (auto simp: tag_token_def list_all_iff)
qed

lemma tag_not_text: "tag_token t \<Longrightarrow> \<not> text_token t"
  by (auto simp: text_token_def elim!: tag_tokenE)

lemma prefix_before: "g \<notin> set v \<Longrightarrow> prefix v (b @ g # s) \<longleftrightarrow> prefix v b"
  by (auto simp: prefix_append prefix_Cons)

lemma forms_gt: "c \<noteq> CHR ''>'' \<Longrightarrow> v \<in> set (forms c) \<Longrightarrow> CHR ''>'' \<notin> set v"
proof -
  assume c: "c \<noteq> CHR ''>''" and v: "v \<in> set (forms c)"
  have no: "CHR ''>'' \<noteq> char_of (code c - 32)" if "97 \<le> code c" "code c \<le> 122"
  proof
    assume "CHR ''>'' = char_of (code c - 32)"
    then have "code (CHR ''>'') = code c - 32" using code_char_of [of "code c - 32"] that by simp
    moreover have "code (CHR ''>'') = 62" by code_simp
    ultimately show False using that by simp
  qed
  have "code (CHR ''a'') = 97" "code (CHR ''z'') = 122" by code_simp+
  then show ?thesis using c v no by (auto simp: forms_def folded_def split: if_splits)
qed

lemma forms_nonempty: "v \<in> set (forms c) \<Longrightarrow> v \<noteq> []"
  by (auto simp: forms_def folded_def split: if_splits)

lemma find_cong_in: "(\<And>x. x \<in> set xs \<Longrightarrow> P x = Q x) \<Longrightarrow> find P xs = find Q xs"
  by (induction xs) auto

lemma strip_word_before:
  "CHR ''>'' \<notin> set w \<Longrightarrow>
   strip_word w (b @ CHR ''>'' # s) = map_option (\<lambda>u. u @ CHR ''>'' # s) (strip_word w b)"
proof (induction w arbitrary: b)
  case (Cons c w)
  have f: "find (\<lambda>v. prefix v (b @ CHR ''>'' # s)) (forms c) = find (\<lambda>v. prefix v b) (forms c)"
    by (intro find_cong_in prefix_before forms_gt) (use Cons.prems in auto)
  show ?case
  proof (cases "find (\<lambda>v. prefix v b) (forms c)")
    case None
    show ?thesis by (simp only: strip_word.simps f None option.simps)
  next
    case (Some v)
    then have "length v \<le> length b" by (auto simp: find_Some_iff dest: prefix_length_le)
    moreover have "CHR ''>'' \<notin> set w" using Cons.prems by simp
    ultimately have "strip_word w (drop (length v) (b @ CHR ''>'' # s)) =
        map_option (\<lambda>u. u @ CHR ''>'' # s) (strip_word w (drop (length v) b))"
      using Cons.IH [of "drop (length v) b"] by simp
    then show ?thesis by (simp only: strip_word.simps f Some option.simps)
  qed
qed simp

lemma strip_word_set: "strip_word w b = Some u \<Longrightarrow> set u \<subseteq> set b"
proof (induction w arbitrary: b)
  case (Cons c w)
  obtain v where v: "find (\<lambda>v. prefix v b) (forms c) = Some v"
    using Cons.prems by (cases "find (\<lambda>v. prefix v b) (forms c)") auto
  then have "set u \<subseteq> set (drop (length v) b)" using Cons by simp
  then show ?case using set_drop_subset by fastforce
qed simp

lemma strip_word_head: "strip_word (CHR ''<'' # w) s \<noteq> None \<Longrightarrow> s \<noteq> [] \<and> hd s = CHR ''<''"
proof -
  assume s: "strip_word (CHR ''<'' # w) s \<noteq> None"
  have "forms (CHR ''<'') = [''<'']" by code_simp
  then show ?thesis using s by (cases s) (auto split: if_splits)
qed

lemma step_words: "\<forall>v\<in>set ws. v \<noteq> [] \<Longrightarrow> step (one_of ws) s = map_option (\<lambda>v. drop (length v) s) (find (\<lambda>v. prefix v s) ws)"
proof (cases "find (\<lambda>v. prefix v s) ws")
  case (Some v)
  assume "\<forall>v\<in>set ws. v \<noteq> []"
  then have "v \<noteq> []" "prefix v s" using Some by (auto simp: find_Some_iff)
  then show ?thesis using Some by (cases v) (auto simp: step_def one_of_def)
qed (simp add: step_def one_of_def)

lemma runs_first: "runs (Cat (Cls p) r) s = (case step p s of None \<Rightarrow> [] | Some u \<Rightarrow> runs r u)"
  by (auto split: option.splits)

lemma runs_strip: "runs (word w r) s = (case strip_word w s of None \<Rightarrow> [] | Some u \<Rightarrow> runs r u)"
proof (induction w arbitrary: s)
  case (Cons c w)
  have "runs (word (c # w) r) s = (case step (one_of (forms c)) s of None \<Rightarrow> [] | Some u \<Rightarrow> runs (word w r) u)"
    by (simp only: word.simps runs_first forms_def)
  then show ?case using Cons step_words [of "forms c" s] forms_nonempty by (auto split: option.splits)
qed simp

section \<open>The rest of a tag\<close>

lemma any_char_steps: "s \<noteq> [] \<Longrightarrow> \<exists>t. step any_char s = Some t"
  by (cases s) (auto simp: step_def any_char_def split: nat.splits option.splits)

text \<open>A character without bytes below 128 after its first one does not reach past such a byte.\<close>

lemma any_char_before:
  assumes "b \<noteq> []" and "code c < 128"
  shows "\<exists>d w b'. step any_char (b @ c # s) = Some (b' @ c # s) \<and> b = d # w @ b'"
proof -
  obtain t where t: "step any_char (b @ c # s) = Some t" using any_char_steps by blast
  from any_char_takes [OF this] obtain d w where dw: "b @ c # s = d # w @ t" "\<forall>x\<in>set w. 128 \<le> code x" by blast
  obtain b1 where b1: "b = d # b1" "b1 @ c # s = w @ t" using assms(1) dw(1) by (cases b) auto
  have "\<exists>b'. b1 = w @ b' \<and> t = b' @ c # s"
  proof -
    from b1(2) consider us where "b1 = w @ us" "us @ c # s = t" | us where "w = b1 @ us" "c # s = us @ t"
      by (auto simp: append_eq_append_conv2)
    then show ?thesis
    proof cases
      case 2
      have "us = []"
      proof (rule ccontr)
        assume "us \<noteq> []"
        then have "c \<in> set w" using 2 by (cases us) auto
        then show False using dw(2) assms(2) by force
      qed
      with 2 show ?thesis by simp
    qed auto
  qed
  with t b1 show ?thesis by auto
qed

lemma gt_code: "code (CHR ''>'') < 128" "code (CHR ''<'') < 128"
  by code_simp+

text \<open>Up to the end of a tag: the greedy repetition ends right before its bracket, the rest of them inside.\<close>

lemma reps_to_gt:
  "CHR ''>'' \<notin> set b \<Longrightarrow>
   \<exists>xs. reps (none_of (CHR ''>'')) (b @ CHR ''>'' # s) = xs @ [CHR ''>'' # s] \<and> (\<forall>x\<in>set xs. \<nexists>y. x = CHR ''>'' # y)"
proof (induction "length b" arbitrary: b rule: less_induct)
  case less
  show ?case
  proof (cases "b = []")
    case True
    have "step (none_of (CHR ''>'')) (CHR ''>'' # s) = None" by (simp add: step_def none_of_def)
    then show ?thesis using True by (intro exI [of _ "[]"]) (simp add: reps_None)
  next
    case False
    obtain d w b' where b: "step any_char (b @ CHR ''>'' # s) = Some (b' @ CHR ''>'' # s)" "b = d # w @ b'"
      using any_char_before [OF False gt_code(1)] by blast
    then have st: "step (none_of (CHR ''>'')) (b @ CHR ''>'' # s) = Some (b' @ CHR ''>'' # s)"
      using less.prems by (auto simp: step_def none_of_def)
    obtain xs where "reps (none_of (CHR ''>'')) (b' @ CHR ''>'' # s) = xs @ [CHR ''>'' # s]"
      "\<forall>x\<in>set xs. \<nexists>y. x = CHR ''>'' # y"
      using less.hyps [of b'] less.prems b(2) by auto
    then show ?thesis using st b(2) less.prems
      by (intro exI [of _ "(b @ CHR ''>'' # s) # xs"]) (auto simp: reps_Some)
  qed
qed

lemma runs_to_gt:
  assumes "CHR ''>'' \<notin> set b"
  shows "runs (Cat (Many (none_of (CHR ''>''))) (Cat (Cls (one_of [''>''])) r)) (b @ CHR ''>'' # s) = runs r s"
    and "runs (Cat (Many (none_of (CHR ''>''))) (Cls (one_of [''>'']))) (b @ CHR ''>'' # s) = [(s, [])]"
proof -
  obtain xs where xs: "reps (none_of (CHR ''>'')) (b @ CHR ''>'' # s) = xs @ [CHR ''>'' # s]"
    "\<forall>x\<in>set xs. \<nexists>y. x = CHR ''>'' # y"
    using reps_to_gt [OF assms] by blast
  have none: "step (one_of [''>'']) x = None" if "x \<in> set xs" for x
    using xs(2) that step_one_char [of "CHR ''>''" x] by (cases "step (one_of [''>'']) x") auto
  show "runs (Cat (Many (none_of (CHR ''>''))) (Cat (Cls (one_of [''>''])) r)) (b @ CHR ''>'' # s) = runs r s"
    "runs (Cat (Many (none_of (CHR ''>''))) (Cls (one_of [''>'']))) (b @ CHR ''>'' # s) = [(s, [])]"
    using none by (auto simp: xs(1) step_one_head rev_map [symmetric] comp_def cong: map_cong)
qed

section \<open>What the expressions match at a token\<close>

lemma white_space_words: "\<forall>v\<in>set white_space. v \<noteq> [] \<and> CHR ''>'' \<notin> set v"
proof -
  have "list_all (\<lambda>v. v \<noteq> [] \<and> list_all (\<lambda>c. c \<noteq> CHR ''>'') v) white_space" by code_simp
  then show ?thesis by (auto simp: list_all_iff)
qed

lemma find_space_before:
  "find (\<lambda>v. prefix v (b @ CHR ''>'' # s)) white_space = find (\<lambda>v. prefix v b) white_space"
  by (intro find_cong_in prefix_before) (use white_space_words in blast)

lemma step_space_before:
  "step space_class (b @ CHR ''>'' # s) = map_option (\<lambda>u. u @ CHR ''>'' # s) (step space_class b)"
proof -
  have "length v \<le> length b" if "find (\<lambda>v. prefix v b) white_space = Some v" for v
    using that by (auto simp: find_Some_iff dest: prefix_length_le)
  then show ?thesis
    using white_space_words
    by (cases "find (\<lambda>v. prefix v b) white_space")
      (simp_all add: space_class_def step_words find_space_before)
qed

lemma step_space_set: "step space_class b = Some u \<Longrightarrow> set u \<subseteq> set b"
  using step_suffix set_mono_suffix by blast

lemma list_ex_find: "list_ex P xs \<longleftrightarrow> find P xs \<noteq> None"
  by (induction xs) auto

text \<open>A tag of the given name, when the name is followed by a blank.\<close>

definition NAMED_RE :: "string \<Rightarrow> regex" where
  "NAMED_RE w = word w (Cat (Cls space_class) (Cat (Many (none_of (CHR ''>''))) (Cls (one_of [''>'']))))"

lemma page_tag_expressions: "META_TAG_RE = NAMED_RE ''<meta''" "LINK_TAG_RE = NAMED_RE ''<link''"
  by (simp_all only: META_TAG_RE_def LINK_TAG_RE_def NAMED_RE_def)

lemma runs_named:
  assumes "tag_token t" and "CHR ''>'' \<notin> set w"
  shows "runs (NAMED_RE w) (t @ s) = (if named w t then [(s, [])] else [])"
proof -
  obtain b where t: "t = CHR ''<'' # b @ [CHR ''>'']" "CHR ''>'' \<notin> set b" using tag_tokenE [OF assms(1)] by metis
  let ?b = "CHR ''<'' # b"
  have st: "strip_word w (t @ s) = map_option (\<lambda>u. u @ CHR ''>'' # s) (strip_word w ?b)"
    "strip_word w t = map_option (\<lambda>u. u @ CHR ''>'' # []) (strip_word w ?b)"
    using strip_word_before [OF assms(2), of ?b s] strip_word_before [OF assms(2), of ?b "[]"] t(1) by simp_all
  show ?thesis
  proof (cases "strip_word w ?b")
    case None
    with st have n: "strip_word w (t @ s) = None" "strip_word w t = None" by simp_all
    show ?thesis by (simp only: NAMED_RE_def runs_strip named_def n option.case if_False)
  next
    case (Some u)
    have u: "CHR ''>'' \<notin> set u" using strip_word_set [OF Some] t(2) by auto
    have st: "strip_word w (t @ s) = Some (u @ CHR ''>'' # s)" "strip_word w t = Some (u @ CHR ''>'' # [])"
      using st Some by simp_all
    have n: "named w t \<longleftrightarrow> find (\<lambda>v. prefix v u) white_space \<noteq> None"
      unfolding named_def st(2) list_ex_find option.case find_space_before ..
    have sp: "step space_class u \<noteq> None \<longleftrightarrow> find (\<lambda>v. prefix v u) white_space \<noteq> None"
      using white_space_words by (simp add: space_class_def step_words)
    show ?thesis
    proof (cases "step space_class u")
      case None
      then show ?thesis
        using n sp by (simp add: NAMED_RE_def runs_strip st(1) runs_first step_space_before)
    next
      case (Some v)
      then have "CHR ''>'' \<notin> set v" using step_space_set u by blast
      from runs_to_gt(2) [OF this] have "runs (NAMED_RE w) (t @ s) = [(s, [])]"
        by (simp only: NAMED_RE_def runs_strip st(1) runs_first step_space_before Some option.simps)
      then show ?thesis using n sp Some by simp
    qed
  qed
qed

lemma runs_no_tag: "s = [] \<or> hd s \<noteq> CHR ''<'' \<Longrightarrow> runs (word (CHR ''<'' # w) r) s = []"
proof -
  assume "s = [] \<or> hd s \<noteq> CHR ''<''"
  then have "strip_word (CHR ''<'' # w) s = None" using strip_word_head [of w s] by blast
  then show ?thesis by (simp only: runs_strip option.case)
qed

lemma runs_word_shorter: "(t, g) \<in> set (runs (word (c # w) r) s) \<Longrightarrow> length t < length s"
proof -
  assume "(t, g) \<in> set (runs (word (c # w) r) s)"
  then obtain p u where "step p s = Some u" "(t, g) \<in> set (runs (word w r) u)"
    by (auto simp only: word.simps runs_first split: option.splits) auto
  then show ?thesis using step_shorter [of p s u] runs_suffix [of t g _ u] suffix_length_le by fastforce
qed

section \<open>All matches in a sequence of tokens\<close>

lemma find_first_none: "(\<forall>i<length u. runs r (drop i u) = []) \<Longrightarrow> find_first r u = None"
proof (induction u)
  case (Cons c u)
  have "match_here r (c # u) = None" using Cons.prems by (fastforce simp: match_here_runs)
  moreover have "\<forall>i<length u. runs r (drop i u) = []" using Cons.prems by fastforce
  ultimately show ?case using Cons.IH by simp
qed simp

lemma find_first_past:
  "(\<forall>i<length u. runs r (drop i (u @ s)) = []) \<Longrightarrow>
   find_first r (u @ s) = map_option (\<lambda>(a, m, g, t). (u @ a, m, g, t)) (find_first r s)"
  using find_first_skip [of u r s] find_first_none [of u r] by (cases "s = []") auto

lemma find_all_past:
  assumes "\<forall>i<length u. runs r (drop i (u @ s)) = []" and "\<And>t g x. (t, g) \<in> set (runs r x) \<Longrightarrow> length t < length x"
  shows "find_all r (u @ s) = find_all r s"
proof (cases "find_first r s")
  case (Some x)
  obtain a m g t where x: "x = (a, m, g, t)" by (cases x)
  have f: "s = a @ m @ t" "(t, g) \<in> set (runs r (m @ t))" using find_first_Some Some x by blast+
  from assms(2) [OF f(2)] f(1) have "length t < length s" by simp
  moreover have "find_first r (u @ s) = Some (u @ a, m, g, t)" using find_first_past [OF assms(1)] Some x by simp
  ultimately show ?thesis using Some x by (simp add: find_all.simps [of r "u @ s"] find_all.simps [of r s])
qed (use find_first_past [OF assms(1)] in \<open>simp add: find_all.simps [of r]\<close>)

text \<open>Inside a token nothing begins but at the bracket of a tag.\<close>

lemma inside_text: "text_token t \<Longrightarrow> i < length t \<Longrightarrow> hd (drop i (t @ s)) \<noteq> CHR ''<''"
  by (auto simp: text_token_def hd_append hd_drop_conv_nth dest: nth_mem)

lemma inside_tag: "tag_token t \<Longrightarrow> 0 < i \<Longrightarrow> i < length t \<Longrightarrow> hd (drop i (t @ s)) \<noteq> CHR ''<''"
proof (elim tag_tokenE)
  fix b assume t: "t = CHR ''<'' # b @ [CHR ''>'']" "CHR ''<'' \<notin> set b" and i: "0 < i" "i < length t"
  then have "t ! i \<noteq> CHR ''<''" by (cases i) (auto simp: nth_append dest: nth_mem)
  then show ?thesis using i(2) by (simp add: hd_drop_conv_nth nth_append)
qed

text \<open>The expression of a tag finds exactly the tags of its name.\<close>

lemma find_all_named:
  assumes "list_all head_token ts" and "w = CHR ''<'' # w'" and "CHR ''>'' \<notin> set w"
  shows "map fst (find_all (NAMED_RE w) (concat ts)) = filter (named w) ts"
  using assms(1)
proof (induction ts)
  case Nil
  then show ?case by (simp add: find_all.simps)
next
  case (Cons t ts)
  have sh: "(u, g) \<in> set (runs (NAMED_RE w) x) \<Longrightarrow> length u < length x" for u g x
    unfolding NAMED_RE_def assms(2) by (rule runs_word_shorter)
  have out: "runs (NAMED_RE w) (drop i (t @ s)) = []" if "hd (drop i (t @ s)) \<noteq> CHR ''<''" for i s
    unfolding NAMED_RE_def assms(2) using runs_no_tag that by blast
  show ?case
  proof (cases "tag_token t \<and> named w t")
    case True
    then have r: "runs (NAMED_RE w) (t @ concat ts) = [(concat ts, [])]" using runs_named [of t w] assms(3) by simp
    have ne: "t \<noteq> []" using True by (auto simp: tag_token_def)
    have "find_first (NAMED_RE w) (t @ concat ts) = Some ([], t, [], concat ts)"
      by (rule find_first_here) (simp_all add: match_here_runs r ne)
    then show ?thesis using True Cons ne by (simp add: find_all.simps [of _ "t @ concat ts"] find_all.simps [of _ "[]"])
  next
    case False
    have "runs (NAMED_RE w) (drop i (t @ concat ts)) = []" if "i < length t" for i
    proof (cases "tag_token t")
      case True
      show ?thesis
      proof (cases i)
        case 0
        with True False runs_named [of t w "concat ts"] assms(3) show ?thesis by simp
      next
        case (Suc j)
        with True that inside_tag [of t i] show ?thesis by (intro out) blast
      qed
    next
      case False
      then have "text_token t" using Cons.prems by (simp add: head_token_def)
      with that show ?thesis by (intro out inside_text)
    qed
    then have "find_all (NAMED_RE w) (t @ concat ts) = find_all (NAMED_RE w) (concat ts)"
      by (intro find_all_past sh) auto
    moreover have "\<not> named w t"
    proof (cases "tag_token t")
      case notag: False
      then have "t = [] \<or> hd t \<noteq> CHR ''<''" using Cons.prems by (cases t) (auto simp: head_token_def text_token_def)
      then have "strip_word w t = None" using strip_word_head [of w' t] assms(2) by blast
      then show ?thesis by (simp add: named_def)
    qed (use False in simp)
    ultimately show ?thesis using Cons by simp
  qed
qed

section \<open>The title\<close>

lemma leading_step: "step space_class s = (if leading white_space s = 0 then None else Some (drop (leading white_space s) s))"
  using white_space_words
  by (auto simp: space_class_def step_words leading_def find_Some_iff split: option.splits)

text \<open>Blanks taken greedily end where \<open>trim_start\<close> does.\<close>

lemma reps_space: "\<exists>xs. reps space_class s = xs @ [trim_start s] \<and> (\<forall>x\<in>set xs. step space_class x \<noteq> None)"
  unfolding trim_start_def
proof (induction "white_space" s rule: trim_with.induct)
  case 1
  have "step space_class [] = None" by (simp add: step_def split: option.splits nat.splits)
  then show ?case by (intro exI [of _ "[]"]) (simp add: reps_None)
next
  case (2 c cs)
  show ?case
  proof (cases "leading white_space (c # cs) = 0")
    case True
    then show ?thesis by (intro exI [of _ "[]"]) (simp add: leading_step reps_None)
  next
    case False
    let ?u = "drop (leading white_space (c # cs)) (c # cs)"
    obtain xs where "reps space_class ?u = xs @ [trim_with white_space ?u]"
      "\<forall>x\<in>set xs. step space_class x \<noteq> None"
      using 2 [OF False] by blast
    moreover have st: "step space_class (c # cs) = Some ?u" using False leading_step by simp
    ultimately show ?thesis using False
      by (intro exI [of _ "(c # cs) # xs"]) (simp only: reps_Some [OF st] trim_with.simps if_False, simp add: st)
  qed
qed

lemma runs_blanks_gt:
  "runs (Cat (Many space_class) (Cls (one_of [''>'']))) s =
    (case step (one_of [''>'']) (trim_start s) of None \<Rightarrow> [] | Some v \<Rightarrow> [(v, [])])"
proof -
  obtain xs where xs: "reps space_class s = xs @ [trim_start s]" "\<forall>x\<in>set xs. step space_class x \<noteq> None"
    using reps_space by blast
  have none: "step (one_of [''>'']) x = None" if "x \<in> set xs" for x
  proof (rule ccontr)
    assume "step (one_of [''>'']) x \<noteq> None"
    then obtain y where "x = CHR ''>'' # y" using step_one_char [of "CHR ''>''" x] by auto
    then show False using xs(2) that step_space_gt by auto
  qed
  then show ?thesis
    by (auto simp: xs(1) rev_map [symmetric] comp_def cong: map_cong split: option.splits)
qed

lemma trim_before: "trim_start (b @ CHR ''>'' # s) = trim_start b @ CHR ''>'' # s"
  unfolding trim_start_def
proof (induction "white_space" b rule: trim_with.induct)
  case 1
  have "leading white_space (CHR ''>'' # s) = 0"
    using step_space_gt [of s] leading_step [of "CHR ''>'' # s"] by (auto split: if_splits)
  then show ?case by simp
next
  case (2 c cs)
  have l: "leading white_space ((c # cs) @ CHR ''>'' # s) = leading white_space (c # cs)"
    unfolding leading_def find_space_before ..
  have le: "leading white_space (c # cs) \<le> length (c # cs)"
    by (auto simp: leading_def find_Some_iff split: option.splits dest: prefix_length_le)
  show ?case
  proof (cases "leading white_space (c # cs) = 0")
    case True
    then show ?thesis using l by simp
  next
    case False
    moreover have "drop (leading white_space (c # cs)) (c # cs @ CHR ''>'' # s) =
        drop (leading white_space (c # cs)) (c # cs) @ CHR ''>'' # s"
      using le drop_append [of "leading white_space (c # cs)" "c # cs" "CHR ''>'' # s"] by simp
    ultimately show ?thesis using 2 [OF False] l by simp
  qed
qed

definition TITLE_END :: regex where
  "TITLE_END = word ''</title'' (Cat (Many space_class) (Cls (one_of [''>''])))"

lemma strip_tag:
  assumes "tag_token t" and "CHR ''>'' \<notin> set w"
  obtains "strip_word w t = None" "\<And>s. strip_word w (t @ s) = None"
  | u where "strip_word w t = Some (u @ [CHR ''>''])" "\<And>s. strip_word w (t @ s) = Some (u @ CHR ''>'' # s)" "CHR ''>'' \<notin> set u"
proof -
  obtain b where t: "t = CHR ''<'' # b @ [CHR ''>'']" "CHR ''>'' \<notin> set b" using tag_tokenE [OF assms(1)] by metis
  let ?b = "CHR ''<'' # b"
  have st: "strip_word w (t @ s) = map_option (\<lambda>u. u @ CHR ''>'' # s) (strip_word w ?b)" for s
    using strip_word_before [OF assms(2), of ?b s] t(1) by simp
  have st0: "strip_word w t = map_option (\<lambda>u. u @ [CHR ''>'']) (strip_word w ?b)"
    using st [of "[]"] by simp
  show thesis
  proof (cases "strip_word w ?b")
    case None
    then show thesis using that(1) st st0 by simp
  next
    case (Some u)
    have "CHR ''>'' \<notin> set u" using strip_word_set [OF Some] t(2) by auto
    then show thesis using that(2) [of u] st st0 Some by simp
  qed
qed

lemma title_no_gt: "CHR ''>'' \<notin> set ''</title''" "CHR ''>'' \<notin> set ''<title''"
  by simp_all

lemma runs_closes:
  assumes "tag_token t"
  shows "runs TITLE_END (t @ s) = (if closes_title t then [(s, [])] else [])"
proof (rule strip_tag [OF assms title_no_gt(1)])
  assume "strip_word ''</title'' t = None" "\<And>s. strip_word ''</title'' (t @ s) = None"
  then show ?thesis by (simp only: TITLE_END_def runs_strip closes_title_def option.case if_False)
next
  fix u
  assume u: "strip_word ''</title'' t = Some (u @ [CHR ''>''])" "\<And>s. strip_word ''</title'' (t @ s) = Some (u @ CHR ''>'' # s)"
    "CHR ''>'' \<notin> set u"
  have c: "closes_title t \<longleftrightarrow> trim_start u = []"
    using u(1) trim_before [of u "[]"] by (simp add: closes_title_def)
  have r: "runs TITLE_END (t @ s) = (case step (one_of [''>'']) (trim_start u @ CHR ''>'' # s) of None \<Rightarrow> [] | Some v \<Rightarrow> [(v, [])])"
    by (simp only: TITLE_END_def runs_strip u(2) option.case runs_blanks_gt trim_before)
  obtain xs where "reps space_class u = xs @ [trim_start u]" using reps_space by blast
  then have "suffix (trim_start u) u" using reps_suffix [of "trim_start u" space_class u] by simp
  then have "CHR ''>'' \<notin> set (trim_start u)" using u(3) set_mono_suffix by blast
  then show ?thesis using c r
    by (cases "trim_start u") (auto simp: step_one_head, auto simp: step_def one_of_def)
qed

definition TITLE_REST :: regex where
  "TITLE_REST = Cat (Group 1 (Few any_char)) TITLE_END"

lemma TITLE_RE_parts:
  "TITLE_RE = word ''<title'' (Cat (Many (none_of (CHR ''>''))) (Cat (Cls (one_of [''>''])) TITLE_REST))"
  by (simp only: TITLE_RE_def TITLE_REST_def TITLE_END_def)

lemma runs_opens:
  assumes "tag_token t"
  shows "runs TITLE_RE (t @ s) = (if opens_title t then runs TITLE_REST s else [])"
proof (rule strip_tag [OF assms title_no_gt(2)])
  assume "strip_word ''<title'' t = None" "\<And>s. strip_word ''<title'' (t @ s) = None"
  then show ?thesis by (simp only: TITLE_RE_parts runs_strip opens_title_def option.case simp_thms if_False)
next
  fix u
  assume u: "strip_word ''<title'' t = Some (u @ [CHR ''>''])" "\<And>s. strip_word ''<title'' (t @ s) = Some (u @ CHR ''>'' # s)"
    "CHR ''>'' \<notin> set u"
  have "opens_title t" using u(1) by (simp add: opens_title_def)
  then show ?thesis by (simp only: TITLE_RE_parts runs_strip u(2) option.case runs_to_gt(1) [OF u(3)] if_True)
qed

text \<open>The lazy repetition tries every place where an ASCII character stands, the nearest first.\<close>

lemma reps_any:
  assumes "v \<noteq> []" and "code (hd v) < 128"
  shows "\<exists>xs ys. reps any_char (u @ v) = xs @ v # ys \<and> (\<forall>x\<in>set xs. \<exists>u'. u' \<noteq> [] \<and> suffix u' u \<and> x = u' @ v)"
proof (induction "length u" arbitrary: u rule: less_induct)
  case less
  show ?case
  proof (cases "u = []")
    case True
    obtain t where "step any_char v = Some t" using any_char_steps [OF assms(1)] by blast
    then show ?thesis using True by (intro exI [of _ "[]"] exI [of _ "reps any_char t"]) (simp add: reps_Some)
  next
    case False
    obtain c v' where v: "v = c # v'" using assms(1) by (cases v) auto
    obtain d w b where b: "step any_char (u @ v) = Some (b @ v)" "u = d # w @ b"
      using any_char_before [OF False, of c v'] assms(2) v by auto
    obtain xs ys where xs: "reps any_char (b @ v) = xs @ v # ys"
      "\<forall>x\<in>set xs. \<exists>u'. u' \<noteq> [] \<and> suffix u' b \<and> x = u' @ v"
      using less.hyps [of b] b(2) by auto
    have s: "suffix u' u" if "suffix u' b" for u' using that b(2) by (auto simp: suffix_def)
    show ?thesis
      by (intro exI [of _ "(u @ v) # xs"] exI [of _ ys]) (use xs s False b(1) in \<open>auto simp: reps_Some\<close>)
  qed
qed

lemma runs_rest:
  "runs TITLE_REST s =
    concat (map (\<lambda>u. map (\<lambda>(v, h). (v, (1, take (length s - length u) s) # h)) (runs TITLE_END u)) (reps any_char s))"
  by (simp add: TITLE_REST_def comp_def case_prod_unfold)

text \<open>A bracket in a sequence of tokens is the start of a tag.\<close>

lemma suffix_token:
  "list_all head_token ts \<Longrightarrow> suffix u (concat ts) \<Longrightarrow> u \<noteq> [] \<Longrightarrow> hd u = CHR ''<'' \<Longrightarrow>
   \<exists>t rest. u = t @ concat rest \<and> tag_token t \<and> t \<in> set ts \<and> set rest \<subseteq> set ts"
proof (induction ts)
  case (Cons t ts)
  consider "suffix u (concat ts)" | i where "i < length t" "u = drop i (t @ concat ts)"
  proof -
    obtain p where p: "t @ concat ts = p @ u" using Cons.prems(2) by (auto simp: suffix_def)
    then consider us where "t = p @ us" "us @ concat ts = u" | us where "concat ts = us @ u"
      by (auto simp: append_eq_append_conv2)
    then show thesis
    proof cases
      case (1 us)
      then show thesis using that(1) that(2) [of "length p"] by (cases "us = []") auto
    qed (use that(1) in \<open>auto simp: suffix_def\<close>)
  qed
  then show ?case
  proof cases
    case 1
    then obtain t' rest where "u = t' @ concat rest" "tag_token t'" "t' \<in> set ts" "set rest \<subseteq> set ts"
      using Cons by auto
    then show ?thesis by (intro exI [of _ t'] exI [of _ rest]) auto
  next
    case (2 i)
    have tag: "tag_token t" and i: "i = 0"
      using Cons.prems(1,4) 2 inside_text [of t i] inside_tag [of t i] by (auto simp: head_token_def)
    then show ?thesis using 2 by (intro exI [of _ t] exI [of _ ts]) auto
  qed
qed simp

lemma strip_text: "text_token t \<Longrightarrow> strip_word (CHR ''<'' # w) t = None"
proof -
  assume "text_token t"
  then have "t = [] \<or> hd t \<noteq> CHR ''<''" by (cases t) (auto simp: text_token_def)
  then show ?thesis using strip_word_head [of w t] by blast
qed

lemma text_not_named:
  assumes "text_token t"
  shows "\<not> opens_title t" and "\<not> closes_title t"
  using strip_text [OF assms] by (simp_all only: opens_title_def closes_title_def option.case simp_thms)

lemma no_title_end: "s = [] \<or> hd s \<noteq> CHR ''<'' \<Longrightarrow> runs TITLE_END s = []"
  unfolding TITLE_END_def by (rule runs_no_tag)

lemma no_end_inside:
  assumes "list_all head_token ts" and "\<not> list_ex closes_title ts" and "suffix u (concat ts)" and "u \<noteq> []"
  shows "runs TITLE_END (u @ v) = []"
proof (cases "hd u = CHR ''<''")
  case True
  obtain t rest where "u = t @ concat rest" "tag_token t" "t \<in> set ts"
    using suffix_token [OF assms(1,3,4) True] by blast
  moreover from this have "\<not> closes_title t" using assms(2) by (auto simp: list_ex_iff)
  ultimately show ?thesis using runs_closes [of t "concat rest @ v"] by simp
next
  case False
  then show ?thesis using assms(4) by (intro no_title_end) simp
qed

lemma rest_unclosed:
  assumes "list_all head_token ts" and "\<not> list_ex closes_title ts"
  shows "runs TITLE_REST (concat ts) = []"
proof -
  have "runs TITLE_END u = []" if "u \<in> set (reps any_char (concat ts))" for u
    using no_end_inside [OF assms reps_suffix [OF that], of "[]"] no_title_end [of u] by (cases "u = []") auto
  then show ?thesis by (auto simp: runs_rest)
qed

lemma rest_closed:
  assumes "list_all head_token ts" and "\<not> list_ex closes_title ts" and "tag_token c" and "closes_title c"
  shows "\<exists>R. runs TITLE_REST (concat ts @ c @ s) = (s, [(1, concat ts)]) # R"
proof -
  have c: "c @ s \<noteq> []" "code (hd (c @ s)) < 128"
    using assms(3) gt_code by (auto elim!: tag_tokenE)
  obtain xs ys where xs: "reps any_char (concat ts @ c @ s) = xs @ (c @ s) # ys"
    "\<forall>x\<in>set xs. \<exists>u. u \<noteq> [] \<and> suffix u (concat ts) \<and> x = u @ c @ s"
    using reps_any [OF c] by blast
  let ?F = "\<lambda>u. map (\<lambda>(v, h). (v, (1, take (length (concat ts @ c @ s) - length u) (concat ts @ c @ s)) # h)) (runs TITLE_END u)"
  have "?F x = []" if "x \<in> set xs" for x
    using xs(2) that no_end_inside [OF assms(1,2)] by fastforce
  then have skip: "concat (map ?F xs) = []" by simp
  have hit: "?F (c @ s) = [(s, [(1, concat ts)])]"
    using runs_closes [OF assms(3), of s] assms(4) by simp
  have "runs TITLE_REST (concat ts @ c @ s) = concat (map ?F xs) @ ?F (c @ s) @ concat (map ?F ys)"
    by (simp only: runs_rest xs(1) map_append list.map concat_append concat.simps)
  also have "\<dots> = (s, [(1, concat ts)]) # concat (map ?F ys)" by (simp only: skip hit append.simps)
  finally show ?thesis by blast
qed

lemma split_closes:
  assumes "list_ex closes_title ts" and "list_all head_token ts"
  obtains as c bs where "ts = as @ c # bs" "\<not> list_ex closes_title as" "closes_title c" "tag_token c"
    "takeWhile (\<lambda>u. \<not> closes_title u) ts = as"
proof -
  obtain as c bs where "ts = as @ c # bs" "closes_title c" "\<forall>x\<in>set as. \<not> closes_title x"
    using split_list_first_prop [of ts closes_title] assms(1) by (auto simp: list_ex_iff)
  moreover from this have "tag_token c" using assms(2) text_not_named by (auto simp: head_token_def)
  ultimately show thesis by (intro that [of as c bs]) (auto simp: list_ex_iff)
qed

lemma title_first:
  "list_all head_token ts \<Longrightarrow>
   map_option (\<lambda>(a, m, g, t). g) (find_first TITLE_RE (concat ts)) = map_option (\<lambda>x. [(1, x)]) (title_of ts)"
proof (induction ts)
  case (Cons t ts)
  let ?s = "concat ts"
  have out: "runs TITLE_RE (drop i (t @ ?s)) = []" if "hd (drop i (t @ ?s)) \<noteq> CHR ''<''" for i
    unfolding TITLE_RE_parts using that by (intro runs_no_tag) blast
  show ?case
  proof (cases "opens_title t \<and> list_ex closes_title ts")
    case True
    then have tag: "tag_token t" using Cons.prems text_not_named by (auto simp: head_token_def)
    obtain as c bs where ts: "ts = as @ c # bs" "\<not> list_ex closes_title as" "closes_title c" "tag_token c"
      "takeWhile (\<lambda>u. \<not> closes_title u) ts = as"
      using split_closes [of ts] True Cons.prems by auto
    obtain R where "runs TITLE_REST (concat as @ c @ concat bs) = (concat bs, [(1, concat as)]) # R"
      using rest_closed [of as c "concat bs"] ts Cons.prems by auto
    then have "match_here TITLE_RE (t @ ?s) = Some (concat bs, [(1, concat as)])"
      using runs_opens [OF tag, of ?s] True ts(1) by (simp add: match_here_runs)
    moreover obtain x xs where "t @ ?s = x # xs" using tag by (auto elim!: tag_tokenE)
    ultimately show ?thesis using True ts(5) by simp
  next
    case False
    have "runs TITLE_RE (drop i (t @ ?s)) = []" if "i < length t" for i
    proof (cases "tag_token t")
      case True
      show ?thesis
      proof (cases i)
        case 0
        with False Cons.prems rest_unclosed [of ts] runs_opens [OF True, of ?s] show ?thesis by auto
      next
        case (Suc j)
        with True that inside_tag [of t i] show ?thesis by (intro out) blast
      qed
    next
      case False
      then have "text_token t" using Cons.prems by (simp add: head_token_def)
      with that show ?thesis by (intro out inside_text)
    qed
    then have "find_first TITLE_RE (t @ ?s) = map_option (\<lambda>(a, m, g, u). (t @ a, m, g, u)) (find_first TITLE_RE ?s)"
      by (intro find_first_past) blast
    then show ?thesis using False Cons by (auto simp: option.map_comp comp_def case_prod_unfold)
  qed
qed simp

lemma title_text_tokens:
  assumes "list_all head_token ts"
  shows "title_text page_regexes (concat ts) = title_of ts"
proof -
  have "title_text page_regexes (concat ts) =
      Option.bind (map_option (\<lambda>(a, m, g, t). g) (find_first TITLE_RE (concat ts))) (\<lambda>g. map_of g 1)"
    by (cases "find_first TITLE_RE (concat ts)") (auto simp: page_regexes_def)
  then show ?thesis by (cases "title_of ts") (simp_all add: title_first [OF assms])
qed

section \<open>The head of a document\<close>

text \<open>A search for a bracket and more stops at the first tag that has it.\<close>

lemma find_sub_past:
  "(\<forall>i<length u. \<not> prefix p (drop i (u @ s))) \<Longrightarrow> find_sub p (u @ s) = map_option (\<lambda>i. length u + i) (find_sub p s)"
proof (induction u)
  case (Cons c u)
  have "\<not> prefix p (c # u @ s)" using Cons.prems by fastforce
  moreover have "\<forall>i<length u. \<not> prefix p (drop i (u @ s))" using Cons.prems by fastforce
  ultimately show ?case using Cons.IH by (simp add: option.map_comp comp_def)
qed (cases "find_sub p s"; simp)

lemma find_sub_tokens:
  assumes "list_all head_token ts" and "p = CHR ''<'' # q"
    and "\<And>t s. tag_token t \<Longrightarrow> prefix p (t @ s) \<longleftrightarrow> P t" and "\<And>t. text_token t \<Longrightarrow> \<not> P t"
  shows "find_sub p (concat ts) =
    (if list_ex P ts then Some (length (concat (takeWhile (\<lambda>t. \<not> P t) ts))) else None)"
  using assms(1)
proof (induction ts)
  case (Cons t ts)
  have out: "\<not> prefix p (drop i (t @ concat ts))" if "hd (drop i (t @ concat ts)) \<noteq> CHR ''<''" for i
    using that assms(2) by (auto simp: prefix_def)
  show ?case
  proof (cases "P t")
    case True
    then have tag: "tag_token t" using Cons.prems assms(4) by (auto simp: head_token_def)
    with True assms(3) have "prefix p (t @ concat ts)" by blast
    moreover obtain x xs where "t @ concat ts = x # xs" using tag by (auto elim!: tag_tokenE)
    ultimately show ?thesis using True by simp
  next
    case False
    have "\<not> prefix p (drop i (t @ concat ts))" if "i < length t" for i
    proof (cases "tag_token t")
      case True
      show ?thesis
      proof (cases i)
        case 0
        with True False assms(3) show ?thesis by simp
      next
        case (Suc j)
        with True that inside_tag [of t i] show ?thesis by (intro out) blast
      qed
    next
      case False
      then have "text_token t" using Cons.prems by (simp add: head_token_def)
      with that show ?thesis by (intro out inside_text)
    qed
    then have "find_sub p (t @ concat ts) = map_option (\<lambda>i. length t + i) (find_sub p (concat ts))"
      by (intro find_sub_past) blast
    then show ?thesis using False Cons by simp
  qed
qed (use assms(2) in simp)

text \<open>The two marks of the head.\<close>

lemma prefix_at_tag: "tag_token t \<Longrightarrow> CHR ''>'' \<notin> set p \<Longrightarrow> prefix p (t @ s) \<longleftrightarrow> prefix p t"
proof (elim tag_tokenE)
  fix b assume "CHR ''>'' \<notin> set p" and t: "t = CHR ''<'' # b @ [CHR ''>'']"
  then show ?thesis
    using prefix_before [of "CHR ''>''" p "CHR ''<'' # b" s] prefix_before [of "CHR ''>''" p "CHR ''<'' # b" "[]"] by simp
qed

lemma prefix_closed: "g \<notin> set q \<Longrightarrow> g \<notin> set b \<Longrightarrow> prefix (q @ [g]) (b @ g # s) \<longleftrightarrow> q = b"
proof (induction q arbitrary: b)
  case Nil
  then show ?case by (cases b) auto
next
  case (Cons c q)
  then show ?case by (cases b) auto
qed

lemma lower_gt: "ascii_lower d = CHR ''>'' \<Longrightarrow> d = CHR ''>''"
proof (rule ccontr)
  assume l: "ascii_lower d = CHR ''>''" and "d \<noteq> CHR ''>''"
  then have u: "65 \<le> code d" "code d \<le> 90" "char_of (code d + 32) = CHR ''>''"
    by (auto simp: ascii_lower_def split: if_splits)
  have "code d + 32 < 256" using u(2) by linarith
  from code_char_of [OF this] have "code d + 32 = code (CHR ''>'')" using u(3) by simp
  also have "\<dots> = 62" by code_simp
  finally show False using u(1) by simp
qed

lemma lower_bracket: "ascii_lower (CHR ''<'') = CHR ''<''" "ascii_lower (CHR ''>'') = CHR ''>''"
  by code_simp+

lemma lower_no: "(\<And>d. ascii_lower d = c \<Longrightarrow> d = c) \<Longrightarrow> c \<notin> set t \<Longrightarrow> c \<notin> set (to_ascii_lowercase t)"
  by (force simp: to_ascii_lowercase_def)

lemma lower_tag: "tag_token t \<Longrightarrow> tag_token (to_ascii_lowercase t)"
proof (elim tag_tokenE)
  fix b assume t: "t = CHR ''<'' # b @ [CHR ''>'']" "CHR ''<'' \<notin> set b" "CHR ''>'' \<notin> set b"
  then have "CHR ''<'' \<notin> set (to_ascii_lowercase b)" "CHR ''>'' \<notin> set (to_ascii_lowercase b)"
    using lower_no [OF lower_lt] lower_no [OF lower_gt] by blast+
  then show ?thesis using t(1) lower_bracket
    by (auto simp: tag_token_def list_all_iff to_ascii_lowercase_def butlast_append) (metis image_eqI)+
qed

lemma lower_text: "text_token t \<Longrightarrow> text_token (to_ascii_lowercase t)"
  unfolding text_token_def by (rule lower_no [OF lower_lt])

lemma lower_tokens: "list_all head_token ts \<Longrightarrow> list_all head_token (map to_ascii_lowercase ts)"
  using lower_tag lower_text by (auto simp: list_all_iff head_token_def)

lemma lower_concat: "to_ascii_lowercase (concat ts) = concat (map to_ascii_lowercase ts)"
  by (induction ts) (simp_all add: to_ascii_lowercase_def)

lemma take_takeWhile: "take (length (concat (takeWhile P ts))) (concat ts) = concat (takeWhile P ts)"
  using append_eq_conv_conj [of "concat (takeWhile P ts)" "concat (dropWhile P ts)" "concat ts"]
  by (metis concat_append takeWhile_dropWhile_id)

lemma length_lower_concat: "length (concat (map to_ascii_lowercase ts)) = length (concat ts)"
  by (metis length_to_ascii_lowercase lower_concat)

lemma end_tokens:
  assumes "list_all head_token ts"
  shows "take (case find_sub ''</head>'' (to_ascii_lowercase (concat ts)) of None \<Rightarrow> length (concat ts) | Some i \<Rightarrow> i) (concat ts) =
    concat (takeWhile (\<lambda>t. to_ascii_lowercase t \<noteq> ''</head>'') ts)"
proof -
  let ?P = "\<lambda>t. t = ''</head>''"
  have tag: "prefix ''</head>'' (t @ s) \<longleftrightarrow> ?P t" if tg: "tag_token t" for t s
  proof -
    obtain b where b: "t = CHR ''<'' # b @ [CHR ''>'']" "CHR ''>'' \<notin> set b" using tag_tokenE [OF tg] by metis
    then show ?thesis using prefix_closed [of "CHR ''>''" "''</head''" "CHR ''<'' # b" s] by auto
  qed
  have "\<not> ?P t" if "text_token t" for t using that by (auto simp: text_token_def)
  then have f: "find_sub ''</head>'' (concat (map to_ascii_lowercase ts)) =
      (if list_ex ?P (map to_ascii_lowercase ts)
       then Some (length (concat (takeWhile (\<lambda>t. \<not> ?P t) (map to_ascii_lowercase ts)))) else None)"
    by (intro find_sub_tokens [OF lower_tokens [OF assms] _ tag]) auto
  have l: "length (concat (takeWhile (\<lambda>t. \<not> ?P t) (map to_ascii_lowercase ts))) =
      length (concat (takeWhile (\<lambda>t. to_ascii_lowercase t \<noteq> ''</head>'') ts))"
    by (simp add: takeWhile_map comp_def length_lower_concat)
  show ?thesis
  proof (cases "list_ex ?P (map to_ascii_lowercase ts)")
    case True
    then show ?thesis using f l take_takeWhile by (simp add: lower_concat)
  next
    case False
    then have whole: "takeWhile (\<lambda>t. to_ascii_lowercase t \<noteq> ''</head>'') ts = ts"
      by (auto simp: list_ex_iff takeWhile_eq_all_conv) (metis image_eqI)
    show ?thesis unfolding whole using False f by (simp add: lower_concat)
  qed
qed

lemma find_char_tag: "tag_token t \<Longrightarrow> find_char (\<lambda>c. c = CHR ''>'') (t @ s) = Some (length t - 1)"
proof (elim tag_tokenE)
  fix b assume t: "t = CHR ''<'' # b @ [CHR ''>'']" "CHR ''>'' \<notin> set b"
  have "find_char (\<lambda>c. c = CHR ''>'') (b @ CHR ''>'' # s) = Some (length b)"
    using t(2) by (induction b) auto
  then show ?thesis using t(1) by simp
qed

lemma document_head_tokens:
  assumes "list_all head_token ts"
  shows "document_head (concat ts) = concat (head_tokens ts)"
proof -
  let ?P = "prefix ''<head''"
  let ?us = "case dropWhile (\<lambda>t. \<not> ?P t) ts of [] \<Rightarrow> ts | _ # us \<Rightarrow> us"
  have f: "find_sub ''<head'' (concat ts) =
      (if list_ex ?P ts then Some (length (concat (takeWhile (\<lambda>t. \<not> ?P t) ts))) else None)"
    by (rule find_sub_tokens [OF assms]) (simp_all add: prefix_at_tag, auto simp: text_token_def prefix_def)
  have "(case find_sub ''<head'' (concat ts) of
      Some start \<Rightarrow>
        (let after_tag = (case find_char (\<lambda>c. c = CHR ''>'') (drop start (concat ts)) of
               None \<Rightarrow> start | Some i \<Rightarrow> start + i + 1)
         in drop after_tag (concat ts))
    | None \<Rightarrow> concat ts) = concat ?us"
  proof (cases "list_ex ?P ts")
    case True
    obtain as t us where ts: "ts = as @ t # us" "?P t" "\<forall>x\<in>set as. \<not> ?P x"
      using split_list_first_prop [of ts ?P] True by (auto simp: list_ex_iff)
    have "tag_token t" using assms ts(1,2) by (auto simp: head_token_def text_token_def prefix_def)
    then have "find_char (\<lambda>c. c = CHR ''>'') (t @ concat us) = Some (length t - 1)" "0 < length t"
      using find_char_tag by (auto elim!: tag_tokenE)
    then show ?thesis using f ts by (simp add: list_ex_iff Let_def)
  next
    case False
    then have "dropWhile (\<lambda>t. \<not> ?P t) ts = []" by (auto simp: list_ex_iff dropWhile_eq_Nil_conv)
    then show ?thesis by (simp only: f False if_False option.case list.case)
  qed
  moreover have "list_all head_token ?us"
    using assms set_dropWhileD [of _ "\<lambda>t. \<not> ?P t" ts] by (fastforce simp: list_all_iff split: list.splits)
  ultimately show ?thesis
    using end_tokens [of ?us] by (simp add: document_head_def head_tokens_def Let_def)
qed

section \<open>Scraping\<close>

lemma head_tokens_subset: "set (head_tokens ts) \<subseteq> set ts"
proof -
  let ?d = "dropWhile (\<lambda>t. \<not> prefix ''<head'' t) ts"
  have "set ?d \<subseteq> set ts" using set_dropWhileD by fast
  then have "set (case ?d of [] \<Rightarrow> ts | _ # us \<Rightarrow> us) \<subseteq> set ts" by (cases ?d) (simp_all only: list.case, auto)
  then show ?thesis unfolding head_tokens_def using set_takeWhileD by fast
qed

lemma render_tag_title: "m_title (render_tag X tag meta) = m_title meta"
  by (auto simp: render_tag_def Let_def split: option.splits prod.splits)

lemma note_icon_title: "m_title (note_icon X tag meta) = m_title meta"
  by (auto simp: note_icon_def split: option.splits)

lemma fold_title: "(\<And>t m. m_title (f t m) = m_title m) \<Longrightarrow> m_title (fold f ts m) = m_title m"
  by (induction ts arbitrary: m) simp_all

lemma scrape_by_tokens:
  assumes "list_all head_token doc"
  shows "scrape page_regexes (concat doc) = token_scrape doc"
proof -
  let ?ts = "head_tokens doc"
  have ts: "list_all head_token ?ts" using assms head_tokens_subset by (auto simp: list_all_iff)
  have "meta_tags page_regexes (concat ?ts) = filter (named ''<meta'') ?ts"
    "link_tags page_regexes (concat ?ts) = filter (named ''<link'') ?ts"
    using find_all_named [OF ts] by (simp_all add: page_regexes_def page_tag_expressions)
  then show ?thesis
    by (simp add: scrape_def token_scrape_def document_head_tokens [OF assms] title_text_tokens [OF ts] Let_def
        fold_title [OF render_tag_title] fold_title [OF note_icon_title] default_Meta_def cong: option.case_cong)
qed

section \<open>Properties\<close>



end
