(* ===== verification/Conformance_Fetch.thy ===== *)
theory Conformance_Fetch
  imports Conformance Head_Tokens
begin

text \<open>
  The tests of \<open>nekoguard/src/embed.rs\<close> that fetch a document from a running origin (\<open>fetch_tests\<close>), and
  what all tests with an origin share. The origin is a function from paths to responses, each of one chunk;
  every request it gets is on the record. A test asks for a page, evaluated here by the lemmas below on the
  steps of a fetch: the requests by computation, the documents token by token.
\<close>

section \<open>The origin of the tests\<close>

type_synonym Route = "nat \<times> (string \<times> string) list \<times> string"

definition origin_net :: "(string \<Rightarrow> Route) \<Rightarrow> (string \<times> string) list net" where
  "origin_net respond hits req =
     (case respond (uri_path (req_uri req)) of
        (st, hs, b) \<Rightarrow>
          Some \<lparr>status = st, headers = fold (\<lambda>(n, v) h. hm_append alist_http n v h) hs (hm_empty alist_http),
                body = [Some b]\<rparr>)"

definition served ::
  "((string \<times> string) list, 'r) embed_env \<Rightarrow> (string \<Rightarrow> Route) \<Rightarrow> ((string \<times> string) list, 'r) embed_env" where
  "served E respond = E\<lparr>e_http := alist_http, e_regex := page_regexes, e_net := origin_net respond\<rparr>"

definition test_upstream :: string where
  "test_upstream = ''http://127.0.0.1:8080''"

definition test_page :: string where
  "test_page = ''<html><head><title>Verifying your connection</title>{{NG_META}}</head><body>x</body></html>''"

text \<open>A process that has cached nothing, and what the origin has seen of it: paths, and hosts asked for.\<close>

definition cold :: "'r \<Rightarrow> ((string \<times> string) list, 'r) embed_state" where
  "cold r = \<lparr>local_tier = Map.empty, inflight = {}, e_redis = r, sent = []\<rparr>"

definition test_paths :: "((string \<times> string) list, 'r) embed_state \<Rightarrow> string list" where
  "test_paths st = map (\<lambda>req. uri_path (req_uri req)) (sent st)"

definition test_hits :: "((string \<times> string) list, 'r) embed_state \<Rightarrow> (string \<times> string) list" where
  "test_hits st = map (\<lambda>req. (uri_path (req_uri req), unwrap_or '''' (get_str alist_http (req_headers req) ''host''))) (sent st)"

section \<open>The steps of a fetch\<close>

definition get_of :: "string \<Rightarrow> string \<Rightarrow> (string \<times> string) list Request" where
  "get_of host path =
     \<lparr>req_method = ''GET'',
      req_uri = \<lparr>scheme_str = Some ''http'', authority = Some ''127.0.0.1:8080'', uri_path = path, path_and_query = Some path\<rparr>,
      req_headers = [(''cache-control'', ''no-cache''), (''host'', host), (''x-forwarded-proto'', ''https''),
        (''x-forwarded-host'', host)],
      req_body = []\<rparr>"

lemma test_uri:
  "prefix ''/'' path \<Longrightarrow> plain_uri (''http://127.0.0.1:8080'' @ path) =
     Some \<lparr>scheme_str = Some ''http'', authority = Some ''127.0.0.1:8080'', uri_path = path, path_and_query = Some path\<rparr>"
  by (auto simp: plain_uri_def prefix_def Let_def)

definition printable :: "string \<Rightarrow> bool" where
  "printable s \<longleftrightarrow> list_all (\<lambda>c. 32 \<le> code c) s"

lemma build_test_get:
  assumes "printable host" and "prefix ''/'' path"
  shows "build_get alist_http host test_upstream path = Some (get_of host path)"
proof -
  have up: "plain_uri test_upstream = Some \<lparr>scheme_str = Some ''http'', authority = Some ''127.0.0.1:8080'', uri_path = [],
      path_and_query = Some ''/''\<rparr>"
    by code_simp
  have "parse_uri alist_http = plain_uri" by (simp add: alist_http_def)
  then show ?thesis
    using assms(1) test_uri [OF assms(2)]
    by (simp add: build_get_def up unwrap_or_def get_of_def printable_def) (simp add: alist_http_def)
qed

text \<open>The answer to a request, as a page, a redirect or neither.\<close>

lemma served_fields [simp]:
  "e_http (served E f) = alist_http" "e_regex (served E f) = page_regexes" "e_net (served E f) = origin_net f"
  by (simp_all add: served_def)

lemma get_of_path [simp]: "uri_path (req_uri (get_of host path)) = path"
  by (simp add: get_of_def)

definition content_type :: "(string \<times> string) list \<Rightarrow> string option" where
  "content_type hs =
     hm_get alist_http (fold (\<lambda>(n, v) h. hm_append alist_http n v h) hs (hm_empty alist_http)) ''content-type''"

definition location :: "(string \<times> string) list \<Rightarrow> string option" where
  "location hs =
     hm_get alist_http (fold (\<lambda>(n, v) h. hm_append alist_http n v h) hs (hm_empty alist_http)) ''location''"

abbreviation asked :: "string \<Rightarrow> string \<Rightarrow> ((string \<times> string) list, 'r) embed_state \<Rightarrow> ((string \<times> string) list, 'r) embed_state" where
  "asked host path st \<equiv> st\<lparr>sent := sent st @ [get_of host path]\<rparr>"

lemma alist_str: "get_str alist_http h k = hm_get alist_http h k"
  by (simp add: get_str_def alist_http_def bind_eq_Some_conv split: list.splits)

lemma fetch_turn:
  assumes "printable host" and "prefix ''/'' path"
  shows "fetch_loop (Suc n) (served E respond) host test_upstream path st =
    (case respond path of (sc, hs, b) \<Rightarrow>
       if 300 \<le> sc \<and> sc < 400 then
         (case Option.bind (location hs) (\<lambda>l. same_origin_path l host) of
            None \<Rightarrow> (None, asked host path st)
          | Some path' \<Rightarrow> fetch_loop n (served E respond) host test_upstream path' (asked host path st))
       else if sc \<noteq> 200 \<or> \<not> embed_is_html alist_http (content_type hs) then (None, asked host path st)
       else (read_head [Some b], asked host path st))"
  using build_test_get [OF assms]
  by (auto simp: client_request_def origin_net_def alist_str content_type_def location_def Let_def
      split: option.splits prod.splits)

lemma icon_turn:
  assumes "strip_prefix ''data:'' url = None" and "same_origin_path url host = Some path"
    and "printable host" and "prefix ''/'' path"
  shows "fetch_icon (served E respond) host test_upstream url st =
    (case respond path of (sc, hs, b) \<Rightarrow>
       if sc \<noteq> 200 then None
       else (case icon_mime (unwrap_or '''' (content_type hs)) of
          None \<Rightarrow> None | Some mime \<Rightarrow> if length b \<le> MAX_ICON then Some (b, mime) else None),
     asked host path st)"
proof (cases "respond path")
  case (fields sc hs b)
  then show ?thesis using build_test_get [OF assms(3,4)] assms(1,2)
    by (auto simp: fetch_icon_def client_request_def origin_net_def alist_str content_type_def collect_limited_def
        split: option.splits)
qed

declare fetch_loop.simps [simp del]

section \<open>Documents\<close>

definition test_blank :: "nat \<Rightarrow> string" where
  "test_blank n = CHR 0x0A # replicate n (CHR '' '')"

definition closes_head :: "string \<Rightarrow> bool" where
  "closes_head t \<longleftrightarrow> prefix ''</head'' (to_ascii_lowercase t)"

definition before_head_end :: "string list \<Rightarrow> string list" where
  "before_head_end ts = takeWhile (\<lambda>t. \<not> closes_head t) ts"

lemma find_index_sub:
  "p \<noteq> [] \<Longrightarrow> find (\<lambda>i. prefix p (drop i s)) [0..<length s] = find_sub p s"
proof (induction s)
  case (Cons c s)
  have "find (\<lambda>i. prefix p (drop i (c # s))) [0..<length (c # s)] =
      (if prefix p (c # s) then Some 0 else find (\<lambda>i. prefix p (drop i (c # s))) (map Suc [0..<length s]))"
    by (simp add: upt_conv_Cons map_Suc_upt del: upt_Suc)
  also have "find (\<lambda>i. prefix p (drop i (c # s))) (map Suc xs) = map_option Suc (find (\<lambda>i. prefix p (drop i s)) xs)" for xs
    by (induction xs) auto
  finally show ?case using Cons by simp
qed simp

lemma first_head_sub: "first_head s = find_sub ''</head'' (to_ascii_lowercase s)"
proof -
  have pre: "take (length p) u = p \<longleftrightarrow> prefix p u" for p u :: string
    by (metis append_take_drop_id append_eq_conv_conj prefixE prefixI)
  have m: "to_ascii_lowercase ''</head'' = ''</head''" "length ''</head'' = 6" by code_simp+
  have "to_ascii_lowercase (take 6 (drop i s)) = take 6 (drop i (to_ascii_lowercase s))" for i
    by (simp add: to_ascii_lowercase_def take_map drop_map)
  then have "head_at s = (\<lambda>i. prefix ''</head'' (drop i (to_ascii_lowercase s)))"
    unfolding fun_eq_iff head_at_def head_marker_def eq_ignore_ascii_case_def m using pre [of "''</head''", unfolded m(2)] by simp
  then show ?thesis
    using find_index_sub [of "''</head''" "to_ascii_lowercase s"] by (simp add: first_head_def)
qed

lemma first_head_tokens:
  assumes "list_all head_token ts"
  shows "first_head (concat ts) = (if list_ex closes_head ts then Some (length (concat (before_head_end ts))) else None)"
proof -
  have "find_sub ''</head'' (concat (map to_ascii_lowercase ts)) =
      (if list_ex (prefix ''</head'') (map to_ascii_lowercase ts)
       then Some (length (concat (takeWhile (\<lambda>t. \<not> prefix ''</head'' t) (map to_ascii_lowercase ts)))) else None)"
    by (rule find_sub_tokens [OF lower_tokens [OF assms]]) (simp_all add: prefix_at_tag, auto simp: text_token_def prefix_def)
  moreover have "list_ex (prefix ''</head'') (map to_ascii_lowercase ts) = list_ex closes_head ts"
    by (simp add: closes_head_def list_ex_iff)
  moreover have "length (concat (takeWhile (\<lambda>t. \<not> prefix ''</head'' t) (map to_ascii_lowercase ts))) =
      length (concat (before_head_end ts))"
    by (simp add: takeWhile_map comp_def length_lower_concat before_head_end_def closes_head_def)
  ultimately show ?thesis by (simp add: first_head_sub lower_concat)
qed

text \<open>Of a document with an end of its head, what stands before; of a long one without, nothing.\<close>

lemma read_head_tokens:
  assumes "list_all head_token ts" and "list_ex closes_head ts"
    and "list_all (list_all (\<lambda>c. code c < 128)) (before_head_end ts)"
  shows "read_head [Some (concat ts)] = Some (concat (before_head_end ts))"
proof -
  have "find_head_end (concat ts) 0 = Some (length (concat (before_head_end ts)))"
    using find_head_end_first [of 0 "concat ts"] first_head_tokens [OF assms(1)] assms(2) by simp
  moreover have "take (length (concat (before_head_end ts))) (concat ts) = concat (before_head_end ts)"
    unfolding before_head_end_def by (rule take_takeWhile)
  moreover have "list_all (\<lambda>c. code c < 128) (concat (before_head_end ts))"
    using assms(3) by (auto simp: list_all_iff)
  ultimately show ?thesis
    using from_utf8_lossy_valid [OF utf8_valid_ascii] by (simp add: read_head_def)
qed

lemma read_head_endless:
  assumes "list_all head_token ts" and "\<not> list_ex closes_head ts" and "MAX_HTML < length (concat ts)"
  shows "read_head [Some (concat ts)] = None"
proof -
  have "find_head_end (concat ts) 0 = None"
    using find_head_end_first [of 0 "concat ts"] first_head_tokens [OF assms(1)] assms(2) by simp
  then show ?thesis using assms(3) by (simp add: read_head_def del: length_concat)
qed

text \<open>The page filled in: nothing but its title and its marker changes.\<close>

lemma page_filled:
  assumes "title = (case Option.bind meta m_title of Some s \<Rightarrow> s | None \<Rightarrow> host)" and "CHR ''{'' \<notin> set title"
  shows "inline_meta page_regexes test_page host meta =
    ''<html><head><title>'' @ html_escape title @ ''</title>'' @
    (case meta of None \<Rightarrow> '''' | Some m \<Rightarrow> concat (m_tags m) @ (if m_icon m \<noteq> None then FAVICON_LINK else '''')) @
    ''</head><body>x</body></html>''"
proof -
  have n: "no_title ''<html><head>''" by code_simp
  have t: "\<forall>c\<in>set ''Verifying your connection''. code c < 128 \<and> c \<noteq> CHR ''<''" by code_simp
  have p: "test_page = ''<html><head>'' @ ''<title>'' @ ''Verifying your connection'' @ ''</title>'' @ [] @ NG_META @ ''</head><body>x</body></html>''"
    by (simp add: test_page_def NG_META_def)
  have "CHR ''{'' \<notin> set (''<html><head>'' @ [])" by simp
  from inline_meta_page [OF n t this assms] show ?thesis unfolding p by simp
qed

section \<open>Loading and rendering without Redis\<close>

definition plain_name :: "string \<Rightarrow> string \<Rightarrow> bool" where
  "plain_name host path \<longleftrightarrow>
     normalize_host host = host \<and> normalize_path path = path \<and> printable host \<and> prefix ''/'' path"

lemma inline_fetched:
  assumes "plain_name host path" and "local_tier st (cache_key F host path) = None"
    and "fetch F host ups path (inflight_lock F host path st) = (r, st')" and "e_regex F = page_regexes"
  shows "inline_into F clk page False host ups path st =
    (inline_meta page_regexes page host r, case r of None \<Rightarrow> st' | Some m \<Rightarrow> local_put F (clk 4) host path m st')"
  using assms by (simp add: plain_name_def inline_into_def load_def lookup_def local_get_def inflight_lock_def Let_def
      split: option.splits)

lemma load_cached:
  assumes "normalize_path path = path" and "local_tier st (cache_key F host path) = Some e"
    and "clk 0 - fetched e < secs CACHE_TTL"
  shows "load F clk host path ctx ups b st = (Some (c_meta e), st)"
  using assms by (simp add: load_def lookup_def local_get_def)

lemma inline_cached:
  assumes "plain_name host path" and "local_tier st (cache_key F host path) = Some e"
    and "clk 0 - fetched e < secs CACHE_TTL" and "e_regex F = page_regexes"
  shows "inline_into F clk page ctx host ups path st = (inline_meta page_regexes page host (Some (c_meta e)), st)"
  using assms load_cached [of path st F host e clk] by (simp add: plain_name_def inline_into_def)

lemma favicon_cached:
  assumes "plain_name host ''/''" and "local_tier st (cache_key F host ''/'') = Some e"
    and "clk 0 - fetched e < secs CACHE_TTL"
  shows "favicon F clk host ups ''/'' ctx st = (m_icon (c_meta e), st)"
  using assms load_cached [of "''/''" st F host e clk]
  by (simp add: plain_name_def favicon_def Let_def split: option.splits)

lemma fetch_scraped:
  assumes "fetch_html F host ups path st = (Some doc, st1)" and "scrape (e_regex F) doc = meta"
  shows "fetch F host ups path st =
    (case m_icon_url meta of
       None \<Rightarrow> (Some meta, st1)
     | Some url \<Rightarrow>
         (case fetch_icon F host ups url st1 of
            (icon, st2) \<Rightarrow> (Some (meta\<lparr>m_icon_url := None, m_icon := (case icon of None \<Rightarrow> m_icon meta | Some i \<Rightarrow> Some i)\<rparr>), st2)))"
  using assms by (auto simp: fetch_def Let_def split: option.splits prod.splits)

lemma fetch_nothing: "fetch_html F host ups path st = (None, st1) \<Longrightarrow> fetch F host ups path st = (None, st1)"
  by (simp add: fetch_def)

lemma inline_unfetched:
  assumes "plain_name host path"
    and "fetch_loop (Suc (Suc (Suc 0))) F host ups path (inflight_lock F host path (cold r)) = (None, st')"
    and "e_regex F = page_regexes"
  shows "inline_into F clk page False host ups path (cold r) = (inline_meta page_regexes page host None, st')"
proof -
  have "fetch F host ups path (inflight_lock F host path (cold r)) = (None, st')"
    using assms(1,2) by (simp add: fetch_def fetch_html_def plain_name_def MAX_HOPS_def numeral_3_eq_3)
  from inline_fetched [OF assms(1) _ this assms(3)] show ?thesis by (simp add: cold_def)
qed

lemma fetch_html_path: "normalize_path path = path \<Longrightarrow> fetch_html F host ups path st = fetch_loop (Suc (Suc (Suc 0))) F host ups path st"
  by (simp add: fetch_html_def MAX_HOPS_def numeral_3_eq_3)

lemma cold_sel [simp]: "local_tier (cold r) = Map.empty" "sent (cold r) = []"
  by (simp_all add: cold_def)

lemma inflight_sel [simp]:
  "local_tier (inflight_lock F h p st) = local_tier st" "sent (inflight_lock F h p st) = sent st"
  by (simp_all add: inflight_lock_def)

lemma local_put_sel [simp]:
  "local_tier (local_put F t h p m st) = (local_tier st)(cache_key F h p \<mapsto> \<lparr>c_meta = m, fetched = t\<rparr>)"
  "sent (local_put F t h p m st) = sent st"
  by (simp_all add: local_put_def)

section \<open>Tests that fetch nothing to scrape\<close>

definition an_unknown_path_falls_back_to_the_host :: "((string \<times> string) list, 'r) embed_env \<Rightarrow> (nat \<Rightarrow> nat) \<Rightarrow> 'r \<Rightarrow> bool" where
  "an_unknown_path_falls_back_to_the_host E clk r \<longleftrightarrow>
     (case inline_into (served E (\<lambda>_. (404, [], []))) clk test_page False ''nopage.example'' test_upstream ''/missing/'' (cold r) of
        (out, st) \<Rightarrow> contains ''<title>nopage.example</title>'' out)"

lemma unknown_path_passes: "an_unknown_path_falls_back_to_the_host E clk r"
proof -
  have n: "plain_name ''nopage.example'' ''/missing/''" by code_simp
  let ?F = "served E (\<lambda>_. (404, [], []))"
  have f: "fetch_loop (Suc (Suc (Suc 0))) ?F ''nopage.example'' test_upstream ''/missing/'' st =
      (None, asked ''nopage.example'' ''/missing/'' st)" for st
    using n by (simp add: plain_name_def fetch_turn)
  note inline_unfetched [OF n f served_fields(2), of clk test_page r]
  moreover have "contains ''<title>nopage.example</title>'' (inline_meta page_regexes test_page ''nopage.example'' None)"
    by (subst page_filled [OF refl]) (simp, code_simp)
  ultimately show ?thesis by (simp add: an_unknown_path_falls_back_to_the_host_def split: prod.splits)
qed

section \<open>Rendering a scraped page\<close>

definition closed_document :: "string list \<Rightarrow> bool" where
  "closed_document ts \<longleftrightarrow>
     list_all head_token ts \<and> list_ex closes_head ts \<and> list_all (list_all (\<lambda>c. code c < 128)) (before_head_end ts)"

text \<open>What a first rendering shows, and the process after it; \<open>meta\<close> is what the document says.\<close>

lemma inline_found:
  assumes "plain_name host path" and "local_tier st (cache_key (served E f) host path) = None"
    and "fetch_loop (Suc (Suc (Suc 0))) (served E f) host ups path (inflight_lock (served E f) host path st) =
      (read_head [Some (concat ts)], st1)"
    and "closed_document ts" and "token_scrape (before_head_end ts) = meta"
  shows "m_icon_url meta = None \<Longrightarrow>
      inline_into (served E f) clk page False host ups path st =
        (inline_meta page_regexes page host (Some meta), local_put (served E f) (clk 4) host path meta st1)"
    and "m_icon_url meta = Some url \<Longrightarrow> fetch_icon (served E f) host ups url st1 = (icon, st2) \<Longrightarrow>
      m = meta\<lparr>m_icon_url := None, m_icon := (case icon of None \<Rightarrow> m_icon meta | Some i \<Rightarrow> Some i)\<rparr> \<Longrightarrow>
      inline_into (served E f) clk page False host ups path st =
        (inline_meta page_regexes page host (Some m), local_put (served E f) (clk 4) host path m st2)"
proof -
  have d: "list_all head_token ts" "list_all head_token (before_head_end ts)"
    using assms(4) by (auto simp: closed_document_def before_head_end_def list_all_iff dest: set_takeWhileD)
  have html: "fetch_html (served E f) host ups path (inflight_lock (served E f) host path st) =
      (Some (concat (before_head_end ts)), st1)"
    using assms(1,3,4) read_head_tokens [of ts] d(1) by (simp add: fetch_html_path plain_name_def closed_document_def)
  have sc: "scrape (e_regex (served E f)) (concat (before_head_end ts)) = meta"
    using scrape_by_tokens [OF d(2)] assms(5) by simp
  note found = inline_fetched [OF assms(1,2) _ served_fields(2), of ups]
  show "inline_into (served E f) clk page False host ups path st =
      (inline_meta page_regexes page host (Some meta), local_put (served E f) (clk 4) host path meta st1)"
    if "m_icon_url meta = None"
    using fetch_scraped [OF html sc] that found by simp
  show "inline_into (served E f) clk page False host ups path st =
      (inline_meta page_regexes page host (Some m), local_put (served E f) (clk 4) host path m st2)"
    if "m_icon_url meta = Some url" "fetch_icon (served E f) host ups url st1 = (icon, st2)"
      "m = meta\<lparr>m_icon_url := None, m_icon := (case icon of None \<Rightarrow> m_icon meta | Some i \<Rightarrow> Some i)\<rparr>"
    using fetch_scraped [OF html sc] that found by simp
qed

definition html_type_header :: "(string \<times> string) list" where
  "html_type_header = [(''content-type'', ''text/html'')]"

lemma html_types:
  "embed_is_html alist_http (content_type html_type_header)"
  "embed_is_html alist_http (content_type [(''content-type'', ''text/html; charset=utf-8'')])"
  "\<not> embed_is_html alist_http (content_type [(''content-type'', ''application/json'')])"
  "\<not> embed_is_html alist_http (content_type [])"
  "\<not> embed_is_html alist_http None"
proof -
  have c: "content_type [(''content-type'', v)] = Some v" for v
    by (simp add: content_type_def alist_http_def)
  have n: "content_type [] = None" by (simp add: content_type_def alist_http_def)
  show "embed_is_html alist_http (content_type html_type_header)"
    "embed_is_html alist_http (content_type [(''content-type'', ''text/html; charset=utf-8'')])"
    "\<not> embed_is_html alist_http (content_type [(''content-type'', ''application/json'')])"
    "\<not> embed_is_html alist_http (content_type [])" "\<not> embed_is_html alist_http None"
    unfolding html_type_header_def c n embed_is_html_text by code_simp+
qed

lemma locations: "location [(''location'', v)] = Some v"
  by (simp add: location_def alist_http_def)

section \<open>Pages and redirects\<close>

definition title_tokens :: "string \<Rightarrow> string list" where
  "title_tokens title = [''<head>'', ''<title>'', title, ''</title>'', ''</head>'']"

definition moved_routes :: "string \<Rightarrow> Route" where
  "moved_routes path =
     (if path = ''/old/'' then (301, [(''location'', ''/new/'')], [])
      else if path = ''/new/'' then (200, html_type_header, concat (title_tokens ''Moved Post''))
      else (404, [], []))"

definition a_redirecting_subpage_is_resolved_through_the_redirect ::
  "((string \<times> string) list, 'r) embed_env \<Rightarrow> (nat \<Rightarrow> nat) \<Rightarrow> 'r \<Rightarrow> bool" where
  "a_redirecting_subpage_is_resolved_through_the_redirect E clk r \<longleftrightarrow>
     (case inline_into (served E moved_routes) clk test_page False ''moved.example'' test_upstream ''/old/'' (cold r) of
        (out, st) \<Rightarrow> contains ''<title>Moved Post</title>'' out \<and> test_paths st = [''/old/'', ''/new/''])"

lemma titled:
  assumes "token_scrape (before_head_end (title_tokens title)) = default_Meta\<lparr>m_title := Some title\<rparr>"
    and "CHR ''{'' \<notin> set title" and "html_escape title = title"
  shows "contains (''<title>'' @ title @ ''</title>'')
    (inline_meta page_regexes test_page host (Some (default_Meta\<lparr>m_title := Some title\<rparr>)))"
proof -
  let ?m = "Some (default_Meta\<lparr>m_title := Some title\<rparr>)"
  have "inline_meta page_regexes test_page host ?m =
      ''<html><head>'' @ (''<title>'' @ title @ ''</title>'') @ ''</head><body>x</body></html>''"
    using page_filled [of title host ?m] assms(2,3) by (simp add: default_Meta_def)
  then show ?thesis
    using contains_mid [of "''<title>'' @ title @ ''</title>''" "''<title>'' @ title @ ''</title>''"]
    by (simp only: contains_sublist sublist_order.order_refl simp_thms)
qed

lemma moved_passes: "a_redirecting_subpage_is_resolved_through_the_redirect E clk r"
proof -
  let ?h = "''moved.example''"
  have n: "plain_name ?h ''/old/''" by code_simp
  have redirect: "same_origin_path ''/new/'' ?h = Some ''/new/''" by code_simp
  have f: "fetch_loop (Suc (Suc (Suc 0))) (served E moved_routes) ?h test_upstream ''/old/'' st =
      (read_head [Some (concat (title_tokens ''Moved Post''))], asked ?h ''/new/'' (asked ?h ''/old/'' st))" for st
    using n by (simp add: plain_name_def fetch_turn moved_routes_def locations redirect html_types)
  have d: "closed_document (title_tokens ''Moved Post'')" by code_simp
  have sc: "token_scrape (before_head_end (title_tokens ''Moved Post'')) = default_Meta\<lparr>m_title := Some ''Moved Post''\<rparr>"
    by code_simp
  have e: "html_escape ''Moved Post'' = ''Moved Post''" by code_simp
  have m: "local_tier (cold r) (cache_key (served E moved_routes) ?h ''/old/'') = None" by simp
  note run = inline_found(1) [OF n m f d sc, of clk test_page]
  show ?thesis
    using titled [OF sc _ e, of ?h]
    by (simp add: a_redirecting_subpage_is_resolved_through_the_redirect_def run test_paths_def default_Meta_def)
qed

section \<open>Responses without metadata\<close>

text \<open>What the page shows of a host without metadata.\<close>

lemma host_page:
  assumes "CHR ''{'' \<notin> set host" and "html_escape host = host"
  shows "inline_meta page_regexes test_page host None =
    ''<html><head>'' @ (''<title>'' @ host @ ''</title>'') @ ''</head><body>x</body></html>''"
  using page_filled [of host host None] assms by simp

lemma host_titled:
  "CHR ''{'' \<notin> set host \<Longrightarrow> html_escape host = host \<Longrightarrow>
   contains (''<title>'' @ host @ ''</title>'') (inline_meta page_regexes test_page host None)"
  unfolding host_page
  using contains_mid [of "''<title>'' @ host @ ''</title>''" "''<title>'' @ host @ ''</title>''"]
  by (simp only: contains_sublist sublist_order.order_refl simp_thms)

definition html_tokens :: "string \<Rightarrow> string list" where
  \<open>html_tokens icon =
     [''<!doctype html>'', ''<html>'', ''<head>'', test_blank 8, ''<meta charset="utf-8">'', ''<title>'', ''Origin Title'',
      ''</title>'', test_blank 8, ''<meta name="description" content="An origin description">'', test_blank 8,
      ''<meta property="og:description" content="An og description">'', test_blank 8,
      ''<link rel="icon" href="'' @ icon @ ''">'', test_blank 8, ''<link rel="stylesheet" href="/app.css">'', test_blank 4,
      ''</head>'', ''<body>'', ''Hello from the origin'', ''</body>'', ''</html>'']\<close>

definition fetch_html_doc :: string where
  "fetch_html_doc = concat (html_tokens ''/favicon.ico'')"

definition cross_origin_routes :: "string \<Rightarrow> Route" where
  "cross_origin_routes path =
     (if path = ''/'' then (302, [(''location'', ''http://169.254.169.254/latest/meta-data/'')], [])
      else (200, html_type_header, fetch_html_doc))"

definition refuses_cross_origin_redirect :: "((string \<times> string) list, 'r) embed_env \<Rightarrow> (nat \<Rightarrow> nat) \<Rightarrow> 'r \<Rightarrow> bool" where
  "refuses_cross_origin_redirect E clk r \<longleftrightarrow>
     (case inline_into (served E cross_origin_routes) clk test_page False ''crossorigin.example'' test_upstream ''/'' (cold r) of
        (out, st) \<Rightarrow> contains ''<title>crossorigin.example</title>'' out \<and> test_paths st = [''/''])"

lemma cross_origin_passes: "refuses_cross_origin_redirect E clk r"
proof -
  let ?h = "''crossorigin.example''"
  have n: "plain_name ?h ''/''" by code_simp
  have refused: "same_origin_path ''http://169.254.169.254/latest/meta-data/'' ?h = None" by code_simp
  have f: "fetch_loop (Suc (Suc (Suc 0))) (served E cross_origin_routes) ?h test_upstream ''/'' st = (None, asked ?h ''/'' st)" for st
    using n by (simp add: plain_name_def fetch_turn cross_origin_routes_def locations refused)
  note run = inline_unfetched [OF n f served_fields(2), of clk test_page r]
  have "html_escape ?h = ?h" by code_simp
  then show ?thesis using host_titled [of ?h] by (simp add: refuses_cross_origin_redirect_def run test_paths_def)
qed

definition non_html_origin_yields_no_metadata :: "((string \<times> string) list, 'r) embed_env \<Rightarrow> (nat \<Rightarrow> nat) \<Rightarrow> 'r \<Rightarrow> bool" where
  "non_html_origin_yields_no_metadata E clk r \<longleftrightarrow>
     (case inline_into (served E (\<lambda>_. (200, [(''content-type'', ''application/json'')], fetch_html_doc))) clk test_page False
        ''jsononly.example'' test_upstream ''/'' (cold r) of
        (out, st) \<Rightarrow> contains ''<title>jsononly.example</title>'' out \<and> \<not> contains ''Origin Title'' out \<and>
          \<not> contains ''og:description'' out)"

lemma non_html_passes: "non_html_origin_yields_no_metadata E clk r"
proof -
  let ?h = "''jsononly.example''"
  let ?F = "served E (\<lambda>_. (200, [(''content-type'', ''application/json'')], fetch_html_doc))"
  have n: "plain_name ?h ''/''" by code_simp
  have f: "fetch_loop (Suc (Suc (Suc 0))) ?F ?h test_upstream ''/'' st = (None, asked ?h ''/'' st)" for st
    using n by (simp add: plain_name_def fetch_turn html_types)
  note run = inline_unfetched [OF n f served_fields(2), of clk test_page r]
  have e: "html_escape ?h = ?h" by code_simp
  have "\<not> contains ''Origin Title'' (''<html><head>'' @ (''<title>'' @ ?h @ ''</title>'') @ ''</head><body>x</body></html>'')"
    "\<not> contains ''og:description'' (''<html><head>'' @ (''<title>'' @ ?h @ ''</title>'') @ ''</head><body>x</body></html>'')"
    by code_simp+
  then show ?thesis using host_titled [of ?h] e host_page [of ?h]
    by (simp add: non_html_origin_yields_no_metadata_def run)
qed

definition missing_content_type_yields_no_metadata :: "((string \<times> string) list, 'r) embed_env \<Rightarrow> (nat \<Rightarrow> nat) \<Rightarrow> 'r \<Rightarrow> bool" where
  "missing_content_type_yields_no_metadata E clk r \<longleftrightarrow>
     (case inline_into (served E (\<lambda>_. (200, [], fetch_html_doc))) clk test_page False
        ''notype.example'' test_upstream ''/'' (cold r) of
        (out, st) \<Rightarrow> contains ''<title>notype.example</title>'' out)"

lemma missing_type_passes: "missing_content_type_yields_no_metadata E clk r"
proof -
  let ?h = "''notype.example''"
  have n: "plain_name ?h ''/''" by code_simp
  have f: "fetch_loop (Suc (Suc (Suc 0))) (served E (\<lambda>_. (200, [], fetch_html_doc))) ?h test_upstream ''/'' st =
      (None, asked ?h ''/'' st)" for st
    using n by (simp add: plain_name_def fetch_turn html_types)
  note run = inline_unfetched [OF n f served_fields(2), of clk test_page r]
  have "html_escape ?h = ?h" by code_simp
  then show ?thesis using host_titled [of ?h] by (simp add: missing_content_type_yields_no_metadata_def run)
qed

section \<open>Long documents\<close>

definition endless_tokens :: "string list" where
  "endless_tokens =
     [''<!doctype html>'', ''<html>'', ''<head>'', ''<title>'', ''Never Ends'', ''</title>''] @
     replicate 60000 ''<!-- filler -->''"

definition an_endless_head_is_refused :: "((string \<times> string) list, 'r) embed_env \<Rightarrow> (nat \<Rightarrow> nat) \<Rightarrow> 'r \<Rightarrow> bool" where
  "an_endless_head_is_refused E clk r \<longleftrightarrow>
     (let endless = concat endless_tokens in
      MAX_HTML < length endless \<and>
      (case inline_into (served E (\<lambda>_. (200, html_type_header, endless))) clk test_page False
         ''endless.example'' test_upstream ''/x/'' (cold r) of
         (out, st) \<Rightarrow> contains ''<title>endless.example</title>'' out \<and> \<not> contains ''Never Ends'' out))"

lemma endless_passes: "an_endless_head_is_refused E clk r"
proof -
  let ?h = "''endless.example''"
  let ?F = "served E (\<lambda>_. (200, html_type_header, concat endless_tokens))"
  have n: "plain_name ?h ''/x/''" by code_simp
  have "list_all head_token [''<!doctype html>'', ''<html>'', ''<head>'', ''<title>'', ''Never Ends'', ''</title>'']"
    "head_token ''<!-- filler -->''"
    by code_simp+
  then have t: "list_all head_token endless_tokens" by (simp add: endless_tokens_def list_all_iff)
  have "\<not> list_ex closes_head [''<!doctype html>'', ''<html>'', ''<head>'', ''<title>'', ''Never Ends'', ''</title>'']"
    "\<not> closes_head ''<!-- filler -->''"
    by code_simp+
  then have c: "\<not> list_ex closes_head endless_tokens" by (auto simp: endless_tokens_def list_ex_iff)
  have l: "MAX_HTML < length (concat endless_tokens)"
    by (simp add: endless_tokens_def length_concat sum_list_replicate MAX_HTML_def)
  have f: "fetch_loop (Suc (Suc (Suc 0))) ?F ?h test_upstream ''/x/'' st = (None, asked ?h ''/x/'' st)" for st
    using n read_head_endless [OF t c l] by (simp add: plain_name_def fetch_turn html_types)
  note run = inline_unfetched [OF n f served_fields(2), of clk test_page r]
  have e: "html_escape ?h = ?h" by code_simp
  have "\<not> contains ''Never Ends'' (''<html><head>'' @ (''<title>'' @ ?h @ ''</title>'') @ ''</head><body>x</body></html>'')"
    by code_simp
  then show ?thesis using l host_titled [of ?h] e host_page [of ?h]
    by (simp add: an_endless_head_is_refused_def Let_def run del: length_concat)
qed

definition long_tokens :: "string list" where
  \<open>long_tokens =
     [''<!doctype html>'', ''<html>'', ''<head>'', ''<title>'', ''Long Read'', ''</title>'',
      ''<meta name="description" content="a very long article">'', ''</head>'', ''<body>''] @
     concat (replicate 30000 [''<p>'', ''body text that goes on and on'', ''</p>'']) @ [''</body>'', ''</html>'']\<close>

definition a_document_far_larger_than_the_cap_still_yields_metadata ::
  "((string \<times> string) list, 'r) embed_env \<Rightarrow> (nat \<Rightarrow> nat) \<Rightarrow> 'r \<Rightarrow> bool" where
  "a_document_far_larger_than_the_cap_still_yields_metadata E clk r \<longleftrightarrow>
     (let huge = concat long_tokens in
      MAX_HTML * 2 < length huge \<and>
      (case inline_into (served E (\<lambda>_. (200, [(''content-type'', ''text/html; charset=utf-8'')], huge))) clk test_page False
         ''longread.example'' test_upstream ''/a-long-post/'' (cold r) of
         (out, st) \<Rightarrow> contains ''<title>Long Read</title>'' out \<and> contains ''a very long article'' out))"

lemma sum_list_replicated: "sum_list (concat (replicate n xs)) = n * sum_list (xs :: nat list)"
  by (induction n) simp_all

lemma before_head_end_append: "list_ex closes_head as \<Longrightarrow> before_head_end (as @ bs) = before_head_end as"
  by (auto simp: before_head_end_def list_ex_iff takeWhile_append1)

lemma long_passes: "a_document_far_larger_than_the_cap_still_yields_metadata E clk r"
proof -
  let ?h = "''longread.example''" and ?p = "''/a-long-post/''"
  let ?F = "served E (\<lambda>_. (200, [(''content-type'', ''text/html; charset=utf-8'')], concat long_tokens))"
  let ?head = "take 9 long_tokens"
  have n: "plain_name ?h ?p" by code_simp
  have parts: "long_tokens = ?head @ concat (replicate 30000 [''<p>'', ''body text that goes on and on'', ''</p>'']) @ [''</body>'', ''</html>'']"
    by (simp add: long_tokens_def)
  have h: "?head = [''<!doctype html>'', ''<html>'', ''<head>'', ''<title>'', ''Long Read'', ''</title>'',
      ''<meta name='' @ quote ''description'' @ '' content='' @ quote ''a very long article'' @ ''>'', ''</head>'', ''<body>'']"
    by (simp add: long_tokens_def quote_def)
  have head: "closed_document ?head" unfolding h by code_simp
  have "list_all head_token [''<p>'', ''body text that goes on and on'', ''</p>'']" "list_all head_token [''</body>'', ''</html>'']"
    by code_simp+
  moreover from this(1) have "list_all head_token (concat (replicate 30000 [''<p>'', ''body text that goes on and on'', ''</p>'']))"
    by (rule list_all_replicated)
  ultimately have "list_all head_token long_tokens" using head
    by (subst parts) (simp only: list_all_append closed_document_def simp_thms)
  moreover have b: "before_head_end long_tokens = before_head_end ?head"
    using head by (subst parts) (simp only: before_head_end_append closed_document_def)
  moreover have "list_ex closes_head long_tokens" using head by (subst parts) (simp add: closed_document_def)
  ultimately have d: "closed_document long_tokens" using head by (simp add: closed_document_def)
  let ?meta = "default_Meta\<lparr>m_title := Some ''Long Read'', m_tags := [''<meta name='' @ quote ''description'' @ '' content='' @ quote ''a very long article'' @ ''>'']\<rparr>"
  have sc: "token_scrape (before_head_end long_tokens) = ?meta"
    unfolding b h by code_simp
  have f: "fetch_loop (Suc (Suc (Suc 0))) ?F ?h test_upstream ?p st =
      (read_head [Some (concat long_tokens)], asked ?h ?p st)" for st
    using n by (simp add: plain_name_def fetch_turn html_types)
  have m: "local_tier (cold r) (cache_key ?F ?h ?p) = None" by simp
  note run = inline_found(1) [OF n m f d sc, of clk test_page]
  have e: "html_escape ''Long Read'' = ''Long Read''" by code_simp
  have out: "inline_meta page_regexes test_page ?h (Some ?meta) = ''<html><head><title>Long Read</title><meta name='' @ quote ''description'' @
      '' content='' @ quote ''a very long article'' @ ''></head><body>x</body></html>''"
    using page_filled [of "''Long Read''" ?h "Some ?meta"] e by (simp add: default_Meta_def quote_def)
  have "contains ''<title>Long Read</title>'' (''<html><head><title>Long Read</title><meta name='' @ quote ''description'' @
      '' content='' @ quote ''a very long article'' @ ''></head><body>x</body></html>'')"
    "contains ''a very long article'' (''<html><head><title>Long Read</title><meta name='' @ quote ''description'' @
      '' content='' @ quote ''a very long article'' @ ''></head><body>x</body></html>'')"
    by code_simp+
  then have c: "contains ''<title>Long Read</title>'' (inline_meta page_regexes test_page ?h (Some ?meta))"
    "contains ''a very long article'' (inline_meta page_regexes test_page ?h (Some ?meta))"
    unfolding out by simp_all
  have "MAX_HTML * 2 < length (concat long_tokens)"
    by (simp add: long_tokens_def length_concat sum_list_replicated MAX_HTML_def map_concat)
  moreover have "m_icon_url ?meta = None" by (simp add: default_Meta_def)
  ultimately show ?thesis using c run
    by (simp add: a_document_far_larger_than_the_cap_still_yields_metadata_def Let_def del: length_concat)
qed

section \<open>Pages of one site\<close>

lemma keys_apart: "normalize_path p \<noteq> ''/'' \<Longrightarrow> cache_key F host p \<noteq> cache_key F host ''/''"
proof -
  have "normalize_path ''/'' = ''/''" by code_simp
  then show "normalize_path p \<noteq> ''/'' \<Longrightarrow> ?thesis" by (simp add: cache_key_def Let_def)
qed

definition site_tokens :: "string \<Rightarrow> string \<Rightarrow> string \<Rightarrow> string list" where
  \<open>site_tokens title description kind =
     [''<head>'', ''<title>'', title, ''</title>'', test_blank 20,
      ''<meta name="description" content="'' @ description @ ''">'', test_blank 20,
      ''<meta property="og:type" content="'' @ kind @ ''">'', ''</head>'']\<close>

definition site_routes :: "string \<Rightarrow> Route" where
  "site_routes path =
     (if path = ''/'' then (200, html_type_header, concat (site_tokens ''Site Home'' ''the homepage'' ''website''))
      else if path = ''/a-post/'' then (200, html_type_header, concat (site_tokens ''A Post'' ''a specific post'' ''article''))
      else (404, [], []))"

definition a_subpage_gets_its_own_metadata_not_the_roots ::
  "((string \<times> string) list, 'r) embed_env \<Rightarrow> (nat \<Rightarrow> nat) \<Rightarrow> 'r \<Rightarrow> bool" where
  \<open>a_subpage_gets_its_own_metadata_not_the_roots E clk r \<longleftrightarrow>
     (case inline_into (served E site_routes) clk test_page False ''paths.example'' test_upstream ''/a-post/'' (cold r) of
        (out, st) \<Rightarrow> contains ''<title>A Post</title>'' out \<and> contains ''a specific post'' out \<and>
          contains ''content="article"'' out \<and> \<not> contains ''Site Home'' out \<and> \<not> contains ''the homepage'' out \<and>
          test_paths st = [''/a-post/''])\<close>

lemma subpage_passes: "a_subpage_gets_its_own_metadata_not_the_roots E clk r"
proof -
  let ?h = "''paths.example''" and ?p = "''/a-post/''" and ?ts = "site_tokens ''A Post'' ''a specific post'' ''article''"
  let ?tags = "''<meta name='' @ quote ''description'' @ '' content='' @ quote ''a specific post'' @ ''><meta property='' @
    quote ''og:type'' @ '' content='' @ quote ''article'' @ ''>''"
  let ?out = "''<html><head><title>A Post</title>'' @ ?tags @ ''</head><body>x</body></html>''"
  let ?meta = "default_Meta\<lparr>m_title := Some ''A Post'', m_tags :=
    [''<meta name='' @ quote ''description'' @ '' content='' @ quote ''a specific post'' @ ''>'',
     ''<meta property='' @ quote ''og:type'' @ '' content='' @ quote ''article'' @ ''>'']\<rparr>"
  have n: "plain_name ?h ?p" by code_simp
  have f: "fetch_loop (Suc (Suc (Suc 0))) (served E site_routes) ?h test_upstream ?p st = (read_head [Some (concat ?ts)], asked ?h ?p st)" for st
    using n by (simp add: plain_name_def fetch_turn html_types site_routes_def)
  have d: "closed_document ?ts" by code_simp
  have sc: "token_scrape (before_head_end ?ts) = ?meta" by code_simp
  have m: "local_tier (cold r) (cache_key (served E site_routes) ?h ?p) = None" by simp
  note run = inline_found(1) [OF n m f d sc, of clk test_page]
  have "html_escape ''A Post'' = ''A Post''" by code_simp
  then have out: "inline_meta page_regexes test_page ?h (Some ?meta) = ?out"
    using page_filled [of "''A Post''" ?h "Some ?meta"] by (simp add: default_Meta_def quote_def)
  have "contains ''<title>A Post</title>'' ?out" "contains ''a specific post'' ?out"
    "contains (''content='' @ quote ''article'') ?out" "\<not> contains ''Site Home'' ?out" "\<not> contains ''the homepage'' ?out"
    by code_simp+
  then have c: "contains ''<title>A Post</title>'' (inline_meta page_regexes test_page ?h (Some ?meta))"
    "contains ''a specific post'' (inline_meta page_regexes test_page ?h (Some ?meta))"
    "contains (''content='' @ quote ''article'') (inline_meta page_regexes test_page ?h (Some ?meta))"
    "\<not> contains ''Site Home'' (inline_meta page_regexes test_page ?h (Some ?meta))"
    "\<not> contains ''the homepage'' (inline_meta page_regexes test_page ?h (Some ?meta))"
    unfolding out by simp_all
  have "m_icon_url ?meta = None" by (simp add: default_Meta_def)
  then show ?thesis using c run
    by (simp add: a_subpage_gets_its_own_metadata_not_the_roots_def test_paths_def quote_def)
qed

definition two_routes :: "string \<Rightarrow> Route" where
  "two_routes path =
     (if path = ''/'' then (200, html_type_header, concat (title_tokens ''Site Home''))
      else if path = ''/a-post/'' then (200, html_type_header, concat (title_tokens ''A Post''))
      else (404, [], []))"

text \<open>Four renderings in a row, the later two within the life of the entries of the first two.\<close>

definition root_and_subpage_are_cached_separately ::
  "((string \<times> string) list, 'r) embed_env \<Rightarrow> (nat \<Rightarrow> nat) list \<Rightarrow> 'r \<Rightarrow> bool" where
  "root_and_subpage_are_cached_separately E clks r \<longleftrightarrow>
     (let visit = (\<lambda>i path st. inline_into (served E two_routes) (clks ! i) test_page False ''separate.example''
            test_upstream path st)
      in case visit 0 ''/'' (cold r) of (root, s1) \<Rightarrow>
         case visit 1 ''/a-post/'' s1 of (post, s2) \<Rightarrow>
         case visit 2 ''/a-post/'' s2 of (out2, s3) \<Rightarrow>
         case visit 3 ''/'' s3 of (out3, s4) \<Rightarrow>
           contains ''<title>Site Home</title>'' root \<and> contains ''<title>A Post</title>'' post \<and>
           test_paths s4 = test_paths s2)"

lemma separate_passes:
  assumes "(clks ! 2) 0 - (clks ! 1) 4 < secs CACHE_TTL" and "(clks ! 3) 0 - (clks ! 0) 4 < secs CACHE_TTL"
  shows "root_and_subpage_are_cached_separately E clks r"
proof -
  let ?h = "''separate.example''" and ?F = "served E two_routes"
  let ?m0 = "default_Meta\<lparr>m_title := Some ''Site Home''\<rparr>" and ?m1 = "default_Meta\<lparr>m_title := Some ''A Post''\<rparr>"
  have n0: "plain_name ?h ''/''" and n1: "plain_name ?h ''/a-post/''" by code_simp+
  have f0: "fetch_loop (Suc (Suc (Suc 0))) ?F ?h test_upstream ''/'' st = (read_head [Some (concat (title_tokens ''Site Home''))], asked ?h ''/'' st)" for st
    using n0 by (simp add: plain_name_def fetch_turn html_types two_routes_def)
  have f1: "fetch_loop (Suc (Suc (Suc 0))) ?F ?h test_upstream ''/a-post/'' st = (read_head [Some (concat (title_tokens ''A Post''))], asked ?h ''/a-post/'' st)" for st
    using n1 by (simp add: plain_name_def fetch_turn html_types two_routes_def)
  have d: "closed_document (title_tokens ''Site Home'')" "closed_document (title_tokens ''A Post'')" by code_simp+
  have sc0: "token_scrape (before_head_end (title_tokens ''Site Home'')) = ?m0" by code_simp
  have sc1: "token_scrape (before_head_end (title_tokens ''A Post'')) = ?m1" by code_simp
  have u: "m_icon_url ?m0 = None" "m_icon_url ?m1 = None" by (simp_all add: default_Meta_def)
  have k: "cache_key ?F ?h ''/a-post/'' \<noteq> cache_key ?F ?h ''/''"
    by (intro keys_apart) (use n1 in \<open>simp add: plain_name_def\<close>)
  have a0: "local_tier (cold r) (cache_key ?F ?h ''/'') = None" by simp
  note run0 = inline_found(1) [OF n0 a0 f0 d(1) sc0 u(1), of "clks ! 0" test_page]
  let ?s1 = "local_put ?F ((clks ! 0) 4) ?h ''/'' ?m0 (asked ?h ''/'' (inflight_lock ?F ?h ''/'' (cold r)))"
  have a1: "local_tier ?s1 (cache_key ?F ?h ''/a-post/'') = None" using k by simp
  note run1 = inline_found(1) [OF n1 a1 f1 d(2) sc1 u(2), of "clks ! 1" test_page]
  let ?s2 = "local_put ?F ((clks ! 1) 4) ?h ''/a-post/'' ?m1 (asked ?h ''/a-post/'' (inflight_lock ?F ?h ''/a-post/'' ?s1))"
  have a2: "local_tier ?s2 (cache_key ?F ?h ''/a-post/'') = Some \<lparr>c_meta = ?m1, fetched = (clks ! 1) 4\<rparr>" by simp
  have a3: "local_tier ?s2 (cache_key ?F ?h ''/'') = Some \<lparr>c_meta = ?m0, fetched = (clks ! 0) 4\<rparr>" using k by simp
  note run2 = inline_cached [OF n1 a2 _ served_fields(2), of "clks ! 2" test_page False test_upstream]
  note run3 = inline_cached [OF n0 a3 _ served_fields(2), of "clks ! 3" test_page False test_upstream]
  have e: "html_escape ''Site Home'' = ''Site Home''" "html_escape ''A Post'' = ''A Post''" by code_simp+
  show ?thesis
    unfolding root_and_subpage_are_cached_separately_def Let_def run0 run1 prod.case
    using run2 run3 assms titled [OF sc0 _ e(1), of ?h] titled [OF sc1 _ e(2), of ?h]
    by (simp add: default_Meta_def)
qed

end
