(* ===== verification/Conformance_Icon.thy ===== *)
theory Conformance_Icon
  imports Conformance_Fetch
begin

text \<open>
  The tests of \<open>nekoguard/src/embed.rs\<close> that fetch a document and the icon it declares from a running
  origin.
\<close>

section \<open>Pages with an icon\<close>

definition fetch_icon_bytes :: string where
  "fetch_icon_bytes = [CHR 0x89] @ ''PNG'' @ [CHR 0x0D, CHR 0x0A, CHR 0x1A, CHR 0x0A] @ ''fake-icon-bytes''"

definition origin_meta :: Meta where
  "origin_meta =
     \<lparr>m_title = Some ''Origin Title'',
      m_tags = [''<meta name='' @ quote ''description'' @ '' content='' @ quote ''An origin description'' @ ''>'',
        ''<meta property='' @ quote ''og:description'' @ '' content='' @ quote ''An og description'' @ ''>''],
      m_icon_url = None, m_icon = None\<rparr>"

lemma html_scraped:
  "token_scrape (before_head_end (html_tokens ''/favicon.ico'')) = origin_meta\<lparr>m_icon_url := Some ''/favicon.ico''\<rparr>"
  "token_scrape (before_head_end (html_tokens ''/icon.svg'')) = origin_meta\<lparr>m_icon_url := Some ''/icon.svg''\<rparr>"
  "token_scrape (before_head_end (html_tokens ''/icon'')) = origin_meta\<lparr>m_icon_url := Some ''/icon''\<rparr>"
  by code_simp+

lemma html_closed:
  "closed_document (html_tokens ''/favicon.ico'')" "closed_document (html_tokens ''/icon.svg'')" "closed_document (html_tokens ''/icon'')"
  by code_simp+

text \<open>The page with this metadata, and what the tests look for in it.\<close>

definition origin_page :: "bool \<Rightarrow> string" where
  "origin_page icon =
     ''<html><head><title>Origin Title</title>'' @ concat (m_tags origin_meta) @
     (if icon then FAVICON_LINK else []) @ ''</head><body>x</body></html>''"

lemma origin_page_shown:
  "inline_meta page_regexes test_page host (Some (origin_meta\<lparr>m_icon_url := None, m_icon := icon\<rparr>)) = origin_page (icon \<noteq> None)"
proof -
  have "html_escape ''Origin Title'' = ''Origin Title''" by code_simp
  then show ?thesis
    using page_filled [of "''Origin Title''" host "Some (origin_meta\<lparr>m_icon_url := None, m_icon := icon\<rparr>)"]
    by (simp add: origin_meta_def origin_page_def)
qed

lemma origin_page_texts:
  "contains ''<title>Origin Title</title>'' (origin_page True)" "contains ''og:description'' (origin_page True)"
  "contains ''An origin description'' (origin_page True)" "contains FAVICON_LINK (origin_page True)"
  "\<not> contains NG_META (origin_page True)" "\<not> contains ''-- bits'' (origin_page True)"
  "\<not> contains ''/__ng/favicon.ico'' (origin_page False)"
  by code_simp+

section \<open>Tests\<close>

definition icon_routes :: "string \<Rightarrow> Route" where
  "icon_routes path =
     (if path = ''/'' then (200, [(''content-type'', ''text/html; charset=utf-8'')], concat (html_tokens ''/favicon.ico''))
      else if path = ''/favicon.ico'' then (200, [(''content-type'', ''image/x-icon'')], fetch_icon_bytes)
      else (404, [], []))"

text \<open>The second rendering and the icon are asked for within the life of the entry.\<close>

definition inlines_origin_metadata_and_caches_it ::
  "((string \<times> string) list, 'r) embed_env \<Rightarrow> (nat \<Rightarrow> nat) \<Rightarrow> (nat \<Rightarrow> nat) \<Rightarrow> (nat \<Rightarrow> nat) \<Rightarrow> 'r \<Rightarrow> bool" where
  "inlines_origin_metadata_and_caches_it E clk clk1 clk2 r \<longleftrightarrow>
     (let F = served E icon_routes; host = ''inline.example'' in
      case inline_into F clk test_page False host test_upstream ''/'' (cold r) of (out, st) \<Rightarrow>
        contains ''<title>Origin Title</title>'' out \<and> contains ''og:description'' out \<and>
        contains ''An origin description'' out \<and> contains FAVICON_LINK out \<and> \<not> contains NG_META out \<and>
        \<not> contains ''-- bits'' out \<and>
        length (test_hits st) = 2 \<and> list_all (\<lambda>(p, h). h = host) (test_hits st) \<and>
        (case favicon F clk1 host test_upstream ''/'' False st of (icon, st1) \<Rightarrow>
           icon = Some (fetch_icon_bytes, ''image/x-icon'') \<and>
           (case inline_into F clk2 test_page False host test_upstream ''/'' st1 of (out2, st2) \<Rightarrow>
              length (test_hits st2) = 2)))"

lemma icon_types:
  "icon_mime (unwrap_or '''' (content_type [(''content-type'', ''image/x-icon'')])) = Some ''image/x-icon''"
  "icon_mime (unwrap_or '''' (content_type [(''content-type'', ''image/svg+xml'')])) = None"
  "icon_mime (unwrap_or '''' (content_type html_type_header)) = None"
  "icon_mime (unwrap_or '''' (content_type [])) = None"
proof -
  have c: "content_type [(''content-type'', v)] = Some v" for v
    by (simp add: content_type_def alist_http_def)
  have n: "content_type [] = None" by (simp add: content_type_def alist_http_def)
  show "icon_mime (unwrap_or '''' (content_type [(''content-type'', ''image/x-icon'')])) = Some ''image/x-icon''"
    "icon_mime (unwrap_or '''' (content_type [(''content-type'', ''image/svg+xml'')])) = None"
    "icon_mime (unwrap_or '''' (content_type html_type_header)) = None"
    "icon_mime (unwrap_or '''' (content_type [])) = None"
    unfolding html_type_header_def c n unwrap_or_def option.case by code_simp+
qed

text \<open>The icon of a page that names one on its own origin.\<close>

lemma icon_fetched:
  assumes "printable host" and "prefix ''/'' url" and "strip_prefix ''data:'' url = None"
    and "same_origin_path url host = Some url" and "respond url = (200, hs, b)" and "length b \<le> MAX_ICON"
  shows "fetch_icon (served E respond) host test_upstream url st =
    (map_option (\<lambda>mime. (b, mime)) (icon_mime (unwrap_or '''' (content_type hs))), asked host url st)"
  using icon_turn [OF assms(3,4,1,2), of E respond st] assms(5,6) by (auto split: option.splits)

lemma test_urls:
  "strip_prefix ''data:'' ''/favicon.ico'' = None" "strip_prefix ''data:'' ''/icon.svg'' = None"
  "strip_prefix ''data:'' ''/icon'' = None"
  by code_simp+

lemma icon_size: "length fetch_icon_bytes \<le> MAX_ICON" "length ''<html><body>not an icon</body></html>'' \<le> MAX_ICON"
  by code_simp+

lemma inlines_passes:
  assumes "clk1 0 - clk 4 < secs CACHE_TTL" and "clk2 0 - clk 4 < secs CACHE_TTL"
  shows "inlines_origin_metadata_and_caches_it E clk clk1 clk2 r"
proof -
  let ?h = "''inline.example''" and ?F = "served E icon_routes"
  let ?icon = "Some (fetch_icon_bytes, ''image/x-icon'')"
  let ?m = "origin_meta\<lparr>m_icon_url := None, m_icon := ?icon\<rparr>"
  have n: "plain_name ?h ''/''" by code_simp
  have f: "fetch_loop (Suc (Suc (Suc 0))) ?F ?h test_upstream ''/'' st =
      (read_head [Some (concat (html_tokens ''/favicon.ico''))], asked ?h ''/'' st)" for st
    using n by (simp add: plain_name_def fetch_turn html_types icon_routes_def)
  have same: "same_origin_path ''/favicon.ico'' ?h = Some ''/favicon.ico''" by code_simp
  have p: "printable ?h" using n by (simp add: plain_name_def)
  have route: "icon_routes ''/favicon.ico'' = (200, [(''content-type'', ''image/x-icon'')], fetch_icon_bytes)"
    by (simp add: icon_routes_def)
  have i: "fetch_icon ?F ?h test_upstream ''/favicon.ico'' st = (?icon, asked ?h ''/favicon.ico'' st)" for st
    using icon_fetched [where respond = icon_routes, OF p _ test_urls(1) same route icon_size(1), of E st]
    by (simp add: icon_types)
  have miss: "local_tier (cold r) (cache_key ?F ?h ''/'') = None" by simp
  note run = inline_found(2) [OF n miss f html_closed(1) html_scraped(1) _ i, of ?m clk test_page]
  let ?s = "asked ?h ''/favicon.ico'' (asked ?h ''/'' (inflight_lock ?F ?h ''/'' (cold r)))"
  have shown: "inline_into ?F clk test_page False ?h test_upstream ''/'' (cold r) =
      (origin_page True, local_put ?F (clk 4) ?h ''/'' ?m ?s)"
    using run origin_page_shown [of ?h ?icon] by simp
  have hit: "local_tier (local_put ?F (clk 4) ?h ''/'' ?m ?s) (cache_key ?F ?h ''/'') = Some \<lparr>c_meta = ?m, fetched = clk 4\<rparr>"
    by simp
  note fav = favicon_cached [OF n hit, of clk1 test_upstream False]
  note again = inline_cached [OF n hit _ served_fields(2), of clk2 test_page False test_upstream]
  have "list_all (\<lambda>(p, h). h = ?h) (test_hits (local_put ?F (clk 4) ?h ''/'' ?m ?s))"
    "length (test_hits (local_put ?F (clk 4) ?h ''/'' ?m ?s)) = 2"
    by (simp_all add: test_hits_def get_of_def alist_str unwrap_or_def) (simp_all add: alist_http_def)
  then show ?thesis
    using assms fav again origin_page_texts
    by (simp add: inlines_origin_metadata_and_caches_it_def Let_def shown)
qed

definition language_routes :: "string \<Rightarrow> Route" where
  "language_routes path =
     (if path = ''/'' then (302, [(''location'', ''/en/'')], [])
      else if path = ''/en/'' then (200, html_type_header, concat (html_tokens ''/favicon.ico''))
      else (404, [], []))"

definition follows_same_origin_redirect :: "((string \<times> string) list, 'r) embed_env \<Rightarrow> (nat \<Rightarrow> nat) \<Rightarrow> 'r \<Rightarrow> bool" where
  "follows_same_origin_redirect E clk r \<longleftrightarrow>
     (case inline_into (served E language_routes) clk test_page False ''redirect.example'' test_upstream ''/'' (cold r) of
        (out, st) \<Rightarrow> contains ''<title>Origin Title</title>'' out \<and> test_paths st = [''/'', ''/en/'', ''/favicon.ico''])"

lemma follows_passes: "follows_same_origin_redirect E clk r"
proof -
  let ?h = "''redirect.example''" and ?F = "served E language_routes"
  let ?m = "origin_meta\<lparr>m_icon_url := None, m_icon := None\<rparr>"
  have n: "plain_name ?h ''/''" by code_simp
  have redirect: "same_origin_path ''/en/'' ?h = Some ''/en/''" by code_simp
  have f: "fetch_loop (Suc (Suc (Suc 0))) ?F ?h test_upstream ''/'' st =
      (read_head [Some (concat (html_tokens ''/favicon.ico''))], asked ?h ''/en/'' (asked ?h ''/'' st))" for st
    using n by (simp add: plain_name_def fetch_turn html_types locations redirect language_routes_def)
  have same: "same_origin_path ''/favicon.ico'' ?h = Some ''/favicon.ico''" by code_simp
  have p: "printable ?h" using n by (simp add: plain_name_def)
  have i: "fetch_icon ?F ?h test_upstream ''/favicon.ico'' st = (None, asked ?h ''/favicon.ico'' st)" for st
    by (subst icon_turn [OF test_urls(1) same p]) (simp_all add: language_routes_def)
  have miss: "local_tier (cold r) (cache_key ?F ?h ''/'') = None" by simp
  note run = inline_found(2) [OF n miss f html_closed(1) html_scraped(1) _ i, of ?m clk test_page]
  let ?s = "asked ?h ''/favicon.ico'' (asked ?h ''/en/'' (asked ?h ''/'' (inflight_lock ?F ?h ''/'' (cold r))))"
  have m: "m_icon origin_meta = None" by (simp add: origin_meta_def)
  then have shown: "inline_into ?F clk test_page False ?h test_upstream ''/'' (cold r) =
      (origin_page False, local_put ?F (clk 4) ?h ''/'' ?m ?s)"
    using run origin_page_shown [of ?h None] by simp
  have "contains ''<title>Origin Title</title>'' (origin_page False)" by code_simp
  then show ?thesis by (simp add: follows_same_origin_redirect_def shown test_paths_def)
qed

text \<open>An icon of a type that is not served: neither shown nor handed out.\<close>

definition icon_refused :: "string \<Rightarrow> Route \<Rightarrow> string \<Rightarrow> ((string \<times> string) list, 'r) embed_env \<Rightarrow> (nat \<Rightarrow> nat) \<Rightarrow> (nat \<Rightarrow> nat) \<Rightarrow> 'r \<Rightarrow> bool" where
  "icon_refused url route host E clk clk1 r \<longleftrightarrow>
     (let F = served E (\<lambda>path. if path = ''/'' then (200, html_type_header, concat (html_tokens url))
            else if path = url then route else (404, [], []))
      in case inline_into F clk test_page False host test_upstream ''/'' (cold r) of (out, st) \<Rightarrow>
           \<not> contains ''/__ng/favicon.ico'' out \<and>
           fst (favicon F clk1 host test_upstream ''/'' False st) = None)"

definition drops_svg_favicon :: "((string \<times> string) list, 'r) embed_env \<Rightarrow> (nat \<Rightarrow> nat) \<Rightarrow> (nat \<Rightarrow> nat) \<Rightarrow> 'r \<Rightarrow> bool" where
  \<open>drops_svg_favicon E clk clk1 r \<longleftrightarrow>
     icon_refused ''/icon.svg'' (200, [(''content-type'', ''image/svg+xml'')], ''<svg onload="alert(1)"/>'') ''svgicon.example'' E clk clk1 r\<close>

definition html_served_as_favicon_is_refused ::
  "((string \<times> string) list, 'r) embed_env \<Rightarrow> (nat \<Rightarrow> nat) \<Rightarrow> (nat \<Rightarrow> nat) \<Rightarrow> 'r \<Rightarrow> bool" where
  "html_served_as_favicon_is_refused E clk clk1 r \<longleftrightarrow>
     icon_refused ''/icon'' (200, html_type_header, ''<html><body>not an icon</body></html>'') ''htmlicon.example'' E clk clk1 r"

lemma icon_refused_passes:
  assumes n: "plain_name host ''/''" and "url \<noteq> ''/''" and "prefix ''/'' url" and "strip_prefix ''data:'' url = None"
    and "same_origin_path url host = Some url" and "closed_document (html_tokens url)"
    and "token_scrape (before_head_end (html_tokens url)) = origin_meta\<lparr>m_icon_url := Some url\<rparr>"
    and "icon_mime (unwrap_or '''' (content_type hs)) = None" and "clk1 0 - clk 4 < secs CACHE_TTL"
  shows "icon_refused url (200, hs, b) host E clk clk1 r"
proof -
  let ?f = "\<lambda>path. if path = ''/'' then (200, html_type_header, concat (html_tokens url))
      else if path = url then (200, hs, b) else (404, [], [])"
  let ?F = "served E ?f" and ?m = "origin_meta\<lparr>m_icon_url := None, m_icon := None\<rparr>"
  have f: "fetch_loop (Suc (Suc (Suc 0))) ?F host test_upstream ''/'' st =
      (read_head [Some (concat (html_tokens url))], asked host ''/'' st)" for st
    using n by (simp add: plain_name_def fetch_turn html_types)
  have p: "printable host" using n by (simp add: plain_name_def)
  have i: "fetch_icon ?F host test_upstream url st = (None, asked host url st)" for st
    using assms(2,8) by (subst icon_turn [OF assms(4,5) p assms(3)]) simp
  have miss: "local_tier (cold r) (cache_key ?F host ''/'') = None" by simp
  note run = inline_found(2) [OF n miss f assms(6,7) _ i, of ?m clk test_page]
  let ?s = "asked host url (asked host ''/'' (inflight_lock ?F host ''/'' (cold r)))"
  have m: "m_icon origin_meta = None" by (simp add: origin_meta_def)
  then have shown: "inline_into ?F clk test_page False host test_upstream ''/'' (cold r) =
      (origin_page False, local_put ?F (clk 4) host ''/'' ?m ?s)"
    using run origin_page_shown [of host None] by simp
  have hit: "local_tier (local_put ?F (clk 4) host ''/'' ?m ?s) (cache_key ?F host ''/'') = Some \<lparr>c_meta = ?m, fetched = clk 4\<rparr>"
    by simp
  from favicon_cached [OF n hit, of clk1 test_upstream False] assms(9)
  show ?thesis using origin_page_texts(7) by (simp add: icon_refused_def Let_def shown)
qed

lemma svg_passes:
  assumes "clk1 0 - clk 4 < secs CACHE_TTL"
  shows "drops_svg_favicon E clk clk1 r"
proof -
  have "plain_name ''svgicon.example'' ''/''" "same_origin_path ''/icon.svg'' ''svgicon.example'' = Some ''/icon.svg''"
    by code_simp+
  then show ?thesis unfolding drops_svg_favicon_def
    by (intro icon_refused_passes test_urls html_closed html_scraped icon_types assms) simp_all
qed

lemma html_icon_passes:
  assumes "clk1 0 - clk 4 < secs CACHE_TTL"
  shows "html_served_as_favicon_is_refused E clk clk1 r"
proof -
  have "plain_name ''htmlicon.example'' ''/''" "same_origin_path ''/icon'' ''htmlicon.example'' = Some ''/icon''"
    by code_simp+
  then show ?thesis unfolding html_served_as_favicon_is_refused_def
    by (intro icon_refused_passes test_urls html_closed html_scraped icon_types assms) simp_all
qed

end
