(* ===== verification/Conformance_Redis.thy ===== *)
theory Conformance_Redis
  imports Conformance_Fetch
begin

text \<open>
  The tests of \<open>nekoguard/src/embed.rs\<close> that read through a fake Redis (\<open>redis_tests\<close>). The fake keeps a map
  and the log of the commands it got; the bytes of its protocol are not modelled. The JSON codec is a
  parameter that reads back what it wrote.
\<close>

section \<open>The fake Redis\<close>

record Store =
  s_data :: "string \<rightharpoonup> string"
  s_log :: "string list list"

definition ascii_upper :: "char \<Rightarrow> char" where
  "ascii_upper c = (if 97 \<le> code c \<and> code c \<le> 122 then char_of (code c - 32) else c)"

text \<open>The value a \<open>GET\<close> is answered with, and the store after a command.\<close>

definition fake_redis :: "string list \<Rightarrow> Store \<Rightarrow> string option \<times> Store" where
  "fake_redis cmd s =
     (let s1 = s\<lparr>s_log := s_log s @ [cmd]\<rparr>; verb = map ascii_upper (hd cmd) in
      if verb = ''GET'' then (s_data s (cmd ! 1), s1)
      else if verb = ''SET'' then (None, s1\<lparr>s_data := (s_data s1)(cmd ! 1 \<mapsto> cmd ! 2)\<rparr>)
      else (None, s1))"

definition keys_set :: "Store \<Rightarrow> string list" where
  "keys_set s = map (\<lambda>c. c ! 1) (filter (\<lambda>c. eq_ignore_ascii_case (hd c) ''set'') (s_log s))"

definition seed :: "string \<Rightarrow> string \<Rightarrow> Store \<Rightarrow> Store" where
  "seed key value s = s\<lparr>s_data := (s_data s)(key \<mapsto> value)\<rparr>"

definition empty_store :: Store where
  "empty_store = \<lparr>s_data = Map.empty, s_log = []\<rparr>"

definition with_redis :: "('h, Store) embed_env \<Rightarrow> ('h, Store) embed_env" where
  "with_redis E = E
     \<lparr>e_get := (\<lambda>k s. case fake_redis [''GET'', k] s of (v, s') \<Rightarrow> (Some v, s')),
      e_set_ex := (\<lambda>k v t s. (True, snd (fake_redis [''SET'', k, v, ''EX'', dec t] s)))\<rparr>"

definition json_back :: "('h, 'r) embed_env \<Rightarrow> bool" where
  "json_back E \<longleftrightarrow> (\<forall>c. \<exists>t. e_to_json E c = Some t \<and> e_from_json E t = Some c)"

text \<open>The origin, with one document on every path but that of its icon.\<close>

definition first_tokens :: "string \<Rightarrow> string \<Rightarrow> string list" where
  \<open>first_tokens title description =
     [''<head>'', ''<title>'', title, ''</title>'', test_blank 8,
      ''<meta name="description" content="'' @ description @ ''">'', test_blank 8,
      ''<link rel="icon" href="/favicon.ico">'', ''</head>'']\<close>

definition HTML_ONE :: string where
  "HTML_ONE = concat (first_tokens ''First Title'' ''first description'')"

definition HTML_TWO :: string where
  "HTML_TWO = concat (first_tokens ''Second Title'' ''second description'')"

definition redis_origin :: "string \<Rightarrow> string \<Rightarrow> Route" where
  "redis_origin document path =
     (if path = ''/favicon.ico'' then (200, [(''content-type'', ''image/png'')], ''icon'')
      else (200, [(''content-type'', ''text/html; charset=utf-8'')], document))"

section \<open>Reading through\<close>

lemma with_redis_fields [simp]:
  "e_to_json (served (with_redis E) f) = e_to_json E" "e_from_json (served (with_redis E) f) = e_from_json E"
  by (simp_all add: with_redis_def served_def)

lemma fake_get: "fake_redis [''GET'', k] s = (s_data s k, s\<lparr>s_log := s_log s @ [[''GET'', k]]\<rparr>)"
proof -
  have "map ascii_upper ''GET'' = ''GET''" by code_simp
  then show ?thesis by (simp add: fake_redis_def Let_def)
qed

lemma fake_set:
  "fake_redis [''SET'', k, v, x, y] s = (None, s\<lparr>s_log := s_log s @ [[''SET'', k, v, x, y]], s_data := (s_data s)(k \<mapsto> v)\<rparr>)"
proof -
  have "map ascii_upper ''SET'' = ''SET''" by code_simp
  then show ?thesis by (simp add: fake_redis_def Let_def)
qed

lemma redis_get_fake:
  "redis_get (served (with_redis E) f) host path st =
    (case s_data (e_redis st) (cache_key (served (with_redis E) f) host path) of
       Some raw \<Rightarrow> map_option into_meta (e_from_json E raw) | None \<Rightarrow> None,
     st\<lparr>e_redis := (e_redis st)\<lparr>s_log := s_log (e_redis st) @ [[''GET'', cache_key (served (with_redis E) f) host path]]\<rparr>\<rparr>)"
proof -
  have "e_get (served (with_redis E) f) k s = (Some (s_data s k), s\<lparr>s_log := s_log s @ [[''GET'', k]]\<rparr>)" for k s
    by (simp add: served_def with_redis_def fake_get)
  then show ?thesis by (simp add: redis_get_def split: option.splits)
qed

lemma redis_set_fake:
  assumes "e_to_json E (cached_of_meta m) = Some t"
  shows "redis_set (served (with_redis E) f) host path m st =
    st\<lparr>e_redis := (e_redis st)\<lparr>s_log := s_log (e_redis st) @ [[''SET'', cache_key (served (with_redis E) f) host path, t, ''EX'', dec CACHE_TTL]],
       s_data := (s_data (e_redis st))(cache_key (served (with_redis E) f) host path \<mapsto> t)\<rparr>\<rparr>"
proof -
  have "e_set_ex (served (with_redis E) f) k v n s =
      (True, s\<lparr>s_log := s_log s @ [[''SET'', k, v, ''EX'', dec n]], s_data := (s_data s)(k \<mapsto> v)\<rparr>)" for k v n s
    by (simp add: served_def with_redis_def fake_set)
  then show ?thesis using assms by (simp add: redis_set_def)
qed

text \<open>A cold replica with an entry in Redis, and one without.\<close>

lemma load_seeded:
  assumes "normalize_path path = path" and "local_tier st (cache_key (served (with_redis E) f) host path) = None"
    and "s_data (e_redis st) (cache_key (served (with_redis E) f) host path) = Some raw" and "e_from_json E raw = Some c"
  shows "load (served (with_redis E) f) clk host path True ups b st =
    (Some (into_meta c), local_put (served (with_redis E) f) (clk 1) host path (into_meta c)
      (st\<lparr>e_redis := (e_redis st)\<lparr>s_log := s_log (e_redis st) @ [[''GET'', cache_key (served (with_redis E) f) host path]]\<rparr>\<rparr>))"
  using assms by (simp add: load_def lookup_def local_get_def redis_get_fake)

lemma load_missed:
  assumes "normalize_path path = path" and "local_tier st (cache_key (served (with_redis E) f) host path) = None"
    and "Option.bind (s_data (e_redis st) (cache_key (served (with_redis E) f) host path)) (e_from_json E) = None"
  shows "load (served (with_redis E) f) clk host path True ups False st =
    (None, st\<lparr>e_redis := (e_redis st)\<lparr>s_log := s_log (e_redis st) @ [[''GET'', cache_key (served (with_redis E) f) host path]]\<rparr>\<rparr>)"
  using assms by (auto simp: load_def lookup_def local_get_def redis_get_fake bind_eq_None_conv split: option.splits)

lemma load_refetched:
  assumes "normalize_path path = path" and "local_tier st (cache_key (served (with_redis E) f) host path) = None"
    and "Option.bind (s_data (e_redis st) (cache_key (served (with_redis E) f) host path)) (e_from_json E) = None"
    and "\<And>st'. fetch (served (with_redis E) f) host ups path st' = (Some m, st'\<lparr>sent := sent st' @ new\<rparr>)"
    and "e_to_json E (cached_of_meta m) = Some t"
  shows "\<exists>st'. load (served (with_redis E) f) clk host path True ups True st = (Some m, st') \<and>
    s_log (e_redis st') = s_log (e_redis st) @
      [[''GET'', cache_key (served (with_redis E) f) host path], [''GET'', cache_key (served (with_redis E) f) host path],
       [''SET'', cache_key (served (with_redis E) f) host path, t, ''EX'', dec CACHE_TTL]] \<and>
    s_data (e_redis st') = (s_data (e_redis st))(cache_key (served (with_redis E) f) host path \<mapsto> t)"
proof -
  let ?F = "served (with_redis E) f" and ?k = "cache_key (served (with_redis E) f) host path"
  let ?get = "\<lambda>st. st\<lparr>e_redis := (e_redis st)\<lparr>s_log := s_log (e_redis st) @ [[''GET'', ?k]]\<rparr>\<rparr>"
  let ?got = "(?get (inflight_lock ?F host path (?get st)))\<lparr>sent := sent (?get (inflight_lock ?F host path (?get st))) @ new\<rparr>"
  have miss: "lookup ?F t1 t2 host path True s = (None, ?get s)"
    if "local_tier s ?k = None" "s_data (e_redis s) ?k = s_data (e_redis st) ?k" for t1 t2 s
    using that assms(3)
    by (auto simp: lookup_def local_get_def redis_get_fake bind_eq_None_conv split: option.splits)
  have 1: "lookup ?F (clk 0) (clk 1) host path True st = (None, ?get st)" by (rule miss) (simp_all add: assms(2))
  have 2: "lookup ?F (clk 2) (clk 3) host path True (inflight_lock ?F host path (?get st)) =
      (None, ?get (inflight_lock ?F host path (?get st)))"
    by (rule miss) (simp_all add: assms(2) inflight_lock_def)
  have 3: "fetch ?F host ups path (?get (inflight_lock ?F host path (?get st))) =
      (Some m, ?got)"
    by (rule assms(4))
  have "load ?F clk host path True ups True st = (Some m, redis_set ?F host path m
      (local_put ?F (clk 4) host path m ?got))"
    by (simp only: load_def assms(1) 1 2 3 Let_def prod.case option.case simp_thms if_True if_False)
  then show ?thesis
    by (intro exI conjI) (assumption, simp_all add: redis_set_fake [OF assms(5)] local_put_def inflight_lock_def)
qed

section \<open>Fetching the document of the tests\<close>

lemma fetch_found_icon:
  assumes "normalize_path path = path" and "closed_document ts" and "token_scrape (before_head_end ts) = meta"
    and "fetch_loop (Suc (Suc (Suc 0))) (served E f) host ups path st = (read_head [Some (concat ts)], st1)"
    and "m_icon_url meta = Some url" and "fetch_icon (served E f) host ups url st1 = (Some icon, st2)"
  shows "fetch (served E f) host ups path st = (Some (meta\<lparr>m_icon_url := None, m_icon := Some icon\<rparr>), st2)"
proof -
  have d: "list_all head_token ts" "list_all head_token (before_head_end ts)"
    using assms(2) by (auto simp: closed_document_def before_head_end_def list_all_iff dest: set_takeWhileD)
  have html: "fetch_html (served E f) host ups path st = (Some (concat (before_head_end ts)), st1)"
    using assms(1,2,4) read_head_tokens [of ts] d(1) by (simp add: fetch_html_path closed_document_def)
  have sc: "scrape (e_regex (served E f)) (concat (before_head_end ts)) = meta"
    using scrape_by_tokens [OF d(2)] assms(3) by simp
  show ?thesis using fetch_scraped [OF html sc] assms(5,6) by simp
qed

definition first_meta :: "string \<Rightarrow> string \<Rightarrow> Meta" where
  "first_meta title description =
     default_Meta\<lparr>m_title := Some title,
       m_tags := [''<meta name='' @ quote ''description'' @ '' content='' @ quote description @ ''>''],
       m_icon := Some (''icon'', ''image/png'')\<rparr>"

lemma first_scraped:
  "token_scrape (before_head_end (first_tokens ''First Title'' ''first description'')) =
     first_meta ''First Title'' ''first description''\<lparr>m_icon_url := Some ''/favicon.ico'', m_icon := None\<rparr>"
  by code_simp

lemma first_closed: "closed_document (first_tokens ''First Title'' ''first description'')"
  by code_simp

lemma first_fetched:
  assumes n: "plain_name host ''/''" and same: "same_origin_path ''/favicon.ico'' host = Some ''/favicon.ico''"
  shows "fetch (served E (redis_origin HTML_ONE)) host test_upstream ''/'' st =
    (Some (first_meta ''First Title'' ''first description''),
     st\<lparr>sent := sent st @ [get_of host ''/'', get_of host ''/favicon.ico'']\<rparr>)"
proof -
  let ?F = "served E (redis_origin HTML_ONE)"
  have f: "fetch_loop (Suc (Suc (Suc 0))) ?F host test_upstream ''/'' st =
      (read_head [Some (concat (first_tokens ''First Title'' ''first description''))], asked host ''/'' st)"
    using n by (simp add: plain_name_def fetch_turn html_types redis_origin_def HTML_ONE_def)
  have p: "printable host" using n by (simp add: plain_name_def)
  have u: "strip_prefix ''data:'' ''/favicon.ico'' = None" by code_simp
  have "icon_mime ''image/png'' = Some ''image/png''" by code_simp
  then have t: "icon_mime (unwrap_or '''' (content_type [(''content-type'', ''image/png'')])) = Some ''image/png''"
    by (simp add: content_type_def alist_http_def unwrap_or_def)
  have i: "fetch_icon ?F host test_upstream ''/favicon.ico'' (asked host ''/'' st) =
      (Some (''icon'', ''image/png''), asked host ''/favicon.ico'' (asked host ''/'' st))"
    using icon_turn [OF u same p, of E "redis_origin HTML_ONE"] t by (simp add: redis_origin_def MAX_ICON_def)
  have np: "normalize_path ''/'' = ''/''" using n by (simp add: plain_name_def)
  have url: "m_icon_url (first_meta ''First Title'' ''first description''\<lparr>m_icon_url := Some ''/favicon.ico'', m_icon := None\<rparr>) =
      Some ''/favicon.ico''"
    by simp
  show ?thesis
    using fetch_found_icon [OF np first_closed first_scraped f url i] by (simp add: first_meta_def default_Meta_def)
qed

section \<open>Tests\<close>

definition writes_a_five_minute_entry_under_a_host_scoped_key ::
  "((string \<times> string) list, Store) embed_env \<Rightarrow> (nat \<Rightarrow> nat) \<Rightarrow> bool" where
  "writes_a_five_minute_entry_under_a_host_scoped_key E clk \<longleftrightarrow>
     (case inline_into (served (with_redis E) (redis_origin HTML_ONE)) clk test_page True ''writes.example'' test_upstream
        ''/'' (cold empty_store) of
        (out, st) \<Rightarrow>
          (case find (\<lambda>c. eq_ignore_ascii_case (hd c) ''SET'') (s_log (e_redis st)) of
             None \<Rightarrow> False
           | Some cmd \<Rightarrow>
               cmd ! 1 = ''nekoguard:embed:writes.example'' \<and> map ascii_upper (cmd ! 3) = ''EX'' \<and> cmd ! 4 = ''300'' \<and>
               (case Option.bind (s_data (e_redis st) (cmd ! 1)) (e_from_json E) of
                  None \<Rightarrow> False
                | Some parsed \<Rightarrow>
                    c_title parsed = Some ''First Title'' \<and> list_ex (contains ''first description'') (c_tags parsed) \<and>
                    c_icon parsed = Some ''icon'' \<and> c_icon_mime parsed = Some ''image/png'')))"

lemma cold_redis [simp]: "e_redis (cold r) = r"
  by (simp add: cold_def)

lemma root_key: "cache_key F host ''/'' = ''nekoguard:embed:'' @ host"
proof -
  have "normalize_path ''/'' = ''/''" by code_simp
  then show ?thesis by (simp add: cache_key_def)
qed

lemma writes_passes:
  assumes "json_back E"
  shows "writes_a_five_minute_entry_under_a_host_scoped_key E clk"
proof -
  let ?h = "''writes.example''" and ?F = "served (with_redis E) (redis_origin HTML_ONE)"
  let ?m = "first_meta ''First Title'' ''first description''"
  have n: "plain_name ?h ''/''" by code_simp
  have same: "same_origin_path ''/favicon.ico'' ?h = Some ''/favicon.ico''" by code_simp
  obtain t where t: "e_to_json E (cached_of_meta ?m) = Some t" "e_from_json E t = Some (cached_of_meta ?m)"
    using assms unfolding json_back_def by blast
  have np: "normalize_path ''/'' = ''/''" "normalize_host ?h = ?h" using n by (simp_all add: plain_name_def)
  have "local_tier (cold empty_store) (cache_key ?F ?h ''/'') = None"
    "Option.bind (s_data (e_redis (cold empty_store)) (cache_key ?F ?h ''/'')) (e_from_json E) = None"
    by (simp_all add: empty_store_def)
  from load_refetched [OF np(1) this first_fetched [OF n same] t(1), of clk] obtain st where st:
    "load ?F clk ?h ''/'' True test_upstream True (cold empty_store) = (Some ?m, st)"
    "s_log (e_redis st) = [[''GET'', ''nekoguard:embed:'' @ ?h], [''GET'', ''nekoguard:embed:'' @ ?h],
       [''SET'', ''nekoguard:embed:'' @ ?h, t, ''EX'', dec CACHE_TTL]]"
    "s_data (e_redis st) = [''nekoguard:embed:'' @ ?h \<mapsto> t]"
    by (auto simp: root_key empty_store_def)
  have words: "\<not> eq_ignore_ascii_case ''GET'' ''SET''" "eq_ignore_ascii_case ''SET'' ''SET''"
    "ascii_upper CHR ''E'' = CHR ''E''" "ascii_upper CHR ''X'' = CHR ''X''" "dec CACHE_TTL = ''300''"
    by code_simp+
  have c: "contains ''first description'' (''<meta name='' @ quote ''description'' @ '' content='' @ quote ''first description'' @ ''>'')"
    by code_simp
  have "c_title (cached_of_meta ?m) = Some ''First Title''" "c_icon (cached_of_meta ?m) = Some ''icon''"
    "c_icon_mime (cached_of_meta ?m) = Some ''image/png''"
    "c_tags (cached_of_meta ?m) = [''<meta name='' @ quote ''description'' @ '' content='' @ quote ''first description'' @ ''>'']"
    by (simp_all add: cached_of_meta_def first_meta_def)
  with c show ?thesis
    by (simp add: writes_a_five_minute_entry_under_a_host_scoped_key_def inline_into_def np st words t(2))
qed

text \<open>An entry that another replica has written, read by one that has nothing.\<close>

definition from_redis ::
  "((string \<times> string) list, Store) embed_env \<Rightarrow> string \<Rightarrow> CachedMeta \<Rightarrow> ((string \<times> string) list, Store) embed_state option" where
  "from_redis E host c =
     map_option (\<lambda>raw. cold (seed (cache_key E host ''/'') raw empty_store)) (e_to_json E c)"

definition a_cold_replica_renders_from_redis_without_fetching ::
  "((string \<times> string) list, Store) embed_env \<Rightarrow> (nat \<Rightarrow> nat) \<Rightarrow> bool" where
  "a_cold_replica_renders_from_redis_without_fetching E clk \<longleftrightarrow>
     (let host = ''coldreplica.example''; F = served (with_redis E) (redis_origin HTML_TWO) in
      case from_redis F host
          \<lparr>c_title = Some ''Seeded Title'',
           c_tags = [''<meta name='' @ quote ''description'' @ '' content='' @ quote ''seeded description'' @ ''>''],
           c_icon = Some ''icon'', c_icon_mime = Some ''image/png''\<rparr> of
        None \<Rightarrow> False
      | Some st \<Rightarrow>
          (case inline_into F clk test_page True host test_upstream ''/'' st of
             (out, st') \<Rightarrow>
               contains ''<title>Seeded Title</title>'' out \<and> contains ''seeded description'' out \<and>
               contains FAVICON_LINK out \<and> \<not> contains ''Second Title'' out \<and> keys_set (e_redis st') = []))"

lemma seeded_load:
  assumes "json_back E" and "from_redis (served (with_redis E) f) host c = Some st" and "normalize_path ''/'' = ''/''"
  shows "load (served (with_redis E) f) clk host ''/'' True ups b st =
    (Some (into_meta c), local_put (served (with_redis E) f) (clk 1) host ''/'' (into_meta c)
      (st\<lparr>e_redis := (e_redis st)\<lparr>s_log := [[''GET'', ''nekoguard:embed:'' @ host]]\<rparr>\<rparr>))"
proof -
  let ?F = "served (with_redis E) f"
  obtain t where t: "e_to_json E c = Some t" "e_from_json E t = Some c" using assms(1) unfolding json_back_def by blast
  have st: "st = cold (seed (cache_key ?F host ''/'') t empty_store)" using assms(2) t(1) by (simp add: from_redis_def)
  have "local_tier st (cache_key ?F host ''/'') = None" "s_data (e_redis st) (cache_key ?F host ''/'') = Some t"
    by (simp_all add: st seed_def)
  from load_seeded [OF assms(3) this t(2), of clk ups b] show ?thesis
    by (simp add: st seed_def empty_store_def root_key)
qed

lemma seeded_exists: "json_back E \<Longrightarrow> \<exists>st. from_redis (served (with_redis E) f) host c = Some st"
  unfolding json_back_def from_redis_def by (metis option.simps(9) with_redis_fields(1))

lemma png: "icon_mime ''image/png'' = Some ''image/png''" "icon_mime ''image/svg+xml'' = None"
  by code_simp+

lemma cold_replica_passes:
  assumes "json_back E"
  shows "a_cold_replica_renders_from_redis_without_fetching E clk"
proof -
  let ?h = "''coldreplica.example''" and ?F = "served (with_redis E) (redis_origin HTML_TWO)"
  let ?tag = "''<meta name='' @ quote ''description'' @ '' content='' @ quote ''seeded description'' @ ''>''"
  let ?c = "\<lparr>c_title = Some ''Seeded Title'', c_tags = [?tag], c_icon = Some ''icon'', c_icon_mime = Some ''image/png''\<rparr>"
  let ?out = "''<html><head><title>Seeded Title</title>'' @ ?tag @ FAVICON_LINK @ ''</head><body>x</body></html>''"
  have np: "normalize_path ''/'' = ''/''" "normalize_host ?h = ?h" by code_simp+
  obtain st where st: "from_redis ?F ?h ?c = Some st" using seeded_exists [OF assms] by blast
  note l = seeded_load [OF assms st np(1), of clk test_upstream True]
  have "html_escape ''Seeded Title'' = ''Seeded Title''" by code_simp
  then have out: "inline_meta page_regexes test_page ?h (Some (into_meta ?c)) = ?out"
    using page_filled [of "''Seeded Title''" ?h "Some (into_meta ?c)"] by (simp add: into_meta_def png)
  have "contains ''<title>Seeded Title</title>'' ?out" "contains ''seeded description'' ?out"
    "contains FAVICON_LINK ?out" "\<not> contains ''Second Title'' ?out"
    by code_simp+
  moreover have "\<not> eq_ignore_ascii_case ''GET'' ''set''" by code_simp
  ultimately show ?thesis
    by (simp add: a_cold_replica_renders_from_redis_without_fetching_def Let_def st inline_into_def np l out
        local_put_def keys_set_def del: append.simps append_Cons append_Nil)
qed

definition cold_replica_serves_the_cached_icon :: "((string \<times> string) list, Store) embed_env \<Rightarrow> (nat \<Rightarrow> nat) \<Rightarrow> bool" where
  "cold_replica_serves_the_cached_icon E clk \<longleftrightarrow>
     (let host = ''coldicon.example''; F = served (with_redis E) (redis_origin HTML_ONE) in
      case from_redis F host \<lparr>c_title = Some ''T'', c_tags = [], c_icon = Some ''cached-icon'', c_icon_mime = Some ''image/png''\<rparr> of
        None \<Rightarrow> False
      | Some st \<Rightarrow> fst (favicon F clk host test_upstream ''/'' True st) = Some (''cached-icon'', ''image/png''))"

lemma cold_icon_passes:
  assumes "json_back E"
  shows "cold_replica_serves_the_cached_icon E clk"
proof -
  let ?h = "''coldicon.example''" and ?F = "served (with_redis E) (redis_origin HTML_ONE)"
  let ?c = "\<lparr>c_title = Some ''T'', c_tags = [], c_icon = Some ''cached-icon'', c_icon_mime = Some ''image/png''\<rparr>"
  have np: "normalize_path ''/'' = ''/''" "normalize_host ?h = ?h" by code_simp+
  obtain st where st: "from_redis ?F ?h ?c = Some st" using seeded_exists [OF assms] by blast
  note l = seeded_load [OF assms st np(1), of clk test_upstream False]
  have "m_icon (into_meta ?c) = Some (''cached-icon'', ''image/png'')" by (simp add: into_meta_def png)
  then show ?thesis by (simp add: cold_replica_serves_the_cached_icon_def Let_def st favicon_def np l)
qed

definition favicon_without_a_cache_entry_does_not_fetch :: "((string \<times> string) list, Store) embed_env \<Rightarrow> (nat \<Rightarrow> nat) \<Rightarrow> bool" where
  "favicon_without_a_cache_entry_does_not_fetch E clk \<longleftrightarrow>
     (case favicon (served (with_redis E) (redis_origin HTML_ONE)) clk ''neverfetched.example'' test_upstream ''/'' True
        (cold empty_store) of
        (icon, st) \<Rightarrow> icon = None \<and> keys_set (e_redis st) = [])"

lemma never_fetched_passes: "favicon_without_a_cache_entry_does_not_fetch E clk"
proof -
  let ?h = "''neverfetched.example''" and ?F = "served (with_redis E) (redis_origin HTML_ONE)"
  have np: "normalize_path ''/'' = ''/''" "normalize_host ?h = ?h" by code_simp+
  have "local_tier (cold empty_store) (cache_key ?F ?h ''/'') = None"
    "Option.bind (s_data (e_redis (cold empty_store)) (cache_key ?F ?h ''/'')) (e_from_json E) = None"
    by (simp_all add: empty_store_def)
  note l = load_missed [OF np(1) this, of clk test_upstream]
  have "\<not> eq_ignore_ascii_case ''GET'' ''set''" by code_simp
  then show ?thesis
    by (simp add: favicon_without_a_cache_entry_does_not_fetch_def favicon_def Let_def np l keys_set_def)
      (simp add: empty_store_def)
qed

definition unreadable_icon_type_is_dropped_not_guessed ::
  "((string \<times> string) list, Store) embed_env \<Rightarrow> (nat \<Rightarrow> nat) \<Rightarrow> (nat \<Rightarrow> nat) \<Rightarrow> bool" where
  "unreadable_icon_type_is_dropped_not_guessed E clk clk1 \<longleftrightarrow>
     (let host = ''badmime.example''; F = served (with_redis E) (redis_origin HTML_ONE) in
      case from_redis F host
          \<lparr>c_title = Some ''T'', c_tags = [''<meta name='' @ quote ''description'' @ '' content='' @ quote ''d'' @ ''>''],
           c_icon = Some ''<svg onload=alert(1)/>'', c_icon_mime = Some ''image/svg+xml''\<rparr> of
        None \<Rightarrow> False
      | Some st \<Rightarrow>
          (case favicon F clk host test_upstream ''/'' True st of
             (icon, st1) \<Rightarrow> icon = None \<and>
               (case inline_into F clk1 test_page True host test_upstream ''/'' st1 of
                  (out, st2) \<Rightarrow> contains ''<title>T</title>'' out \<and> \<not> contains FAVICON_LINK out)))"

lemma bad_mime_passes:
  assumes "json_back E" and "clk1 0 - clk 1 < secs CACHE_TTL"
  shows "unreadable_icon_type_is_dropped_not_guessed E clk clk1"
proof -
  let ?h = "''badmime.example''" and ?F = "served (with_redis E) (redis_origin HTML_ONE)"
  let ?tag = "''<meta name='' @ quote ''description'' @ '' content='' @ quote ''d'' @ ''>''"
  let ?c = "\<lparr>c_title = Some ''T'', c_tags = [?tag], c_icon = Some ''<svg onload=alert(1)/>'', c_icon_mime = Some ''image/svg+xml''\<rparr>"
  let ?out = "''<html><head><title>T</title>'' @ ?tag @ ''</head><body>x</body></html>''"
  have n: "plain_name ?h ''/''" by code_simp
  then have np: "normalize_path ''/'' = ''/''" "normalize_host ?h = ?h" by (simp_all add: plain_name_def)
  obtain st where st: "from_redis ?F ?h ?c = Some st" using seeded_exists [OF assms(1)] by blast
  note l = seeded_load [OF assms(1) st np(1), of clk test_upstream False]
  let ?st1 = "local_put ?F (clk 1) ?h ''/'' (into_meta ?c) (st\<lparr>e_redis := (e_redis st)\<lparr>s_log := [[''GET'', ''nekoguard:embed:'' @ ?h]]\<rparr>\<rparr>)"
  have i: "m_icon (into_meta ?c) = None" by (simp add: into_meta_def png)
  have "local_tier ?st1 (cache_key ?F ?h ''/'') = Some \<lparr>c_meta = into_meta ?c, fetched = clk 1\<rparr>" by simp
  from inline_cached [OF n this _ served_fields(2), of clk1 test_page True test_upstream] assms(2)
  have shown: "inline_into ?F clk1 test_page True ?h test_upstream ''/'' ?st1 =
      (inline_meta page_regexes test_page ?h (Some (into_meta ?c)), ?st1)" by simp
  have "html_escape ''T'' = ''T''" by code_simp
  then have out: "inline_meta page_regexes test_page ?h (Some (into_meta ?c)) = ?out"
    using page_filled [of "''T''" ?h "Some (into_meta ?c)"] by (simp add: into_meta_def png)
  have "contains ''<title>T</title>'' ?out" "\<not> contains FAVICON_LINK ?out" by code_simp+
  then show ?thesis using i shown
    by (simp add: unreadable_icon_type_is_dropped_not_guessed_def Let_def st favicon_def np l out
        del: append.simps append_Cons append_Nil)
qed

text \<open>The page of the document of the tests.\<close>

lemma first_page:
  "contains ''First Title'' (inline_meta page_regexes test_page host (Some (first_meta ''First Title'' ''first description'')))"
proof -
  let ?m = "first_meta ''First Title'' ''first description''"
  have "html_escape ''First Title'' = ''First Title''" by code_simp
  then have "inline_meta page_regexes test_page host (Some ?m) =
      ''<html><head><title>'' @ ''First Title'' @ ''</title>'' @ concat (m_tags ?m) @ FAVICON_LINK @ ''</head><body>x</body></html>''"
    using page_filled [of "''First Title''" host "Some ?m"] by (simp add: first_meta_def default_Meta_def)
  then show ?thesis
    using contains_mid [of "''First Title''" "''First Title''"] by (simp only: contains_sublist sublist_order.order_refl simp_thms)
qed

definition corrupt_entry_is_refetched :: "((string \<times> string) list, Store) embed_env \<Rightarrow> (nat \<Rightarrow> nat) \<Rightarrow> bool" where
  "corrupt_entry_is_refetched E clk \<longleftrightarrow>
     (let host = ''corrupt.example''; F = served (with_redis E) (redis_origin HTML_ONE); key = cache_key F host ''/'' in
      case inline_into F clk test_page True host test_upstream ''/'' (cold (seed key ''{not json'' empty_store)) of
        (out, st) \<Rightarrow> contains ''First Title'' out \<and> Option.bind (s_data (e_redis st) key) (e_from_json E) \<noteq> None)"

lemma corrupt_passes:
  assumes "json_back E" and "e_from_json E ''{not json'' = None"
  shows "corrupt_entry_is_refetched E clk"
proof -
  let ?h = "''corrupt.example''" and ?F = "served (with_redis E) (redis_origin HTML_ONE)"
  let ?m = "first_meta ''First Title'' ''first description''"
  let ?s = "cold (seed (cache_key ?F ?h ''/'') ''{not json'' empty_store)"
  have n: "plain_name ?h ''/''" by code_simp
  have same: "same_origin_path ''/favicon.ico'' ?h = Some ''/favicon.ico''" by code_simp
  obtain t where t: "e_to_json E (cached_of_meta ?m) = Some t" "e_from_json E t = Some (cached_of_meta ?m)"
    using assms(1) unfolding json_back_def by blast
  have np: "normalize_path ''/'' = ''/''" "normalize_host ?h = ?h" using n by (simp_all add: plain_name_def)
  have "local_tier ?s (cache_key ?F ?h ''/'') = None"
    "Option.bind (s_data (e_redis ?s) (cache_key ?F ?h ''/'')) (e_from_json E) = None"
    by (simp_all add: seed_def assms(2))
  from load_refetched [OF np(1) this first_fetched [OF n same] t(1), of clk] obtain st where st:
    "load ?F clk ?h ''/'' True test_upstream True ?s = (Some ?m, st)"
    "s_data (e_redis st) (cache_key ?F ?h ''/'') = Some t"
    by auto
  then show ?thesis using first_page t(2)
    by (simp add: corrupt_entry_is_refetched_def Let_def inline_into_def np)
qed

text \<open>A Redis that is not there: every command fails.\<close>

definition without_redis :: "('h, 'r) embed_env \<Rightarrow> ('h, 'r) embed_env" where
  "without_redis E = E\<lparr>e_get := (\<lambda>k s. (None, s)), e_set_ex := (\<lambda>k v t s. (False, s))\<rparr>"

definition unreachable_redis_falls_through_to_the_origin :: "((string \<times> string) list, 'r) embed_env \<Rightarrow> (nat \<Rightarrow> nat) \<Rightarrow> 'r \<Rightarrow> bool" where
  "unreachable_redis_falls_through_to_the_origin E clk r \<longleftrightarrow>
     (\<forall>ctx. contains ''First Title''
        (fst (inline_into (served (without_redis E) (redis_origin HTML_ONE)) clk test_page ctx ''deadredis.example'' test_upstream
           ''/'' (cold r))))"

lemma unreachable_passes: "unreachable_redis_falls_through_to_the_origin E clk r"
proof -
  let ?h = "''deadredis.example''" and ?F = "served (without_redis E) (redis_origin HTML_ONE)"
  let ?m = "first_meta ''First Title'' ''first description''"
  have n: "plain_name ?h ''/''" by code_simp
  have same: "same_origin_path ''/favicon.ico'' ?h = Some ''/favicon.ico''" by code_simp
  have np: "normalize_path ''/'' = ''/''" "normalize_host ?h = ?h" using n by (simp_all add: plain_name_def)
  have "e_get ?F k s = (None, s)" for k s by (simp add: served_def without_redis_def)
  then have miss: "lookup ?F t1 t2 ?h ''/'' ctx s = (None, s)" if "local_tier s (cache_key ?F ?h ''/'') = None" for t1 t2 s ctx
    using that by (simp add: lookup_def local_get_def redis_get_def)
  have 1: "lookup ?F (clk 0) (clk 1) ?h ''/'' ctx (cold r) = (None, cold r)" for ctx by (rule miss) simp
  have 2: "lookup ?F (clk 2) (clk 3) ?h ''/'' ctx (inflight_lock ?F ?h ''/'' (cold r)) = (None, inflight_lock ?F ?h ''/'' (cold r))" for ctx
    by (rule miss) simp
  have l: "fst (load ?F clk ?h ''/'' ctx test_upstream True (cold r)) = Some ?m" for ctx
    by (simp only: load_def np 1 2 first_fetched [OF n same] Let_def prod.case option.case simp_thms if_True if_False fst_conv)
  then have "fst (inline_into ?F clk test_page ctx ?h test_upstream ''/'' (cold r)) = inline_meta page_regexes test_page ?h (Some ?m)" for ctx
    by (simp only: inline_into_def Let_def np l prod.case_eq_if fst_conv served_fields(2) if_True simp_thms)
  then show ?thesis using first_page by (simp add: unreachable_redis_falls_through_to_the_origin_def)
qed

end
