(* ===== verification/Conformance_Resp.thy ===== *)
theory Conformance_Resp
  imports Conformance_Redis Tls_Edge
begin

text \<open>
  The protocol the fake Redis of \<open>nekoguard/src/embed.rs\<close> speaks on a connection: the bytes a client sends are
  read as commands, each command is answered, and so the store the tests look at is the one \<open>fake_redis\<close>
  makes of the commands.
\<close>

section \<open>Definitions\<close>

definition encode_bulk :: "string \<Rightarrow> string" where
  "encode_bulk s = ''$'' @ dec (length s) @ CRLF @ s @ CRLF"

text \<open>The bytes up to and with the next line break, \<^const>\<open>None\<close> where the connection ends before.\<close>

fun read_line :: "string \<Rightarrow> string \<Rightarrow> (string \<times> string) option" where
  "read_line buf [] = None"
| "read_line buf (c # cs) = (if ends_with CRLF (buf @ [c]) then Some (buf @ [c], cs) else read_line (buf @ [c]) cs)"

definition line_number :: "string \<Rightarrow> nat option outcome" where
  "line_number buf =
     (if length buf < 3 then Panic ''slice index starts at 1 but ends at 0''
      else Done (parse_uint 10 (2 ^ 64 - 1) (from_utf8_lossy (take (length buf - 3) (drop 1 buf)))))"

fun read_args :: "nat \<Rightarrow> string \<Rightarrow> (string list \<times> string) option outcome" where
  "read_args 0 input = Done (Some ([], input))"
| "read_args (Suc n) input =
     (case read_line [] input of
        None \<Rightarrow> Done None
      | Some (line, rest) \<Rightarrow>
          bind_outcome (line_number line) (\<lambda>len.
            case len of
              None \<Rightarrow> Done None
            | Some l \<Rightarrow>
                if 2 ^ 63 \<le> l + 2 then Panic ''capacity overflow''
                else if length rest < l + 2 then Done None
                else bind_outcome (read_args n (drop (l + 2) rest)) (\<lambda>res.
                  Done (map_option (\<lambda>(vs, left). (from_utf8_lossy (take l rest) # vs, left)) res))))"

text \<open>A string header takes 24 bytes, and a vector at most \<open>2 ^ 63 - 1\<close>.\<close>

definition read_command :: "string \<Rightarrow> (string list \<times> string) option outcome" where
  "read_command input =
     (case read_line [] input of
        None \<Rightarrow> Done None
      | Some (line, rest) \<Rightarrow>
          bind_outcome (line_number line) (\<lambda>count.
            case count of
              None \<Rightarrow> Done None
            | Some n \<Rightarrow> if 2 ^ 63 \<le> n * 24 then Panic ''capacity overflow'' else read_args n rest))"

definition redis_reply :: "string list \<Rightarrow> Store \<Rightarrow> (string \<times> Store) outcome" where
  "redis_reply cmd s =
     (let verb = map ascii_upper (hd cmd) in
      if verb = ''GET'' \<and> length cmd < 2 \<or> verb = ''SET'' \<and> length cmd < 3 then Panic ''index out of bounds''
      else case fake_redis cmd s of
        (v, s') \<Rightarrow>
          Done (if verb = ''GET'' then (case v of Some x \<Rightarrow> encode_bulk x | None \<Rightarrow> ''$-1'' @ CRLF) else ''+OK'' @ CRLF, s'))"

lemma read_line_shorter: "read_line buf s = Some (l, r) \<Longrightarrow> length r < length s"
  by (induction buf s rule: read_line.induct) (auto split: if_splits)

lemma read_args_shorter: "read_args n s = Done (Some (vs, r)) \<Longrightarrow> length r \<le> length s"
proof (induction n arbitrary: s vs r)
  case (Suc n)
  then show ?case
    by (auto simp: bind_outcome_Done split: option.splits prod.splits if_splits dest!: read_line_shorter Suc.IH)
qed simp

lemma read_command_shorter: "read_command s = Done (Some (cmd, r)) \<Longrightarrow> length r < length s"
  by (auto simp: read_command_def bind_outcome_Done split: option.splits prod.splits if_splits
      dest!: read_line_shorter read_args_shorter)

text \<open>One connection, from the bytes it gets to the bytes it answers and the store it leaves.\<close>

function serve_redis :: "string \<Rightarrow> Store \<Rightarrow> (string \<times> Store) outcome" where
  "serve_redis input s =
     (case read_command input of
        Panic m \<Rightarrow> Panic m
      | Done None \<Rightarrow> Done ([], s)
      | Done (Some (cmd, rest)) \<Rightarrow>
          if cmd = [] then serve_redis rest s
          else bind_outcome (redis_reply cmd s) (\<lambda>(r, s1).
            bind_outcome (serve_redis rest s1) (\<lambda>(rs, s2). Done (r @ rs, s2))))"
  by pat_completeness auto
termination
  by (relation "measure (\<lambda>(input, s). length input)") (auto dest: read_command_shorter)

declare serve_redis.simps [simp del]

section \<open>What a client sends is what the store sees\<close>

text \<open>A command as a client writes it: an array of bulk strings.\<close>

definition encode_command :: "string list \<Rightarrow> string" where
  "encode_command cmd = ''*'' @ dec (length cmd) @ CRLF @ concat (map encode_bulk cmd)"

definition sendable :: "string list \<Rightarrow> bool" where
  "sendable cmd \<longleftrightarrow> length cmd < 2 ^ 58 \<and> list_all (\<lambda>v. utf8_valid v \<and> length v < 2 ^ 62) cmd"

lemma read_line_plain: "CHR 0x0A \<notin> set l \<Longrightarrow> CHR 0x0A \<notin> set buf \<Longrightarrow> read_line buf (l @ CRLF @ s) = Some (buf @ l @ CRLF, s)"
proof (induction l arbitrary: buf)
  case Nil
  then show ?case by (auto simp: CRLF_def ends_with_def)
next
  case (Cons c l)
  have "\<not> ends_with CRLF (buf @ [c])" using Cons.prems by (auto simp: CRLF_def ends_with_def suffix_def)
  then show ?case using Cons by simp
qed

declare read_line.simps [simp del]

lemma dec_chars: "c \<in> set (dec n) \<Longrightarrow> 48 \<le> code c \<and> code c \<le> 122"
  using radix_chars [of 10 c n] by (auto simp: dec_def digit_val_def Let_def split: if_splits)

lemma number_line:
  assumes "n < 2 ^ 64" and "k \<noteq> CHR 0x0A"
  shows "read_line [] (k # dec n @ CRLF @ s) = Some (k # dec n @ CRLF, s)" and "line_number (k # dec n @ CRLF) = Done (Some n)"
proof -
  have nl: "code (CHR 0x0A) = 10" by code_simp
  have "CHR 0x0A \<notin> set (dec n)" using dec_chars [of "CHR 0x0A" n] nl by auto
  then show "read_line [] (k # dec n @ CRLF @ s) = Some (k # dec n @ CRLF, s)"
    using read_line_plain [of "k # dec n" "[]" s] assms(2) by simp
  have "list_all (\<lambda>c. code c < 128) (dec n)" using dec_chars by (fastforce simp: list_all_iff)
  then have "from_utf8_lossy (dec n) = dec n" by (rule from_utf8_lossy_valid [OF utf8_valid_ascii])
  moreover have "parse_uint 10 (2 ^ 64 - 1) (dec n) = Some n"
    unfolding dec_def by (rule parse_uint_radix) (use assms(1) in simp_all)
  ultimately show "line_number (k # dec n @ CRLF) = Done (Some n)"
    by (simp add: line_number_def CRLF_def)
qed

lemma read_args_encoded:
  "list_all (\<lambda>v. utf8_valid v \<and> length v < 2 ^ 62) cmd \<Longrightarrow>
   read_args (length cmd) (concat (map encode_bulk cmd) @ s) = Done (Some (cmd, s))"
proof (induction cmd)
  case (Cons v cmd)
  let ?rest = "v @ CRLF @ concat (map encode_bulk cmd) @ s"
  have l: "length v < 2 ^ 64" "\<not> 2 ^ 63 \<le> length v + 2" using Cons.prems by simp_all
  have "drop (length v + 2) ?rest = concat (map encode_bulk cmd) @ s" by (simp add: CRLF_def)
  moreover have "\<not> length ?rest < length v + 2" by (simp add: CRLF_def)
  moreover have "take (length v) ?rest = v" by simp
  moreover have h: "concat (map encode_bulk (v # cmd)) @ s = CHR ''$'' # dec (length v) @ CRLF @ ?rest"
    by (simp add: encode_bulk_def)
  ultimately show ?case
    using Cons number_line(1) [OF l(1), of "CHR ''$''" ?rest] number_line(2) [OF l(1), of "CHR ''$''"] l(2)
    unfolding h by (simp add: from_utf8_lossy_valid del: drop_append take_append length_append)
qed simp

lemma read_command_encoded:
  assumes "sendable cmd"
  shows "read_command (encode_command cmd @ s) = Done (Some (cmd, s))"
proof -
  have l: "length cmd < 2 ^ 64" "\<not> 2 ^ 63 \<le> length cmd * 24" using assms by (simp_all add: sendable_def)
  show ?thesis
    using number_line(1) [OF l(1), of "CHR ''*''" "concat (map encode_bulk cmd) @ s"] number_line(2) [OF l(1), of "CHR ''*''"]
      read_args_encoded [of cmd s] l(2) assms
    by (simp add: read_command_def encode_command_def sendable_def)
qed

text \<open>Commands with all their arguments, one after the other over one connection.\<close>

definition answered :: "string list \<Rightarrow> bool" where
  "answered cmd \<longleftrightarrow> sendable cmd \<and> cmd \<noteq> [] \<and> (map ascii_upper (hd cmd) = ''GET'' \<longrightarrow> 2 \<le> length cmd) \<and>
     (map ascii_upper (hd cmd) = ''SET'' \<longrightarrow> 3 \<le> length cmd)"

lemma served_store:
  "list_all answered cmds \<Longrightarrow>
   \<exists>out. serve_redis (concat (map encode_command cmds)) s = Done (out, fold (\<lambda>cmd s. snd (fake_redis cmd s)) cmds s)"
proof (induction cmds arbitrary: s)
  case Nil
  have "read_command [] = Done None" by (simp add: read_command_def read_line.simps)
  then show ?case by (subst serve_redis.simps) simp
next
  case (Cons cmd cmds)
  have a: "answered cmd" using Cons.prems by simp
  obtain r where r: "redis_reply cmd s = Done (r, snd (fake_redis cmd s))"
    using a by (cases "fake_redis cmd s") (auto simp: redis_reply_def answered_def Let_def)
  obtain out where out: "serve_redis (concat (map encode_command cmds)) (snd (fake_redis cmd s)) =
      Done (out, fold (\<lambda>cmd s. snd (fake_redis cmd s)) cmds (snd (fake_redis cmd s)))"
    using Cons by fastforce
  have "read_command (concat (map encode_command (cmd # cmds))) = Done (Some (cmd, concat (map encode_command cmds)))"
    using read_command_encoded a by (simp add: answered_def)
  then show ?case using a r out by (subst serve_redis.simps) (simp add: answered_def)
qed

end
