(* ===== verification/Conformance_Scrape.thy ===== *)
theory Conformance_Scrape
  imports Conformance_Fetch
begin

text \<open>
  The tests of \<open>nekoguard/src/embed.rs\<close> that scrape a whole document: the made-up one of its unit tests and
  the head captured from a live site (\<open>live_regression\<close>). The documents are evaluated token by token.
\<close>

section \<open>Texts in pieces\<close>

text \<open>No piece has the word, with as much of what follows as an occurrence could reach into.\<close>

fun absent :: "string \<Rightarrow> string list \<Rightarrow> bool" where
  "absent w [] \<longleftrightarrow> w \<noteq> []"
| "absent w (t # ts) \<longleftrightarrow> \<not> contains w (t @ take (length w - 1) (concat ts)) \<and> absent w ts"

lemma absent_no_prefix:
  assumes "\<not> sublist w (t @ take (length w - 1) s)" and "i < length t"
  shows "\<not> prefix w (drop i (t @ s))"
proof
  assume p: "prefix w (drop i (t @ s))"
  then have "w = take (length w) (drop i (t @ s))" by (metis prefix_def append_eq_conv_conj)
  also have "\<dots> = take (length w) (drop i (t @ take (length w - 1) s))"
    using assms(2) by (simp add: min_def)
  finally have "sublist w (t @ take (length w - 1) s)"
    by (metis sublist_drop sublist_take sublist_order.order_trans)
  then show False using assms(1) by simp
qed

lemma absent_concat: "absent w ts \<Longrightarrow> \<not> contains w (concat ts)"
proof (induction ts)
  case (Cons t ts)
  have no: "\<not> sublist w (t @ take (length w - 1) (concat ts))" and rest: "\<not> sublist w (concat ts)"
    using Cons by (simp_all add: contains_sublist)
  show ?case
  proof
    assume "contains w (concat (t # ts))"
    then obtain a b where ab: "t @ concat ts = a @ w @ b" by (auto simp: contains_sublist sublist_def)
    then have p: "prefix w (drop (length a) (t @ concat ts))" by simp
    show False
    proof (cases "length a < length t")
      case True
      then show False using absent_no_prefix [OF no] p by blast
    next
      case False
      then have "prefix w (drop (length a - length t) (concat ts))" using p by simp
      then show False using rest by (meson prefix_imp_sublist sublist_drop sublist_order.order_trans)
    qed
  qed
qed (simp add: contains_sublist)

lemma sublist_piece: "sublist w t \<Longrightarrow> t \<in> set ts \<Longrightarrow> contains w (concat ts)"
  unfolding contains_sublist by (metis concat.simps(2) concat_append split_list sublist_appendI sublist_order.order_trans)

section \<open>A made-up document\<close>

definition scraped_tokens :: "string list" where
  \<open>scraped_tokens =
     [''<!doctype html>'', ''<html>'', ''<head>'', test_blank 12, ''<meta charset="utf-8">'', test_blank 12,
      ''<title>'', ''  My Site  '', ''</title>'', test_blank 12,
      ''<meta name="description" content="A description">'', test_blank 12,
      ''<meta property="og:image" content="/share.png">'', test_blank 12,
      ''<link rel="stylesheet" href="/app.css">'', test_blank 12,
      ''<link rel="apple-touch-icon" href="/apple.png">'', test_blank 12,
      ''<link rel="shortcut icon" href="/favicon.ico">'', test_blank 8,
      ''</head>'', ''<body>'', ''<meta property="og:title" content="body decoy">'', ''</body>'', ''</html>'']\<close>

definition scrape_pulls_title_metadata_and_favicon :: bool where
  "scrape_pulls_title_metadata_and_favicon \<longleftrightarrow>
     (let meta = scrape page_regexes (concat scraped_tokens) in
      m_title meta = Some ''My Site'' \<and>
      list_ex (\<lambda>t. contains ''og:image'' t \<and> contains ''/share.png'' t) (m_tags meta) \<and>
      \<not> list_ex (contains ''body decoy'') (m_tags meta) \<and>
      m_icon_url meta = Some ''/favicon.ico'')"

lemma scraped_meta:
  \<open>token_scrape scraped_tokens =
     \<lparr>m_title = Some ''My Site'',
      m_tags = [''<meta name="description" content="A description">'', ''<meta property="og:image" content="/share.png">''],
      m_icon_url = Some ''/favicon.ico'', m_icon = None\<rparr>\<close>
  by code_simp

lemma scrape_pulls_passes: scrape_pulls_title_metadata_and_favicon
proof -
  have "list_all head_token scraped_tokens" by code_simp
  note s = scrape_by_tokens [OF this]
  have "contains ''og:image'' ''<meta property=\"og:image\" content=\"/share.png\">''"
    "contains ''/share.png'' ''<meta property=\"og:image\" content=\"/share.png\">''"
    "\<not> contains ''body decoy'' ''<meta property=\"og:image\" content=\"/share.png\">''"
    "\<not> contains ''body decoy'' ''<meta name=\"description\" content=\"A description\">''"
    by code_simp+
  then show ?thesis by (simp add: scrape_pulls_title_metadata_and_favicon_def s scraped_meta)
qed

section \<open>A head captured from a live site\<close>

definition ghost_text :: string where
  "ghost_text = ''We&#x27;re an independent group making hardware, software, and security tools for tech enthusiasts.''"

definition ghost_icon :: string where
  "ghost_icon = ''https://root-workspace.net/content/images/size/w256h256/2026/01/Untitled-design_rounded.png''"

definition REAL_HEAD_tokens :: "string list" where
  \<open>REAL_HEAD_tokens =
     [''<head>'', CHR 0x0A # test_blank 4, ''<title>'', ''root://workspace'', ''</title>'', test_blank 4,
      ''<meta charset="utf-8">'', test_blank 4,
      ''<meta name="viewport" content="width=device-width, initial-scale=1.0">'', test_blank 4,
      ''<meta name="description" content="'' @ ghost_text @ ''">'', test_blank 4,
      ''<meta name="referrer" content="no-referrer-when-downgrade">'', test_blank 4,
      ''<meta property="og:site_name" content="root://workspace">'', test_blank 4,
      ''<meta property="og:type" content="website">'', test_blank 4,
      ''<meta property="og:title" content="root://workspace">'', test_blank 4,
      ''<meta property="og:description" content="'' @ ghost_text @ ''">'', test_blank 4,
      ''<meta property="og:url" content="https://root-workspace.net/">'', test_blank 4,
      ''<meta name="twitter:card" content="summary">'', test_blank 4,
      ''<meta name="twitter:title" content="root://workspace">'', test_blank 4,
      ''<meta name="twitter:description" content="'' @ ghost_text @ ''">'', test_blank 4,
      ''<meta name="twitter:url" content="https://root-workspace.net/">'', test_blank 4,
      ''<meta name="generator" content="Ghost 6.41">'', test_blank 4,
      ''<link rel="icon" href="'' @ ghost_icon @ ''" type="image/png">'', test_blank 0, ''</head>'']\<close>

definition REAL_HEAD :: string where
  "REAL_HEAD = concat REAL_HEAD_tokens"

lemma real_tokens: "list_all head_token REAL_HEAD_tokens"
  by code_simp

text \<open>The tags it yields, and the page they are put on.\<close>

definition ghost_prose :: string where
  "ghost_prose = ''We'' @ [CHR 0x27] @ ''re an independent group making hardware, software, and security tools for tech enthusiasts.''"

definition described :: "string \<Rightarrow> string \<Rightarrow> string" where
  \<open>described front text = front @ text @ ''">''\<close>

definition real_link_tag :: string where
  \<open>real_link_tag = ''<link rel="icon" href="'' @ ghost_icon @ ''" type="image/png">''\<close>

definition real_tags :: "string list" where
  \<open>real_tags =
     [described ''<meta name="description" content="'' ghost_prose,
      ''<meta property="og:site_name" content="root://workspace">'',
      ''<meta property="og:type" content="website">'',
      ''<meta property="og:title" content="root://workspace">'',
      described ''<meta property="og:description" content="'' ghost_prose,
      ''<meta name="twitter:card" content="summary_large_image">'',
      ''<meta name="twitter:title" content="root://workspace">'',
      described ''<meta name="twitter:description" content="'' ghost_prose]\<close>

text \<open>Tag by tag: what a tag adds does not depend on what was there.\<close>

lemma render_adds: "render_tag X tag meta = meta\<lparr>m_tags := m_tags meta @ m_tags (render_tag X tag default_Meta)\<rparr>"
  by (auto simp: render_tag_def default_Meta_def Let_def split: option.splits prod.splits)

lemma fold_render:
  "fold (render_tag X) tags meta = meta\<lparr>m_tags := m_tags meta @ concat (map (\<lambda>t. m_tags (render_tag X t default_Meta)) tags)\<rparr>"
proof (induction tags arbitrary: meta)
  case (Cons t tags)
  then show ?case by (simp add: render_adds [of X t meta])
qed simp

definition real_metas :: "string list" where
  \<open>real_metas =
     [''<meta charset="utf-8">'', ''<meta name="viewport" content="width=device-width, initial-scale=1.0">'',
      described ''<meta name="description" content="'' ghost_text, ''<meta name="referrer" content="no-referrer-when-downgrade">'',
      ''<meta property="og:site_name" content="root://workspace">'', ''<meta property="og:type" content="website">'',
      ''<meta property="og:title" content="root://workspace">'', described ''<meta property="og:description" content="'' ghost_text,
      ''<meta property="og:url" content="https://root-workspace.net/">'', ''<meta name="twitter:card" content="summary">'',
      ''<meta name="twitter:title" content="root://workspace">'', described ''<meta name="twitter:description" content="'' ghost_text,
      ''<meta name="twitter:url" content="https://root-workspace.net/">'', ''<meta name="generator" content="Ghost 6.41">'']\<close>

lemma real_parts:
  "filter (named ''<meta'') (head_tokens REAL_HEAD_tokens) = real_metas"
  \<open>filter (named ''<link'') (head_tokens REAL_HEAD_tokens) = [real_link_tag]\<close>
  "title_of (head_tokens REAL_HEAD_tokens) = Some ''root://workspace''"
  by code_simp+

abbreviation (input) "tags_of t \<equiv> m_tags (render_tag page_regexes t default_Meta)"

lemma real_dropped:
  \<open>tags_of ''<meta charset="utf-8">'' = []\<close>
  \<open>tags_of ''<meta name="viewport" content="width=device-width, initial-scale=1.0">'' = []\<close>
  \<open>tags_of ''<meta name="referrer" content="no-referrer-when-downgrade">'' = []\<close>
  \<open>tags_of ''<meta property="og:url" content="https://root-workspace.net/">'' = []\<close>
  \<open>tags_of ''<meta name="twitter:url" content="https://root-workspace.net/">'' = []\<close>
  \<open>tags_of ''<meta name="generator" content="Ghost 6.41">'' = []\<close>
  by code_simp+

lemma real_titles:
  \<open>tags_of ''<meta property="og:site_name" content="root://workspace">'' = [''<meta property="og:site_name" content="root://workspace">'']\<close>
  \<open>tags_of ''<meta property="og:type" content="website">'' = [''<meta property="og:type" content="website">'']\<close>
  \<open>tags_of ''<meta property="og:title" content="root://workspace">'' = [''<meta property="og:title" content="root://workspace">'']\<close>
  \<open>tags_of ''<meta name="twitter:card" content="summary">'' = [''<meta name="twitter:card" content="summary_large_image">'']\<close>
  \<open>tags_of ''<meta name="twitter:title" content="root://workspace">'' = [''<meta name="twitter:title" content="root://workspace">'']\<close>
  by code_simp+

lemma real_description:
  \<open>tags_of (described ''<meta name="description" content="'' ghost_text) = [described ''<meta name="description" content="'' ghost_prose]\<close>
  by code_simp

lemma real_og_description:
  \<open>tags_of (described ''<meta property="og:description" content="'' ghost_text) = [described ''<meta property="og:description" content="'' ghost_prose]\<close>
  by code_simp

lemma real_twitter_description:
  \<open>tags_of (described ''<meta name="twitter:description" content="'' ghost_text) = [described ''<meta name="twitter:description" content="'' ghost_prose]\<close>
  by code_simp

lemma real_link:
  \<open>note_icon page_regexes real_link_tag default_Meta = default_Meta\<lparr>m_icon_url := Some ghost_icon\<rparr>\<close>
  by code_simp

lemma icon_noted:
  "note_icon X tag default_Meta = default_Meta\<lparr>m_icon_url := Some u\<rparr> \<Longrightarrow> m_icon_url meta = None \<Longrightarrow>
   note_icon X tag meta = meta\<lparr>m_icon_url := Some u\<rparr>"
  by (auto simp: note_icon_def default_Meta_def split: option.splits if_splits)

lemma real_scraped:
  "token_scrape REAL_HEAD_tokens =
     \<lparr>m_title = Some ''root://workspace'', m_tags = real_tags, m_icon_url = Some ghost_icon, m_icon = None\<rparr>"
proof -
  have tags: "concat (map tags_of real_metas) = real_tags"
    by (simp only: real_metas_def list.map real_dropped real_titles real_description real_og_description
        real_twitter_description concat.simps append_Nil append_Cons real_tags_def)
  have title: "trim (decode ''root://workspace'') = ''root://workspace''"
    "take_chars MAX_TITLE ''root://workspace'' = ''root://workspace''"
    by code_simp+
  have "fold (render_tag page_regexes) real_metas default_Meta = default_Meta\<lparr>m_tags := real_tags\<rparr>"
    unfolding fold_render tags by (simp add: default_Meta_def)
  moreover have "note_icon page_regexes real_link_tag (default_Meta\<lparr>m_tags := real_tags\<rparr>) = default_Meta\<lparr>m_tags := real_tags, m_icon_url := Some ghost_icon\<rparr>"
    using icon_noted [OF real_link, of "default_Meta\<lparr>m_tags := real_tags\<rparr>"] by (simp add: default_Meta_def)
  ultimately show ?thesis
    unfolding token_scrape_def Let_def real_parts by (simp add: title default_Meta_def)
qed

definition inject_for_test :: "string \<Rightarrow> Meta \<Rightarrow> string \<Rightarrow> string" where
  "inject_for_test page meta host =
     (let inject = concat (m_tags meta) @ (if m_icon meta \<noteq> None then FAVICON_LINK else '''');
          title = (case m_title meta of Some t \<Rightarrow> t | None \<Rightarrow> host)
      in replace_first NG_META inject (replace_title page_regexes page title))"

lemma inject_for_test_inline: "inject_for_test page meta host = inline_meta page_regexes page host (Some meta)"
  by (simp add: inject_for_test_def inline_meta_def Let_def)

text \<open>The page of the program comes out of the minifier, so the test has the template as an argument.\<close>

definition real_origin_produces_a_usable_embed :: "string \<Rightarrow> bool" where
  \<open>real_origin_produces_a_usable_embed template \<longleftrightarrow>
     (let scraped = scrape page_regexes REAL_HEAD in
      m_title scraped = Some ''root://workspace'' \<and>
      m_icon_url scraped = Some ghost_icon \<and>
      Option.bind (m_icon_url scraped) (\<lambda>u. same_origin_path u ''root-workspace.net'') =
        Some ''/content/images/size/w256h256/2026/01/Untitled-design_rounded.png'' \<and>
      (let meta = scraped\<lparr>m_icon := Some (''png'', ''image/png'')\<rparr>;
           page = challenge_html template ''deadbeef'';
           out = inject_for_test page meta ''root-workspace.net''
       in contains ''<title>root://workspace</title>'' out \<and> \<not> contains NG_META out \<and>
          contains ''<link rel="icon" href="/__ng/favicon.ico">'' out \<and>
          contains (''We'' @ [CHR 0x27] @ ''re an independent group'') out \<and> \<not> contains ''&#x27;'' out \<and>
          contains (''content="We'' @ [CHR 0x27] @ ''re an independent group'') out \<and>
          \<not> contains ''charset=utf-8'' out \<and> \<not> contains ''generator'' out \<and> \<not> contains ''twitter:url'' out \<and>
          \<not> contains ''property="og:url"'' out \<and> contains ''content="summary_large_image"'' out \<and>
          \<not> contains ''content="summary"'' out))\<close>

definition real_pieces :: "string list" where
  "real_pieces =
     ''<html><head><title>root://workspace</title>'' # real_tags @ [FAVICON_LINK, ''</head><body>x</body></html>'']"

lemma real_page_holds:
  "sublist ''<title>root://workspace</title>'' (hd real_pieces)"
  \<open>''<link rel="icon" href="/__ng/favicon.ico">'' \<in> set real_pieces\<close>
  "sublist (''We'' @ [CHR 0x27] @ ''re an independent group'') (hd real_tags)"
  \<open>sublist (''content="We'' @ [CHR 0x27] @ ''re an independent group'') (hd real_tags)\<close>
  \<open>sublist ''content="summary_large_image"'' (real_tags ! 5)\<close>
  by code_simp+

lemma real_page_lacks:
  "absent NG_META real_pieces" "absent ''&#x27;'' real_pieces" "absent ''charset=utf-8'' real_pieces"
  "absent ''generator'' real_pieces" "absent ''twitter:url'' real_pieces"
  \<open>absent ''property="og:url"'' real_pieces\<close> \<open>absent ''content="summary"'' real_pieces\<close>
  by code_simp+

lemma real_origin_passes: "real_origin_produces_a_usable_embed test_page"
proof -
  let ?m = "(token_scrape REAL_HEAD_tokens)\<lparr>m_icon := Some (''png'', ''image/png'')\<rparr>"
  have page: "challenge_html test_page ''deadbeef'' = test_page" by code_simp
  have path: "same_origin_path ghost_icon ''root-workspace.net'' =
      Some ''/content/images/size/w256h256/2026/01/Untitled-design_rounded.png''"
    by code_simp
  have s: "scrape page_regexes REAL_HEAD = token_scrape REAL_HEAD_tokens"
    unfolding REAL_HEAD_def by (rule scrape_by_tokens [OF real_tokens])
  have "html_escape ''root://workspace'' = ''root://workspace''" by code_simp
  then have "inject_for_test test_page ?m ''root-workspace.net'' = concat real_pieces"
    using page_filled [of "''root://workspace''" "''root-workspace.net''" "Some ?m"]
    by (simp add: inject_for_test_inline real_scraped real_pieces_def)
  note out = this
  have mem: "hd real_pieces \<in> set real_pieces" "hd real_tags \<in> set real_pieces" "real_tags ! 5 \<in> set real_pieces"
    by (simp_all add: real_pieces_def real_tags_def)
  note holds = sublist_piece [OF real_page_holds(1) mem(1)] sublist_piece [OF sublist_order.order_refl real_page_holds(2)]
    sublist_piece [OF real_page_holds(3) mem(2)] sublist_piece [OF real_page_holds(4) mem(2)]
    sublist_piece [OF real_page_holds(5) mem(3)]
  note lacks = real_page_lacks [THEN absent_concat]
  show ?thesis
    unfolding real_origin_produces_a_usable_embed_def Let_def s page out
    by (simp only: real_scraped Meta.simps Option.bind.simps path holds lacks simp_thms)
qed

end
