(* ===== verification/Spec2Isabelle.thy ===== *)
theory Spec2Isabelle
  imports Deployment System Guard_Js Conformance_Codec Conformance_Icon Conformance_Resp Conformance_Scrape
begin

text \<open>
  NekoGuard is a TLS-terminating reverse proxy that asks a browser for a proof of work before it forwards
  its requests, with a separate daemon that obtains the certificates. This development models the Rust
  sources under \<open>src/nekoguard/src\<close>, \<open>src/nekoguard/build.rs\<close> and \<open>src/certd/src\<close>, and the browser script
  \<open>src/nekoguard/src/assets/guard.js\<close>.

  \<^bold>\<open>The parts and how they interact.\<close> \<open>main_inner\<close> starts the logger, the session key (shared through
  Redis), the certificates and the listeners. A TLS connection passes the gate on its server name, is
  peeked into for a WebSocket upgrade, and is else handed to \<open>handle\<close>, which routes a request: local
  routes (version, assets, icon, challenge, verification), then the gate (white list, sealed cookie,
  bypass patterns), then the rate limiter and the proxy, or the interstitial page with the metadata of
  the origin. The daemon runs the ACME protocol, proves control of a name through DNS, stores the
  certificate in Redis and publishes the name; the edge reloads on that message. In the browser the
  interstitial page and the script spliced into proxied documents solve challenges; the script renews the
  clearance in the background and holds requests back while it has lapsed.

  \<^bold>\<open>Which theory models what.\<close>
  \<^item> \<open>Prelude\<close>, \<open>Rust_Text\<close>, \<open>Rust_Utf8\<close>, \<open>Rust_F64\<close>, \<open>Ip_Addr\<close>: a panic as a value of \<open>outcome\<close>, and
    what the sources use of the standard library: strings as UTF-8 bytes, searching, splitting, trimming,
    numbers as text, 53-bit floating point, Internet addresses.
  \<^item> \<open>Pow\<close> (\<open>pow.rs\<close>): the challenge store. \<open>Session\<close> (\<open>session.rs\<close>): key set-up as a sequence and as
    interleaved steps, sealing and opening cookies. \<open>Site_Config\<close> (\<open>config.rs\<close>): defaults, expansion,
    host lookup. \<open>Rate_Limit\<close> (\<open>ratelimit.rs\<close>): the token bucket.
  \<^item> \<open>Inject\<close> (\<open>inject.rs\<close>): encodings and splicing. \<open>Embed_Text\<close>, \<open>Embed_Scrape\<close>, \<open>Embed_Cache\<close>
    (\<open>embed.rs\<close>): escaping, scraping, the two cache tiers, single flight and fetching. \<open>Head_Regex\<close>:
    its four regular expressions with a backtracking matcher; \<open>Head_Tokens\<close>: scraping once more, tag by
    tag and without them. \<open>Http_Lib\<close>: the interface to the HTTP crates.
  \<^item> \<open>Proxy\<close> and \<open>Handler\<close> (\<open>main.rs\<close>): request and response rewriting, every route, the gate and
    \<open>handle\<close>, the redirect of plain HTTP. \<open>System\<close>: runs of the server, requests and sweeps in any order.
  \<^item> \<open>Guard_Js\<close> (\<open>guard.js\<close>): the solver, the expiry, queue and time-outs of the script as a state machine
    over its variables, and the exchange of a renewal with \<open>handle\<close>.
  \<^item> \<open>Tls_Edge\<close> (\<open>main.rs\<close>): \<open>build_tls_config\<close>, the reload, \<open>TlsCertResolver\<close>, \<open>PrefixedReader\<close>, the
    connections of both listeners and the WebSocket relay. \<open>Cluster\<close>: several edges, each with the inbox of
    its subscription, over one store. \<open>Startup\<close>: the start of \<open>main_inner\<close> and the
    build script. \<open>Ng_Log\<close> (\<open>ng_log.rs\<close>): levels, log file, calendar.
  \<^item> \<open>Acme\<close> (\<open>certd/acme.rs\<close>): signed requests, account, order, challenges, Cloudflare, finalisation.
    \<open>Certd\<close> (\<open>certd/acme.rs\<close>, \<open>main.rs\<close>, \<open>config.rs\<close>): storage, first issuance, renewal rounds, HTTP
    routes, configuration. \<open>Deployment\<close>: the daemon, one action at a time, and the edges of \<open>Cluster\<close>
    over one store. This theory: the way of a certificate from the daemon to the edge.
  \<^item> \<open>Conformance_Inject\<close>, \<open>Conformance\<close>: the unit tests of \<open>inject.rs\<close>, \<open>main.rs\<close> and \<open>embed.rs\<close>
    that call the program's functions directly, as statements about the model. \<open>Conformance_Codec\<close>: those
    that run a compressor on a document. \<open>Conformance_Scrape\<close>: those that scrape a whole document. \<open>Conformance_Fetch\<close>, \<open>Conformance_Icon\<close>, \<open>Conformance_Redis\<close>: those with a
    running origin, which is a function from paths to responses, and with the fake Redis, which is a map and
    the log of its commands; \<open>Conformance_Resp\<close>: its protocol.

  \<^bold>\<open>How state and operations correspond.\<close> A struct is a record and an enum a datatype with the source's
  names; a function that changes state takes it and returns it. A panic is \<open>Panic\<close>, because the release
  profile aborts the process; an error that \<open>?\<close> passes on is \<open>Inl\<close>. Clocks and random bytes are
  arguments. The network is a function of everything sent so far, so that theorems hold for every
  behaviour of the other side; what is sent is a list, and an order of effects is a statement about it.
  Code of other crates (TOML, codecs, cryptography, JSON text, HTTP header maps, Redis) is a field of a
  parameter record, and what the proofs need of it is a named hypothesis or the assumption of a locale.
  What the scraper's expressions find is a parameter too (\<open>head_regexes\<close>), and \<open>page_regexes\<close> is its value
  for the expressions of the program.

  \<^bold>\<open>What the lemma groups show.\<close>
  \<^item> Clearance: without it no client request reaches an upstream over HTTP (\<open>Handler\<close>); a cookie is
    accepted exactly for the address it was sealed for and until it expires (\<open>Session\<close>); a challenge is
    consumed once (\<open>Pow\<close>); a run of the server refines a run of the challenge store, so it grants no more
    cookies than it issued challenges, and it answers every request (\<open>System\<close>). A WebSocket upgrade is
    relayed without clearance (\<open>Tls_Edge\<close>).
  \<^item> Browser: its target is the server's; its solver returns exactly when a solution is in range; a renewal
    succeeds against \<open>handle\<close>; no intercepted request is lost; its expiry can be later than the cookie's
    (\<open>Guard_Js\<close>).
  \<^item> Edge: which handshakes are admitted and with which certificate; no byte of a peeked request is lost;
    exactly which connections make the process panic.
  \<^item> Proxying and metadata: what a forwarded request and a returned response carry; documents spliced and
    bounded; fetched metadata stays on the origin and is escaped; at most one fetch per page at a time; the
    interstitial is its template with the title and the marker replaced (\<open>Head_Regex\<close>, where \<open>match_runs\<close>
    reads the matcher as the first of the possible matches in order of preference); scraping a document of
    texts and tags is reading it tag by tag (\<open>Head_Tokens\<close>).
  \<^item> Conformance: the model computes what the unit tests of the sources assert.
  \<^item> Limits: the admitted requests of a window are bounded, and the rounding that can starve a client.
  \<^item> Configuration: when the expansion succeeds, and that lookup and TLS gate agree with it.
  \<^item> Certificates: an issuance proves control before it asks for validation, never reuses a nonce and ends;
    the store changes only by what was issued; which failures are never retried; a stored certificate is
    the one the edge presents; subscribed edges converge to the store, and an update published while one is
    not subscribed is lost to it (\<open>Cluster\<close>); with the daemon's actions between theirs, one publication
    and its handling always bring such an edge to the store, and without edges these actions are the loop
    (\<open>Deployment\<close>).
  \<^item> Logging: the loops compute the Gregorian calendar and end; the log file stays within its limit and
    keeps the latest records.

  The interfaces are locales: \<open>one_time_store\<close> (the challenge store), \<open>token_bucket\<close> (the limiter),
  \<open>byte_source\<close> and \<open>replayed_source\<close> (readers; a reader with a prefix is a reader again),
  \<open>trace_property\<close> and \<open>timed_trace_property\<close> (properties of what an ACME operation sends, interpreted
  for nonces, for pauses and for growth), \<open>cert_store\<close> and its extension \<open>cert_link\<close> (daemon and edge).

  \<^bold>\<open>Bounds and fuel.\<close> All recursions terminate by a measure or on their data. The year loop of the
  calendar and the nonce loop of the browser are partial functions and when they return is a theorem; nonces
  stop growing at \<open>2 ^ 53\<close>, the last number the browser counts to. The polling loops of the ACME client run
  30 times, as in the source; the endless loops (accepting connections, renewal, key set-up by several
  workers) are sequences of any length. Machine integers wrap where the code lets them; hypotheses on
  sizes (below \<open>2 ^ 62\<close> or \<open>2 ^ 63\<close>) keep dates and file sizes in range.

  \<^bold>\<open>Not modelled.\<close> The raw copy of bytes after a WebSocket upgrade, sockets and the TLS handshake itself;
  the task scheduler (tasks interact only through the stores, whose interleavings are modelled where the
  code races: the session key, the limiter, the single flight, the challenge store, the edges); the event
  loop of the browser below the callbacks of the script, the worker it solves in, and the texts and layout
  of the interstitial page. Of the unit tests the sockets of their servers and clients; where a test needs a
  compressor or the JSON codec, its lemma says what of it. The page the build minifies is an argument of the
  two tests that render it.

  \<^bold>\<open>Beyond this development.\<close> The header order of relayed upgrades whose lines are not plain ASCII; more than
  one daemon over one store.
\<close>

section \<open>From the daemon to the edge\<close>

text \<open>
  The daemon and the edge share nothing but the store: one writes the records the other lists and reads.
  The contract between them extends the daemon's: both see the same keys and texts, and the edge reads
  the two PEM members of a record and skips the rest.
\<close>

definition de_CertData :: "json \<Rightarrow> CertData option" where
  "de_CertData v =
     (case (as_str (jget v ''cert_pem''), as_str (jget v ''key_pem'')) of
        (Some c, Some k) \<Rightarrow> Some \<lparr>cert_pem = c, key_pem = k\<rparr>
      | _ \<Rightarrow> None)"

locale cert_link = cert_store L R
  for L :: "'k acme_lib" and R :: "'r cert_redis" +
  fixes E :: "('r, 'c, 'p) cert_lib"
  assumes same_get: "cmd_get E k r = rd_get R k r"
    and keys_listed: "\<exists>ks. cmd_keys E r = Some ks \<and> set ks = {k. prefix cert_prefix k \<and> rd_get R k r \<noteq> None}"
    and same_json: "cert_from_json E t = Option.bind (json_parse L t) de_CertData"
begin

lemma stored_at_edge:
  assumes "load_stored L R d r = Some cert"
  shows "stored_cert E r d = Some \<lparr>cert_pem = a_cert_pem cert, key_pem = a_key_pem cert\<rparr>"
proof -
  obtain t v where t: "rd_get R (cert_prefix @ d) r = Some t" "json_parse L t = Some v" "de_cert v = Some cert"
    using assms by (auto simp: load_stored_def CERT_PREFIX_def cert_prefix_def bind_eq_Some_conv)
  have "de_CertData v = Some \<lparr>cert_pem = a_cert_pem cert, key_pem = a_key_pem cert\<rparr>"
    using t(3) by (auto simp: de_cert_def de_CertData_def split: option.splits)
  with t show ?thesis by (simp add: stored_cert_def same_get same_json)
qed

text \<open>What a reload has under a name with a stored certificate.\<close>

lemma reloaded_entry:
  assumes "load_stored L R d r = Some cert" and "reload_certs E (rs @ [r]) m0 = Done m"
  shows "m d = Some (cert_entry E \<lparr>cert_pem = a_cert_pem cert, key_pem = a_key_pem cert\<rparr>)"
proof -
  obtain ks where ks: "cmd_keys E r = Some ks" "set ks = {k. prefix cert_prefix k \<and> rd_get R k r \<noteq> None}"
    using keys_listed by blast
  have listed: "cert_prefix @ d \<in> set ks"
    using assms(1) unfolding ks(2) by (auto simp: load_stored_def CERT_PREFIX_def cert_prefix_def bind_eq_Some_conv)
  have "load_certs E r ks Map.empty = Done m"
    using reload_certs_last [OF assms(2)] ks(1) by (simp add: build_tls_config_def unwrap_or_def)
  moreover have "list_all (prefix cert_prefix) ks" using ks(2) by (auto simp: list_all_iff)
  then have "d \<in> name_of_key ` set ks" using name_of_key_image listed by blast
  ultimately show ?thesis
    using load_certs_lookup [of E r ks Map.empty m d] stored_at_edge [OF assms(1)] by (simp add: cert_entry_def)
qed

end

lemma split_on_dot: "split_on d (u @ d # v) = split_on d u @ split_on d v"
  unfolding split_on_def
proof (induction u)
  case (Cons c u)
  then show ?case
    using split_by_ne [of "\<lambda>c. c = d" u] by (cases "split_by (\<lambda>c. c = d) u") auto
qed simp

lemma resolve_below:
  assumes "m d = Some (chain, k)" and "any k = Some s" and "h = d \<or> (\<exists>u. h = u @ ''.'' @ d)"
    and "\<And>j. j < length (split_on (CHR ''.'') h) - length (split_on (CHR ''.'') d) \<Longrightarrow>
           m (join ''.'' (drop j (split_on (CHR ''.'') h))) = None"
  shows "resolve any m (Some h) = Some (chain, s)"
proof -
  let ?n = "length (split_on (CHR ''.'') h) - length (split_on (CHR ''.'') d)"
  have ne: "split_on (CHR ''.'') x \<noteq> []" for x by (simp add: split_on_def split_by_ne)
  have "drop ?n (split_on (CHR ''.'') h) = split_on (CHR ''.'') d"
    using assms(3) split_on_dot [of "CHR ''.''" _ d] by auto
  moreover have "join ''.'' (split_on (CHR ''.'') d) = d"
    using join_split [of "CHR ''.''" d] by (simp add: split_on_def)
  moreover have "?n < length (split_on (CHR ''.'') h)" using ne [of h] ne [of d] by (simp add: diff_less)
  ultimately show ?thesis
    unfolding resolve_Some using assms(1,2,4) by (intro exI [of _ ?n]) auto
qed

text \<open>
  C11. A certificate the daemon obtains is the one the edge serves. If an issuance succeeds and the store
  takes the record, the daemon publishes the name after storing it, and the first reload that follows
  makes the edge present the issued chain, with the key the request was made with, for the name itself
  and for every name below it that has no entry of its own.
\<close>

theorem issued_cert_served:
  assumes "cert_link L R E"
    and "issue_cert L tok (cert_group ds d) (st_client s) = (Inr (cp, kp), c)"
    and "clock L (ac_events c) = Some now" and "rd_connects R (ac_events c)"
    and "\<And>t. rd_get R (CERT_PREFIX @ d) (rd_set R (CERT_PREFIX @ d) t (st_redis s)) = Some t"
    and "pem_certs E cp = Some chain" and "pem_keys E kp = Some (k # ks)" and "any k = Some sk"
    and "h = d \<or> (\<exists>u. h = u @ ''.'' @ d)"
  shows "\<exists>s'. issue_first L R tok ds d s = (Inr (), s') \<and> last (ac_events (st_client s')) = Published d \<and>
     (\<forall>rs m0 m. reload_certs E (rs @ [st_redis s']) m0 = Done m \<and>
        (\<forall>j < length (split_on (CHR ''.'') h) - length (split_on (CHR ''.'') d).
           m (join ''.'' (drop j (split_on (CHR ''.'') h))) = None) \<longrightarrow>
        resolve any m (Some h) = Some (chain, sk))"
proof -
  let ?cert = "new_cert (cp, kp) now"
  let ?s' = "s\<lparr>st_redis := store_cert L R d ?cert (st_redis s), st_client := c\<lparr>ac_events := ac_events c @ [Published d]\<rparr>\<rparr>"
  have step: "issue_first L R tok ds d s = (Inr (), ?s')"
    using assms(2-4) by (simp add: issue_first_def store_and_publish_def)
  have store: "cert_store L R" using assms(1) by (simp add: cert_link_def)
  have "load_stored L R d (st_redis ?s') = Some ?cert"
    using assms(5) cert_store.text_back [OF store] cert_store.de_cert_value [OF store]
    by (simp add: load_stored_def store_cert_def)
  then have "m d = Some (chain, k)" if "reload_certs E (rs @ [st_redis ?s']) m0 = Done m" for rs m0 m
    using cert_link.reloaded_entry [OF assms(1) _ that, of d ?cert] assms(6,7)
    by (simp add: cert_entry_def new_cert_def)
  then have "resolve any m (Some h) = Some (chain, sk)"
    if "reload_certs E (rs @ [st_redis ?s']) m0 = Done m"
      "\<forall>j < length (split_on (CHR ''.'') h) - length (split_on (CHR ''.'') d).
         m (join ''.'' (drop j (split_on (CHR ''.'') h))) = None" for rs m0 m
    using that resolve_below [of m d chain k any sk h] assms(8,9) by blast
  with step show ?thesis by (intro exI [of _ ?s'] conjI allI impI) auto
qed

text \<open>The edge over the same association list; records whose key text is its own key.\<close>

definition edge_lib :: "((string \<times> string) list, string, string) cert_lib" where
  "edge_lib =
     \<lparr>cmd_keys = (\<lambda>r. Some (filter (prefix cert_prefix) (map fst r))), cmd_get = (\<lambda>k r. map_of r k),
      cert_from_json = (\<lambda>t. Option.bind (json_parse sample_acme t) de_CertData),
      pem_certs = (\<lambda>p. Some [p]), pem_keys = (\<lambda>p. Some [p])\<rparr>"

interpretation el: cert_link sample_acme list_redis edge_lib
proof
  show "\<exists>ks. cmd_keys edge_lib r = Some ks \<and> set ks = {k. prefix cert_prefix k \<and> rd_get list_redis k r \<noteq> None}" for r
    by (auto simp: edge_lib_def list_redis_def map_of_eq_None_iff)
qed (simp_all add: edge_lib_def list_redis_def)

theorem issued_cert_served_witness:
  "\<exists>s'. issue_first sample_acme list_redis ''tok'' [''ex.org''] ''ex.org'' \<lparr>st_client = sample_client, st_redis = []\<rparr> = (Inr (), s') \<and>
     (\<forall>m. reload_certs edge_lib [st_redis s'] Map.empty = Done m \<and> m ''www.ex.org'' = None \<longrightarrow>
        resolve Some m (Some ''www.ex.org'') = Some ([''cert''], ''kpem''))"
proof -
  let ?s = "\<lparr>st_client = sample_client, st_redis = [] :: (string \<times> string) list\<rparr>"
  obtain c where c: "issue_cert sample_acme ''tok'' (cert_group [''ex.org''] ''ex.org'') (st_client ?s) = (Inr (''cert'', ''kpem''), c)"
    using sample_issues [of "''tok''" "cert_group [''ex.org''] ''ex.org''"] unfolding yields_def by auto
  have n: "length (split_on (CHR ''.'') ''www.ex.org'') - length (split_on (CHR ''.'') ''ex.org'') = 1"
    "join ''.'' (split_on (CHR ''.'') ''www.ex.org'') = ''www.ex.org''"
    by (simp_all add: split_on_def)
  have h: "clock sample_acme (ac_events c) = Some 1000" "rd_connects list_redis (ac_events c)"
    "\<And>t. rd_get list_redis (CERT_PREFIX @ ''ex.org'') (rd_set list_redis (CERT_PREFIX @ ''ex.org'') t (st_redis ?s)) = Some t"
    "pem_certs edge_lib ''cert'' = Some [''cert'']" "pem_keys edge_lib ''kpem'' = Some [''kpem'']"
    by (simp_all add: sample_acme_def list_redis_def edge_lib_def)
  have "''www.ex.org'' = ''ex.org'' \<or> (\<exists>u. ''www.ex.org'' = u @ ''.'' @ ''ex.org'')"
    by (rule disjI2, rule exI [of _ "''www''"]) simp
  from issued_cert_served [where any = Some, OF el.cert_link_axioms c h refl this] obtain s' where
    s': "issue_first sample_acme list_redis ''tok'' [''ex.org''] ''ex.org'' ?s = (Inr (), s')"
    "\<And>rs m0 m. reload_certs edge_lib (rs @ [st_redis s']) m0 = Done m \<Longrightarrow> m ''www.ex.org'' = None \<Longrightarrow>
        resolve Some m (Some ''www.ex.org'') = Some ([''cert''], ''kpem'')"
    unfolding n(1) by (auto simp: n(2))
  from s'(2) [of "[]" Map.empty] s'(1) show ?thesis by (intro exI [of _ s']) simp
qed

section \<open>The daemon and all edges at once\<close>

text \<open>
  C16. The whole deployment converges. Take an edge that is subscribed and has the certificates of the store,
  and let the daemon and all edges act in any interleaving in which the edge keeps its connection and Redis
  takes the publications. As long as the edge lives and the store can be loaded, the publication that is
  due, if one is, and the edge's handling of the messages it has, bring it to the certificates of the store:
  under every name with a record it has what the record holds, and that is what it held at the start or
  was issued to the daemon for that name.
\<close>

theorem deployment_converges:
  assumes "cert_link L R E" and "dep_run L R E cfg ds es s = Some s'"
    and "current E i (dp_cluster s)" and "es_inbox (cl_edges (dp_cluster s) i) = Some box"
    and "dp_stored s = None" and "set (dp_todo s) \<subseteq> set ds"
    and "Daemon False \<notin> set es" and "Edge (Disconnect i) \<notin> set es" and "Edge (EdgeStart i) \<notin> set es"
    and "es_certs (cl_edges (dp_cluster s') i) \<noteq> None" and "build_tls_config E (cl_store (dp_cluster s')) = Done m"
  shows "\<exists>n s''. dep_run L R E cfg ds (announcement s' @ replicate n (Edge (Deliver i True True))) s' = Some s'' \<and>
     es_certs (cl_edges (dp_cluster s'') i) = Some m \<and> es_inbox (cl_edges (dp_cluster s'') i) = Some [] \<and>
     cl_store (dp_cluster s'') = cl_store (dp_cluster s') \<and>
     (\<forall>d cert. load_stored L R d (cl_store (dp_cluster s'')) = Some cert \<longrightarrow>
        m d = Some (cert_entry E \<lparr>cert_pem = a_cert_pem cert, key_pem = a_key_pem cert\<rparr>) \<and>
        (load_stored L R d (cl_store (dp_cluster s)) = Some cert \<or>
         d \<in> set ds \<and> issued_for L (cd_cloudflare_api_token cfg) ds d cert))"
proof -
  have store: "cert_store L R" using assms(1) by (simp add: cert_link_def)
  have "informed E i (dp_stored s \<noteq> None) (dp_cluster s)" using assms(3,4) by (simp add: informed_def)
  note inf = dep_run_informed [OF assms(2) this assms(7-9)]
  have "dp_stored s' \<noteq> None \<longrightarrow> dp_runs s'" using dep_run_runs [OF assms(2)] assms(5) by simp
  from settled [OF inf this assms(10,11)] obtain n s'' where s'':
    "dep_run L R E cfg ds (announcement s' @ replicate n (Edge (Deliver i True True))) s' = Some s''"
    "es_certs (cl_edges (dp_cluster s'') i) = Some m" "es_inbox (cl_edges (dp_cluster s'') i) = Some []"
    "cl_store (dp_cluster s'') = cl_store (dp_cluster s')"
    by blast
  have "reload_certs E ([] @ [cl_store (dp_cluster s')]) Map.empty = Done m" using assms(11) by simp
  note entry = cert_link.reloaded_entry [OF assms(1) _ this]
  have "only_issued L R (cd_cloudflare_api_token cfg) ds (set ds) (cl_store (dp_cluster s)) (cl_store (dp_cluster s'))"
    by (rule cert_store.dep_run_store [OF store assms(2,6)])
  then have "load_stored L R d (cl_store (dp_cluster s)) = Some cert \<or>
      d \<in> set ds \<and> issued_for L (cd_cloudflare_api_token cfg) ds d cert"
    if "load_stored L R d (cl_store (dp_cluster s')) = Some cert" for d cert
    using that unfolding only_issued_def by (metis option.inject)
  with s'' entry show ?thesis by (intro exI [of _ n] exI [of _ s'']) simp
qed

definition quiet_cluster :: "((string \<times> string) list, string, string) cluster" where
  "quiet_cluster = \<lparr>cl_store = [], cl_edges = (\<lambda>_. \<lparr>es_certs = Some Map.empty, es_inbox = Some []\<rparr>)\<rparr>"

lemma edge_lib_loads: "\<exists>m. build_tls_config edge_lib r = Done m"
proof -
  have "pem_ok edge_lib c" for c by (simp add: pem_ok_def edge_lib_def)
  then show ?thesis unfolding build_tls_config_def load_certs_Done by (simp split: option.splits)
qed

theorem deployment_converges_witness:
  "\<exists>m s' n s''. dep_run sample_acme list_redis edge_lib sample_certd [''ex.org''] [Daemon True]
        (deployed sample_client [''ex.org''] quiet_cluster) = Some s' \<and>
     dep_run sample_acme list_redis edge_lib sample_certd [''ex.org'']
        (announcement s' @ replicate n (Edge (Deliver 0 True True))) s' = Some s'' \<and>
     es_certs (cl_edges (dp_cluster s'') 0) = Some m \<and> m ''ex.org'' = Some ([''cert''], ''kpem'')"
proof -
  let ?s = "deployed sample_client [''ex.org''] quiet_cluster"
  obtain c where c: "issue_cert sample_acme ''tok'' (cert_group [''ex.org''] ''ex.org'') sample_client = (Inr (''cert'', ''kpem''), c)"
    using sample_issues [of "''tok''" "cert_group [''ex.org''] ''ex.org''"] unfolding yields_def by auto
  let ?cert = "new_cert (''cert'', ''kpem'') 1000"
  have "obtain_cert sample_acme list_redis ''tok'' [''ex.org''] Issuing ''ex.org'' [] sample_client = (Inr (Some ?cert), c)"
    by (simp add: obtain_cert_def c) (simp add: sample_acme_def list_redis_def)
  moreover have "base_domains [''ex.org''] = [''ex.org'']" by (simp add: base_domains_def starts_with_def)
  ultimately obtain s' where s': "dep_run sample_acme list_redis edge_lib sample_certd [''ex.org''] [Daemon True] ?s = Some s'"
    "cl_store (dp_cluster s') = store_cert sample_acme list_redis ''ex.org'' ?cert []"
    "es_certs (cl_edges (dp_cluster s') 0) \<noteq> None"
    by (simp add: deployed_def quiet_cluster_def sample_certd_def)
  obtain m where m: "build_tls_config edge_lib (cl_store (dp_cluster s')) = Done m" using edge_lib_loads by blast
  have st: "load_stored sample_acme list_redis ''ex.org'' (cl_store (dp_cluster s')) = Some ?cert"
    unfolding s'(2) by (simp add: load_stored_def store_cert_def list_redis_def mr.text_back mr.de_cert_value del: sample_fields(6))
  have init: "current edge_lib 0 (dp_cluster ?s)" "es_inbox (cl_edges (dp_cluster ?s) 0) = Some []" "dp_stored ?s = None"
    "set (dp_todo ?s) \<subseteq> set [''ex.org'']"
    by (simp_all add: current_def deployed_def quiet_cluster_def build_tls_config_def edge_lib_def unwrap_or_def base_domains_def)
  from deployment_converges [OF el.cert_link_axioms s'(1) init _ _ _ s'(3) m] obtain n s'' where s'':
    "dep_run sample_acme list_redis edge_lib sample_certd [''ex.org''] (announcement s' @ replicate n (Edge (Deliver 0 True True))) s' = Some s''"
    "es_certs (cl_edges (dp_cluster s'') 0) = Some m"
    "m ''ex.org'' = Some (cert_entry edge_lib \<lparr>cert_pem = a_cert_pem ?cert, key_pem = a_key_pem ?cert\<rparr>)"
    using st by auto
  then show ?thesis using s'(1) by (auto simp: cert_entry_def edge_lib_def new_cert_def)
qed

end
